(* ===== verification/Nv_Prelude.thy ===== *)
theory Nv_Prelude
  imports Main "HOL-Library.Word" "HOL-Library.Monad_Syntax" "HOL-Library.Multiset"
begin

text \<open>
  Shared vocabulary of the development: the C integer types of the library as machine words,
  the option monad in which every C function that can abort is written (\<open>None\<close> stands for a
  failed \<open>assert\<close>, a dereference of a pointer that is not allocated, or a loop that does not
  come to an end), and the collections of facts that the component proofs use.
\<close>

section \<open>C types\<close>

type_synonym ULONG = "64 word"
type_synonym UINT = "32 word"
type_synonym byte = "8 word"

text \<open>Addresses of C objects that only the library itself dereferences.\<close>

type_synonym ptr = nat

abbreviation NULL :: ptr where
  "NULL \<equiv> 0"

section \<open>The option monad\<close>

definition c_assert :: "bool \<Rightarrow> unit option" where
  "c_assert b = (if b then Some () else None)"

text \<open>The short-circuit \<open>&&\<close>: the right operand is evaluated only when the left one is true.\<close>

definition c_and :: "bool option \<Rightarrow> bool option \<Rightarrow> bool option" where
  "c_and p q = do { b \<leftarrow> p; if b then q else Some False }"

text \<open>A loop over a list whose body may fail.\<close>

fun fold_option :: "('s \<Rightarrow> 'a \<Rightarrow> 's option) \<Rightarrow> 's \<Rightarrow> 'a list \<Rightarrow> 's option" where
  "fold_option f s [] = Some s"
| "fold_option f s (x # xs) = do { s' \<leftarrow> f s x; fold_option f s' xs }"

named_theorems monad_simps \<open>facts that evaluate a monadic C function\<close>

lemma c_assert_True [simp, monad_simps]: "c_assert True = Some ()"
  by (simp add: c_assert_def)

lemma c_assert_False [simp, monad_simps]: "c_assert False = None"
  by (simp add: c_assert_def)

lemma c_and_Some [simp, monad_simps]: "c_and (Some a) (Some b) = Some (a \<and> b)"
  by (simp add: c_and_def)

lemma c_and_False [simp, monad_simps]: "c_and (Some False) q = Some False"
  by (simp add: c_and_def)

lemma c_and_True [simp, monad_simps]: "c_and (Some True) q = q"
  by (simp add: c_and_def)

lemma c_assert_bind_eq_Some:
  "(c_assert b \<bind> f) = Some y \<longleftrightarrow> b \<and> f () = Some y"
  by (cases b) simp_all

lemma bind_eq_SomeD:
  assumes "(m \<bind> f) = Some y"
  obtains x where "m = Some x" and "f x = Some y"
  using assms by (cases m) auto

section \<open>Generic lemmas\<close>

lemma fold_option_append: "fold_option f s (xs @ ys) = (fold_option f s xs \<bind> (\<lambda>t. fold_option f t ys))"
  by (induction xs arbitrary: s) auto

lemma length_less_card_bound:
  assumes "distinct xs" and "set xs \<subseteq> {a..<b}"
  shows "length xs \<le> b - a"
proof -
  have "length xs = card (set xs)"
    using assms(1) by (simp add: distinct_card)
  also have "\<dots> \<le> card {a..<b}"
    using assms(2) by (intro card_mono) auto
  finally show ?thesis by simp
qed

end
