(* ===== verification/Rbtree.thy ===== *)
theory Rbtree
  imports Nv_Prelude
begin

text \<open>
  The red-black tree of \<open>pvmobj/rbtree.cc\<close>: nodes with parent pointers in a heap, one HOL
  function per C function. A tree is its \<open>root\<close> pointer, the nodes that \<open>malloc\<close> handed out
  for it and the next address \<open>malloc\<close> will hand out. Every dereference of an address that is
  not allocated and every failed \<open>assert\<close> makes the function return \<open>None\<close>.
\<close>

section \<open>Data\<close>

datatype rbtree_node_color = RED | BLACK

record 'v rbtree_node =
  nkey :: ULONG
  nvalue :: 'v
  nleft :: ptr
  nright :: ptr
  nparent :: ptr
  ncolor :: rbtree_node_color

record 'v rbtree =
  root :: ptr
  nodes :: "ptr \<rightharpoonup> 'v rbtree_node"
  brk :: ptr

text \<open>
  A \<open>compare_func\<close> receives the node whose key is the right operand, or \<open>NULL\<close>
  (\<open>rbtree_insert\<close> passes \<open>NULL\<close>).
\<close>

type_synonym 'v compare_func = "'v rbtree_node option \<Rightarrow> ULONG \<Rightarrow> ULONG \<Rightarrow> int option"

section \<open>Field accesses\<close>

definition deref :: "'v rbtree \<Rightarrow> ptr \<Rightarrow> 'v rbtree_node option" where
  "deref t p = (if p = NULL then None else nodes t p)"

definition upd_node ::
  "'v rbtree \<Rightarrow> ptr \<Rightarrow> ('v rbtree_node \<Rightarrow> 'v rbtree_node) \<Rightarrow> 'v rbtree option" where
  "upd_node t p f = do { n \<leftarrow> deref t p; Some (t\<lparr>nodes := (nodes t)(p \<mapsto> f n)\<rparr>) }"

definition set_left :: "'v rbtree \<Rightarrow> ptr \<Rightarrow> ptr \<Rightarrow> 'v rbtree option" where
  "set_left t p x = upd_node t p (\<lambda>n. n\<lparr>nleft := x\<rparr>)"

definition set_right :: "'v rbtree \<Rightarrow> ptr \<Rightarrow> ptr \<Rightarrow> 'v rbtree option" where
  "set_right t p x = upd_node t p (\<lambda>n. n\<lparr>nright := x\<rparr>)"

definition set_parent :: "'v rbtree \<Rightarrow> ptr \<Rightarrow> ptr \<Rightarrow> 'v rbtree option" where
  "set_parent t p x = upd_node t p (\<lambda>n. n\<lparr>nparent := x\<rparr>)"

definition set_color :: "'v rbtree \<Rightarrow> ptr \<Rightarrow> rbtree_node_color \<Rightarrow> 'v rbtree option" where
  "set_color t p x = upd_node t p (\<lambda>n. n\<lparr>ncolor := x\<rparr>)"

definition set_value :: "'v rbtree \<Rightarrow> ptr \<Rightarrow> 'v \<Rightarrow> 'v rbtree option" where
  "set_value t p x = upd_node t p (\<lambda>n. n\<lparr>nvalue := x\<rparr>)"

definition set_key :: "'v rbtree \<Rightarrow> ptr \<Rightarrow> ULONG \<Rightarrow> 'v rbtree option" where
  "set_key t p x = upd_node t p (\<lambda>n. n\<lparr>nkey := x\<rparr>)"

definition free_node :: "'v rbtree \<Rightarrow> ptr \<Rightarrow> 'v rbtree" where
  "free_node t p = t\<lparr>nodes := (nodes t)(p := None)\<rparr>"

section \<open>Operations\<close>

definition rbtree_create :: "'v rbtree" where
  "rbtree_create = \<lparr>root = NULL, nodes = Map.empty, brk = 1\<rparr>"

definition node_color :: "'v rbtree \<Rightarrow> ptr \<Rightarrow> rbtree_node_color option" where
  "node_color t n = (if n = NULL then Some BLACK else do { nn \<leftarrow> deref t n; Some (ncolor nn) })"

definition grandparent :: "'v rbtree \<Rightarrow> ptr \<Rightarrow> ptr option" where
  "grandparent t n = do {
     c_assert (n \<noteq> NULL);
     nn \<leftarrow> deref t n;
     c_assert (nparent nn \<noteq> NULL);
     p \<leftarrow> deref t (nparent nn);
     c_assert (nparent p \<noteq> NULL);
     Some (nparent p) }"

definition sibling :: "'v rbtree \<Rightarrow> ptr \<Rightarrow> ptr option" where
  "sibling t n = do {
     c_assert (n \<noteq> NULL);
     nn \<leftarrow> deref t n;
     c_assert (nparent nn \<noteq> NULL);
     p \<leftarrow> deref t (nparent nn);
     if n = nleft p then Some (nright p) else Some (nleft p) }"

definition uncle :: "'v rbtree \<Rightarrow> ptr \<Rightarrow> ptr option" where
  "uncle t n = do {
     c_assert (n \<noteq> NULL);
     nn \<leftarrow> deref t n;
     c_assert (nparent nn \<noteq> NULL);
     p \<leftarrow> deref t (nparent nn);
     c_assert (nparent p \<noteq> NULL);
     sibling t (nparent nn) }"

definition new_node ::
  "'v rbtree \<Rightarrow> ULONG \<Rightarrow> 'v \<Rightarrow> rbtree_node_color \<Rightarrow> ptr \<Rightarrow> ptr \<Rightarrow> ('v rbtree \<times> ptr) option" where
  "new_node t key val c l r = do {
     let result = brk t;
     let t = t\<lparr>nodes := (nodes t)(result \<mapsto>
               \<lparr>nkey = key, nvalue = val, nleft = l, nright = r, nparent = NULL, ncolor = c\<rparr>),
               brk := Suc (brk t)\<rparr>;
     t \<leftarrow> (if l \<noteq> NULL then set_parent t l result else Some t);
     t \<leftarrow> (if r \<noteq> NULL then set_parent t r result else Some t);
     t \<leftarrow> set_parent t result NULL;
     Some (t, result) }"

fun lookup_loop :: "nat \<Rightarrow> 'v rbtree \<Rightarrow> ptr \<Rightarrow> ULONG \<Rightarrow> 'v compare_func \<Rightarrow> ptr option" where
  "lookup_loop 0 t n key compare = (if n = NULL then Some n else None)"
| "lookup_loop (Suc fuel) t n key compare =
     (if n = NULL then Some n
      else do {
        nn \<leftarrow> deref t n;
        comp_result \<leftarrow> compare (Some nn) key (nkey nn);
        if comp_result = 0 then Some n
        else if comp_result < 0 then lookup_loop fuel t (nleft nn) key compare
        else do {
          c_assert (comp_result > 0);
          lookup_loop fuel t (nright nn) key compare } })"

definition lookup_node :: "'v rbtree \<Rightarrow> ULONG \<Rightarrow> 'v compare_func \<Rightarrow> ptr option" where
  "lookup_node t key compare = lookup_loop (brk t) t (root t) key compare"

text \<open>The inner option is the C pointer result: \<open>None\<close> for \<open>NULL\<close>.\<close>

definition rbtree_lookup :: "'v rbtree \<Rightarrow> ULONG \<Rightarrow> 'v compare_func \<Rightarrow> 'v option option" where
  "rbtree_lookup t key compare = do {
     n \<leftarrow> lookup_node t key compare;
     if n = NULL then Some None else do { nn \<leftarrow> deref t n; Some (Some (nvalue nn)) } }"

definition replace_node :: "'v rbtree \<Rightarrow> ptr \<Rightarrow> ptr \<Rightarrow> 'v rbtree option" where
  "replace_node t oldn newn = do {
     old \<leftarrow> deref t oldn;
     t \<leftarrow> (if nparent old = NULL then Some (t\<lparr>root := newn\<rparr>)
          else do {
            p \<leftarrow> deref t (nparent old);
            if oldn = nleft p then set_left t (nparent old) newn
            else set_right t (nparent old) newn });
     if newn \<noteq> NULL
     then do { old' \<leftarrow> deref t oldn; set_parent t newn (nparent old') }
     else Some t }"

definition rotate_left :: "'v rbtree \<Rightarrow> ptr \<Rightarrow> 'v rbtree option" where
  "rotate_left t n = do {
     nn \<leftarrow> deref t n;
     let r = nright nn;
     t \<leftarrow> replace_node t n r;
     rr \<leftarrow> deref t r;
     t \<leftarrow> set_right t n (nleft rr);
     rr \<leftarrow> deref t r;
     t \<leftarrow> (if nleft rr \<noteq> NULL then set_parent t (nleft rr) n else Some t);
     t \<leftarrow> set_left t r n;
     set_parent t n r }"

definition rotate_right :: "'v rbtree \<Rightarrow> ptr \<Rightarrow> 'v rbtree option" where
  "rotate_right t n = do {
     nn \<leftarrow> deref t n;
     let L = nleft nn;
     t \<leftarrow> replace_node t n L;
     ll \<leftarrow> deref t L;
     t \<leftarrow> set_left t n (nright ll);
     ll \<leftarrow> deref t L;
     t \<leftarrow> (if nright ll \<noteq> NULL then set_parent t (nright ll) n else Some t);
     t \<leftarrow> set_right t L n;
     set_parent t n L }"

subsection \<open>Insertion\<close>

definition insert_case5 :: "'v rbtree \<Rightarrow> ptr \<Rightarrow> 'v rbtree option" where
  "insert_case5 t n = do {
     nn \<leftarrow> deref t n;
     t \<leftarrow> set_color t (nparent nn) BLACK;
     g \<leftarrow> grandparent t n;
     t \<leftarrow> set_color t g RED;
     nn \<leftarrow> deref t n;
     p \<leftarrow> deref t (nparent nn);
     b \<leftarrow> c_and (Some (n = nleft p)) (do {
            g \<leftarrow> grandparent t n; gg \<leftarrow> deref t g; Some (nparent nn = nleft gg) });
     if b then do { g \<leftarrow> grandparent t n; rotate_right t g }
     else do {
       b \<leftarrow> c_and (Some (n = nright p)) (do {
              g \<leftarrow> grandparent t n; gg \<leftarrow> deref t g; Some (nparent nn = nright gg) });
       c_assert b;
       g \<leftarrow> grandparent t n;
       rotate_left t g } }"

definition insert_case4 :: "'v rbtree \<Rightarrow> ptr \<Rightarrow> 'v rbtree option" where
  "insert_case4 t n = do {
     nn \<leftarrow> deref t n;
     p \<leftarrow> deref t (nparent nn);
     b \<leftarrow> c_and (Some (n = nright p)) (do {
            g \<leftarrow> grandparent t n; gg \<leftarrow> deref t g; Some (nparent nn = nleft gg) });
     if b then do {
       t \<leftarrow> rotate_left t (nparent nn);
       nn' \<leftarrow> deref t n;
       insert_case5 t (nleft nn') }
     else do {
       b \<leftarrow> c_and (Some (n = nleft p)) (do {
              g \<leftarrow> grandparent t n; gg \<leftarrow> deref t g; Some (nparent nn = nright gg) });
       if b then do {
         t \<leftarrow> rotate_right t (nparent nn);
         nn' \<leftarrow> deref t n;
         insert_case5 t (nright nn') }
       else insert_case5 t n } }"

text \<open>
  \<open>insert_case1\<close> to \<open>insert_case3\<close> call each other up the tree; each round spends one
  unit of fuel.
\<close>

function insert_case1 :: "nat \<Rightarrow> 'v rbtree \<Rightarrow> ptr \<Rightarrow> 'v rbtree option"
  and insert_case2 :: "nat \<Rightarrow> 'v rbtree \<Rightarrow> ptr \<Rightarrow> 'v rbtree option"
  and insert_case3 :: "nat \<Rightarrow> 'v rbtree \<Rightarrow> ptr \<Rightarrow> 'v rbtree option"
where
  "insert_case1 fuel t n = do {
     nn \<leftarrow> deref t n;
     if nparent nn = NULL then set_color t n BLACK else insert_case2 fuel t n }"
| "insert_case2 fuel t n = do {
     nn \<leftarrow> deref t n;
     c \<leftarrow> node_color t (nparent nn);
     if c = BLACK then Some t else insert_case3 fuel t n }"
| "insert_case3 0 t n = None"
| "insert_case3 (Suc fuel) t n = do {
     u \<leftarrow> uncle t n;
     c \<leftarrow> node_color t u;
     if c = RED then do {
       nn \<leftarrow> deref t n;
       t \<leftarrow> set_color t (nparent nn) BLACK;
       u \<leftarrow> uncle t n;
       t \<leftarrow> set_color t u BLACK;
       g \<leftarrow> grandparent t n;
       t \<leftarrow> set_color t g RED;
       g \<leftarrow> grandparent t n;
       insert_case1 fuel t g }
     else insert_case4 t n }"
  by pat_completeness auto
termination
  by (relation "measure (\<lambda>x. case x of
        Inl (fuel, _) \<Rightarrow> 3 * fuel + 2
      | Inr (Inl (fuel, _)) \<Rightarrow> 3 * fuel + 1
      | Inr (Inr (fuel, _)) \<Rightarrow> 3 * fuel)") auto

text \<open>
  The loop of \<open>rbtree_insert\<close>: the parent under which the new node was linked, or
  \<open>None\<close> when the key was found, its value overwritten and the new node freed.
\<close>

fun insert_loop ::
  "nat \<Rightarrow> 'v rbtree \<Rightarrow> ptr \<Rightarrow> ptr \<Rightarrow> ULONG \<Rightarrow> 'v \<Rightarrow> 'v compare_func \<Rightarrow>
    ('v rbtree \<times> ptr option) option" where
  "insert_loop 0 t n inserted_node key val compare = None"
| "insert_loop (Suc fuel) t n inserted_node key val compare = do {
     nn \<leftarrow> deref t n;
     comp_result \<leftarrow> compare None key (nkey nn);
     if comp_result = 0 then do {
       t \<leftarrow> set_value t n val;
       Some (free_node t inserted_node, None) }
     else if comp_result < 0 then
       (if nleft nn = NULL
        then do { t \<leftarrow> set_left t n inserted_node; Some (t, Some n) }
        else insert_loop fuel t (nleft nn) inserted_node key val compare)
     else do {
       c_assert (comp_result > 0);
       (if nright nn = NULL
        then do { t \<leftarrow> set_right t n inserted_node; Some (t, Some n) }
        else insert_loop fuel t (nright nn) inserted_node key val compare) } }"

definition rbtree_insert ::
  "'v rbtree \<Rightarrow> ULONG \<Rightarrow> 'v \<Rightarrow> 'v compare_func \<Rightarrow> 'v rbtree option" where
  "rbtree_insert t key val compare = do {
     (t, inserted_node) \<leftarrow> new_node t key val RED NULL NULL;
     if root t = NULL then insert_case1 (brk t) (t\<lparr>root := inserted_node\<rparr>) inserted_node
     else do {
       (t, n) \<leftarrow> insert_loop (brk t) t (root t) inserted_node key val compare;
       (case n of
          None \<Rightarrow> Some t
        | Some p \<Rightarrow> do {
            t \<leftarrow> set_parent t inserted_node p;
            insert_case1 (brk t) t inserted_node }) } }"

subsection \<open>Deletion\<close>

fun maximum_node :: "nat \<Rightarrow> 'v rbtree \<Rightarrow> ptr \<Rightarrow> ptr option" where
  "maximum_node 0 t n = None"
| "maximum_node (Suc fuel) t n = do {
     c_assert (n \<noteq> NULL);
     nn \<leftarrow> deref t n;
     if nright nn \<noteq> NULL then maximum_node fuel t (nright nn) else Some n }"

definition delete_case6 :: "'v rbtree \<Rightarrow> ptr \<Rightarrow> 'v rbtree option" where
  "delete_case6 t n = do {
     nn \<leftarrow> deref t n;
     s \<leftarrow> sibling t n;
     c \<leftarrow> node_color t (nparent nn);
     t \<leftarrow> set_color t s c;
     t \<leftarrow> set_color t (nparent nn) BLACK;
     p \<leftarrow> deref t (nparent nn);
     s \<leftarrow> sibling t n;
     ss \<leftarrow> deref t s;
     if n = nleft p then do {
       rc \<leftarrow> node_color t (nright ss);
       c_assert (rc = RED);
       t \<leftarrow> set_color t (nright ss) BLACK;
       rotate_left t (nparent nn) }
     else do {
       lc \<leftarrow> node_color t (nleft ss);
       c_assert (lc = RED);
       t \<leftarrow> set_color t (nleft ss) BLACK;
       rotate_right t (nparent nn) } }"

text \<open>The tests on a node, its sibling and its sibling's children.\<close>

definition is_color :: "'v rbtree \<Rightarrow> ptr \<Rightarrow> rbtree_node_color \<Rightarrow> bool option" where
  "is_color t n c = do { c' \<leftarrow> node_color t n; Some (c' = c) }"

definition sib_is :: "'v rbtree \<Rightarrow> ptr \<Rightarrow> rbtree_node_color \<Rightarrow> bool option" where
  "sib_is t n c = do { s \<leftarrow> sibling t n; is_color t s c }"

definition sib_left_is :: "'v rbtree \<Rightarrow> ptr \<Rightarrow> rbtree_node_color \<Rightarrow> bool option" where
  "sib_left_is t n c = do { s \<leftarrow> sibling t n; ss \<leftarrow> deref t s; is_color t (nleft ss) c }"

definition sib_right_is :: "'v rbtree \<Rightarrow> ptr \<Rightarrow> rbtree_node_color \<Rightarrow> bool option" where
  "sib_right_is t n c = do { s \<leftarrow> sibling t n; ss \<leftarrow> deref t s; is_color t (nright ss) c }"

definition delete_case5 :: "'v rbtree \<Rightarrow> ptr \<Rightarrow> 'v rbtree option" where
  "delete_case5 t n = do {
     nn \<leftarrow> deref t n;
     p \<leftarrow> deref t (nparent nn);
     b \<leftarrow> c_and (Some (n = nleft p)) (c_and (sib_is t n BLACK)
            (c_and (sib_left_is t n RED) (sib_right_is t n BLACK)));
     if b then do {
       s \<leftarrow> sibling t n;
       t \<leftarrow> set_color t s RED;
       s \<leftarrow> sibling t n;
       ss \<leftarrow> deref t s;
       t \<leftarrow> set_color t (nleft ss) BLACK;
       s \<leftarrow> sibling t n;
       t \<leftarrow> rotate_right t s;
       delete_case6 t n }
     else do {
       b \<leftarrow> c_and (Some (n = nright p)) (c_and (sib_is t n BLACK)
              (c_and (sib_right_is t n RED) (sib_left_is t n BLACK)));
       if b then do {
         s \<leftarrow> sibling t n;
         t \<leftarrow> set_color t s RED;
         s \<leftarrow> sibling t n;
         ss \<leftarrow> deref t s;
         t \<leftarrow> set_color t (nright ss) BLACK;
         s \<leftarrow> sibling t n;
         t \<leftarrow> rotate_left t s;
         delete_case6 t n }
       else delete_case6 t n } }"

definition delete_case4 :: "'v rbtree \<Rightarrow> ptr \<Rightarrow> 'v rbtree option" where
  "delete_case4 t n = do {
     nn \<leftarrow> deref t n;
     b \<leftarrow> c_and (is_color t (nparent nn) RED) (c_and (sib_is t n BLACK)
            (c_and (sib_left_is t n BLACK) (sib_right_is t n BLACK)));
     if b then do {
       s \<leftarrow> sibling t n;
       t \<leftarrow> set_color t s RED;
       set_color t (nparent nn) BLACK }
     else delete_case5 t n }"

function delete_case1 :: "nat \<Rightarrow> 'v rbtree \<Rightarrow> ptr \<Rightarrow> 'v rbtree option"
  and delete_case2 :: "nat \<Rightarrow> 'v rbtree \<Rightarrow> ptr \<Rightarrow> 'v rbtree option"
  and delete_case3 :: "nat \<Rightarrow> 'v rbtree \<Rightarrow> ptr \<Rightarrow> 'v rbtree option"
where
  "delete_case1 fuel t n = do {
     nn \<leftarrow> deref t n;
     if nparent nn = NULL then Some t else delete_case2 fuel t n }"
| "delete_case2 fuel t n = do {
     s \<leftarrow> sibling t n;
     sc \<leftarrow> node_color t s;
     t \<leftarrow> (if sc = RED then do {
            nn \<leftarrow> deref t n;
            t \<leftarrow> set_color t (nparent nn) RED;
            s \<leftarrow> sibling t n;
            t \<leftarrow> set_color t s BLACK;
            p \<leftarrow> deref t (nparent nn);
            if n = nleft p then rotate_left t (nparent nn)
            else rotate_right t (nparent nn) }
          else Some t);
     delete_case3 fuel t n }"
| "delete_case3 0 t n = None"
| "delete_case3 (Suc fuel) t n = do {
     nn \<leftarrow> deref t n;
     b \<leftarrow> c_and (is_color t (nparent nn) BLACK) (c_and (sib_is t n BLACK)
            (c_and (sib_left_is t n BLACK) (sib_right_is t n BLACK)));
     if b then do {
       s \<leftarrow> sibling t n;
       t \<leftarrow> set_color t s RED;
       delete_case1 fuel t (nparent nn) }
     else delete_case4 t n }"
  by pat_completeness auto
termination
  by (relation "measure (\<lambda>x. case x of
        Inl (fuel, _) \<Rightarrow> 3 * fuel + 2
      | Inr (Inl (fuel, _)) \<Rightarrow> 3 * fuel + 1
      | Inr (Inr (fuel, _)) \<Rightarrow> 3 * fuel)") auto

declare insert_case1.simps [simp del] insert_case2.simps [simp del] insert_case3.simps [simp del]
declare delete_case1.simps [simp del] delete_case2.simps [simp del] delete_case3.simps [simp del]

text \<open>
  \<open>delete_unlink\<close> is the second half of \<open>rbtree_delete\<close>, from its assertion on: the node to
  unlink has at most one child.
\<close>

definition delete_unlink :: "'v rbtree \<Rightarrow> ptr \<Rightarrow> 'v rbtree option" where
  "delete_unlink t n = do {
     nn \<leftarrow> deref t n;
     c_assert (nleft nn = NULL \<or> nright nn = NULL);
     let child = (if nright nn = NULL then nleft nn else nright nn);
     c \<leftarrow> node_color t n;
     t \<leftarrow> (if c = BLACK then do {
            cc \<leftarrow> node_color t child;
            t \<leftarrow> set_color t n cc;
            delete_case1 (brk t) t n }
          else Some t);
     t \<leftarrow> replace_node t n child;
     nn \<leftarrow> deref t n;
     t \<leftarrow> (if nparent nn = NULL \<and> child \<noteq> NULL then set_color t child BLACK else Some t);
     Some (free_node t n) }"

definition rbtree_delete :: "'v rbtree \<Rightarrow> ULONG \<Rightarrow> 'v compare_func \<Rightarrow> 'v rbtree option" where
  "rbtree_delete t key compare = do {
     n \<leftarrow> lookup_node t key compare;
     if n = NULL then Some t
     else do {
       nn \<leftarrow> deref t n;
       (t, n) \<leftarrow> (if nleft nn \<noteq> NULL \<and> nright nn \<noteq> NULL then do {
                    pred \<leftarrow> maximum_node (brk t) t (nleft nn);
                    pp \<leftarrow> deref t pred;
                    t \<leftarrow> set_key t n (nkey pp);
                    t \<leftarrow> set_value t n (nvalue pp);
                    Some (t, pred) }
                  else Some (t, n));
       delete_unlink t n } }"

end
