(* ===== verification/Rbtree_Heap.thy ===== *)
theory Rbtree_Heap
  imports Rbtree
begin

text \<open>
  What a pointer tree represents. A tree with addresses (\<open>atree\<close>) and a zipper into it
  describe the heap completely; \<open>zip_at\<close> says that a heap is the one a zipper describes.
  The lemmas give, for each field access and each rotation of \<open>pvmobj/rbtree.cc\<close>, the
  zipper of the heap it leaves behind.
\<close>

section \<open>Trees with addresses and their zippers\<close>

datatype 'v atree =
    Lf
  | Nd ptr rbtree_node_color ULONG 'v "'v atree" "'v atree"

text \<open>
  A frame is the parent of the focus: the first component tells whether the focus is its left
  child, the last one is the other child.
\<close>

datatype 'v frame = Fr bool ptr rbtree_node_color ULONG 'v "'v atree"

definition mk ::
  "bool \<Rightarrow> ptr \<Rightarrow> rbtree_node_color \<Rightarrow> ULONG \<Rightarrow> 'v \<Rightarrow> 'v atree \<Rightarrow> 'v atree \<Rightarrow> 'v atree" where
  "mk d a c k v x y = (if d then Nd a c k v x y else Nd a c k v y x)"

fun plug :: "'v frame list \<Rightarrow> 'v atree \<Rightarrow> 'v atree" where
  "plug [] x = x"
| "plug (Fr d a c k v s # cs) x = plug cs (mk d a c k v x s)"

fun addr :: "'v atree \<Rightarrow> ptr" where
  "addr Lf = NULL"
| "addr (Nd a c k v l r) = a"

fun addrs :: "'v atree \<Rightarrow> ptr list" where
  "addrs Lf = []"
| "addrs (Nd a c k v l r) = a # addrs l @ addrs r"

fun caddr :: "'v frame list \<Rightarrow> ptr" where
  "caddr [] = NULL"
| "caddr (Fr d a c k v s # cs) = a"

fun caddrs :: "'v frame list \<Rightarrow> ptr list" where
  "caddrs [] = []"
| "caddrs (Fr d a c k v s # cs) = a # addrs s @ caddrs cs"

section \<open>The heap a zipper describes\<close>

fun tree_at :: "(ptr \<rightharpoonup> 'v rbtree_node) \<Rightarrow> ptr \<Rightarrow> 'v atree \<Rightarrow> bool" where
  "tree_at h pa Lf = True"
| "tree_at h pa (Nd a c k v l r) =
     (a \<noteq> NULL \<and>
      h a = Some \<lparr>nkey = k, nvalue = v, nleft = addr l, nright = addr r, nparent = pa, ncolor = c\<rparr> \<and>
      tree_at h a l \<and> tree_at h a r)"

fun ctx_at :: "(ptr \<rightharpoonup> 'v rbtree_node) \<Rightarrow> ptr \<Rightarrow> ptr \<Rightarrow> 'v frame list \<Rightarrow> bool" where
  "ctx_at h rt x [] = (rt = x)"
| "ctx_at h rt x (Fr d a c k v s # cs) =
     (a \<noteq> NULL \<and>
      h a = Some \<lparr>nkey = k, nvalue = v, nleft = (if d then x else addr s),
                  nright = (if d then addr s else x), nparent = caddr cs, ncolor = c\<rparr> \<and>
      tree_at h a s \<and> ctx_at h rt a cs)"

text \<open>
  The footprint: the addresses \<open>as\<close> of the zipper, all different, together with the nodes
  \<open>E\<close> that are allocated but not linked, are exactly the allocated nodes, all below the next
  address \<open>b\<close> that \<open>malloc\<close> hands out.
\<close>

definition foot :: "ptr \<Rightarrow> ptr set \<Rightarrow> 'v rbtree \<Rightarrow> ptr list \<Rightarrow> bool" where
  "foot b E t as \<longleftrightarrow>
     brk t = b \<and> distinct as \<and> dom (nodes t) = set as \<union> E \<and> E \<inter> set as = {} \<and>
     (\<forall>a \<in> dom (nodes t). 0 < a \<and> a < b)"

definition shape :: "'v rbtree \<Rightarrow> 'v frame list \<Rightarrow> 'v atree \<Rightarrow> bool" where
  "shape t cs x \<longleftrightarrow> tree_at (nodes t) (caddr cs) x \<and> ctx_at (nodes t) (root t) (addr x) cs"

definition zip_at ::
  "ptr \<Rightarrow> ptr set \<Rightarrow> 'v rbtree \<Rightarrow> 'v frame list \<Rightarrow> 'v atree \<Rightarrow> bool" where
  "zip_at b E t cs x \<longleftrightarrow> shape t cs x \<and> foot b E t (caddrs cs @ addrs x)"

definition yields :: "'v rbtree option \<Rightarrow> ptr \<Rightarrow> ptr set \<Rightarrow> 'v frame list \<Rightarrow> 'v atree \<Rightarrow> bool" where
  "yields m b E cs x \<longleftrightarrow> (\<exists>t. m = Some t \<and> zip_at b E t cs x)"

lemma foot_cong:
  assumes "mset as = mset as'" and "dom (nodes t) = dom (nodes t')" and "brk t = brk t'"
  shows "foot b E t as = foot b E t' as'"
  using assms mset_eq_setD [OF assms(1)] mset_eq_imp_distinct_iff [OF assms(1)]
  by (simp add: foot_def)

lemma zip_at_step:
  assumes "zip_at b E t cs x" and "m = Some t'"
    and "dom (nodes t') = dom (nodes t)" and "brk t' = brk t"
    and "mset (caddrs cs' @ addrs x') = mset (caddrs cs @ addrs x)"
    and "shape t' cs' x'"
  shows "yields m b E cs' x'"
  using assms foot_cong [OF assms(5,3,4)] by (simp add: yields_def zip_at_def)

lemma yieldsE [elim]:
  assumes "yields m b E cs x"
  obtains t where "m = Some t" and "zip_at b E t cs x"
  using assms by (auto simp: yields_def)

lemma yieldsI: "zip_at b E t cs x \<Longrightarrow> yields (Some t) b E cs x"
  by (auto simp: yields_def)

subsection \<open>Frame rules\<close>

lemma tree_at_upd [simp]: "p \<notin> set (addrs x) \<Longrightarrow> tree_at (h(p := n)) pa x = tree_at h pa x"
  by (induction x arbitrary: pa) auto

lemma ctx_at_upd [simp]: "p \<notin> set (caddrs cs) \<Longrightarrow> ctx_at (h(p := n)) rt y cs = ctx_at h rt y cs"
  by (induction cs arbitrary: y rule: caddrs.induct) auto

lemma addr_in_addrs: "addr x \<noteq> NULL \<Longrightarrow> addr x \<in> set (addrs x)"
  by (cases x) auto

lemma addr_NULL_iff: "tree_at h pa x \<Longrightarrow> addr x = NULL \<longleftrightarrow> x = Lf"
  by (cases x) auto

lemma caddr_in_caddrs: "cs \<noteq> [] \<Longrightarrow> caddr cs \<in> set (caddrs cs)"
  by (cases cs rule: caddrs.cases) auto

lemma caddr_NULL_iff: "ctx_at h rt y cs \<Longrightarrow> caddr cs = NULL \<longleftrightarrow> cs = []"
  by (cases cs rule: caddrs.cases) auto

subsection \<open>Moving the focus\<close>

lemma zip_up: "zip_at b E t (Fr d a c k v s # cs) x \<longleftrightarrow> zip_at b E t cs (mk d a c k v x s)"
proof -
  have "foot b E t (caddrs (Fr d a c k v s # cs) @ addrs x)
      = foot b E t (caddrs cs @ addrs (mk d a c k v x s))"
    by (rule foot_cong) (auto simp: mk_def)
  moreover have "shape t (Fr d a c k v s # cs) x = shape t cs (mk d a c k v x s)"
    by (cases d) (auto simp: shape_def mk_def)
  ultimately show ?thesis by (simp add: zip_at_def)
qed

lemma zip_swap:
  "zip_at b E t (Fr d a c k v s # cs) x \<longleftrightarrow> zip_at b E t (Fr (\<not> d) a c k v x # cs) s"
  by (cases d) (simp_all add: zip_up mk_def)

lemma zip_left: "zip_at b E t cs (Nd a c k v l r) \<longleftrightarrow> zip_at b E t (Fr True a c k v r # cs) l"
  by (simp add: zip_up mk_def)

lemma zip_right: "zip_at b E t cs (Nd a c k v l r) \<longleftrightarrow> zip_at b E t (Fr False a c k v l # cs) r"
  by (simp add: zip_up mk_def)

lemma zip_plug: "zip_at b E t cs x \<longleftrightarrow> zip_at b E t [] (plug cs x)"
  by (induction cs x rule: plug.induct) (simp_all add: zip_up)

subsection \<open>Reading fields\<close>

lemma deref_focus:
  "zip_at b E t cs (Nd a c k v l r) \<Longrightarrow>
     deref t a = Some \<lparr>nkey = k, nvalue = v, nleft = addr l, nright = addr r,
                       nparent = caddr cs, ncolor = c\<rparr>"
  by (simp add: zip_at_def shape_def deref_def)

lemma deref_frame:
  "zip_at b E t (Fr d a c k v s # cs) x \<Longrightarrow>
     deref t a = Some \<lparr>nkey = k, nvalue = v, nleft = (if d then addr x else addr s),
                       nright = (if d then addr s else addr x), nparent = caddr cs, ncolor = c\<rparr>"
  by (simp add: zip_at_def shape_def deref_def)

lemma deref_sibling:
  "zip_at b E t (Fr d a c k v (Nd z cz kz vz l r) # cs) x \<Longrightarrow>
     deref t z = Some \<lparr>nkey = kz, nvalue = vz, nleft = addr l, nright = addr r,
                       nparent = a, ncolor = cz\<rparr>"
  by (simp add: zip_at_def shape_def deref_def)

fun col :: "'v atree \<Rightarrow> rbtree_node_color" where
  "col Lf = BLACK"
| "col (Nd a c k v l r) = c"

lemma tree_at_node_color:
  "tree_at (nodes t) pa x \<Longrightarrow> node_color t (addr x) = Some (col x)"
  by (cases x) (simp_all add: node_color_def deref_def)

lemma color_focus: "zip_at b E t cs x \<Longrightarrow> node_color t (addr x) = Some (col x)"
  by (rule tree_at_node_color [of t "caddr cs"]) (simp add: zip_at_def shape_def)

lemma color_sibling:
  "zip_at b E t (Fr d a c k v s # cs) x \<Longrightarrow> node_color t (addr s) = Some (col s)"
  by (simp add: zip_swap [of b E t d] color_focus)

lemma color_frame:
  "zip_at b E t (Fr d a c k v s # cs) x \<Longrightarrow> node_color t a = Some c"
  by (simp add: zip_at_def shape_def node_color_def deref_def)

lemma color_child:
  "zip_at b E t cs (Nd a c k v l r) \<Longrightarrow>
     node_color t (addr l) = Some (col l) \<and> node_color t (addr r) = Some (col r)"
  using color_focus zip_left zip_right by metis

subsection \<open>Distinctness of the addresses in a zipper\<close>

lemma zip_distinct: "zip_at b E t cs x \<Longrightarrow> distinct (caddrs cs @ addrs x)"
  by (simp add: zip_at_def foot_def)

lemma zip_focus_ne_NULL: "zip_at b E t cs (Nd a c k v l r) \<Longrightarrow> a \<noteq> NULL"
  by (simp add: zip_at_def shape_def)

lemma zip_frame_ne:
  assumes "zip_at b E t (Fr d a c k v s # cs) (Nd n cn kn vn l r)"
  shows "a \<noteq> NULL" and "n \<noteq> a" and "addr s \<noteq> n" and "addr s \<noteq> a"
proof -
  show a: "a \<noteq> NULL" using assms by (simp add: zip_at_def shape_def)
  have n: "n \<noteq> NULL" using assms by (rule zip_focus_ne_NULL)
  have "n \<noteq> a \<and> a \<notin> set (addrs s) \<and> n \<notin> set (addrs s)"
    using zip_distinct [OF assms] by auto
  with a n addr_in_addrs [of s] show "n \<noteq> a" "addr s \<noteq> n" "addr s \<noteq> a" by metis+
qed

subsection \<open>Writing fields\<close>

lemma upd_node_eq:
  "deref t p = Some n \<Longrightarrow> upd_node t p f = Some (t\<lparr>nodes := (nodes t)(p \<mapsto> f n)\<rparr>)"
  by (simp add: upd_node_def)

lemma dom_upd: "deref t p = Some n \<Longrightarrow> dom ((nodes t)(p \<mapsto> n')) = dom (nodes t)"
  by (auto simp: deref_def split: if_splits)

lemma upd_focus:
  assumes z: "zip_at b E t cs (Nd a c k v l r)"
    and f: "f \<lparr>nkey = k, nvalue = v, nleft = addr l, nright = addr r, nparent = caddr cs, ncolor = c\<rparr>
       = \<lparr>nkey = k', nvalue = v', nleft = addr l, nright = addr r, nparent = caddr cs, ncolor = c'\<rparr>"
  shows "yields (upd_node t a f) b E cs (Nd a c' k' v' l r)"
proof (rule zip_at_step [OF z upd_node_eq [OF deref_focus [OF z]]])
  show "shape (t\<lparr>nodes := (nodes t)(a \<mapsto> f \<lparr>nkey = k, nvalue = v, nleft = addr l,
          nright = addr r, nparent = caddr cs, ncolor = c\<rparr>)\<rparr>) cs (Nd a c' k' v' l r)"
    using z zip_distinct [OF z] by (simp add: zip_at_def shape_def f)
qed (simp_all add: dom_upd [OF deref_focus [OF z], simplified])

lemma set_color_focus:
  "zip_at b E t cs (Nd a c k v l r) \<Longrightarrow> yields (set_color t a c') b E cs (Nd a c' k v l r)"
  unfolding set_color_def by (erule upd_focus) simp

lemma set_value_focus:
  "zip_at b E t cs (Nd a c k v l r) \<Longrightarrow> yields (set_value t a v') b E cs (Nd a c k v' l r)"
  unfolding set_value_def by (erule upd_focus) simp

lemma set_key_focus:
  "zip_at b E t cs (Nd a c k v l r) \<Longrightarrow> yields (set_key t a k') b E cs (Nd a c k' v l r)"
  unfolding set_key_def by (erule upd_focus) simp

lemma set_color_frame:
  "zip_at b E t (Fr d a c k v s # cs) x \<Longrightarrow>
     yields (set_color t a c') b E (Fr d a c' k v s # cs) x"
  by (cases d) (auto simp: zip_up mk_def yields_def dest!: set_color_focus)

lemma set_color_frame2:
  "zip_at b E t (f # Fr d a c k v s # cs) x \<Longrightarrow>
     yields (set_color t a c') b E (f # Fr d a c' k v s # cs) x"
  by (cases f, cases d) (auto simp: zip_up mk_def yields_def dest!: set_color_focus)

lemma set_color_sibling:
  "zip_at b E t (Fr d a c k v (Nd z cz kz vz l r) # cs) x \<Longrightarrow>
     yields (set_color t z c') b E (Fr d a c k v (Nd z c' kz vz l r) # cs) x"
  using set_color_focus [of b E t "Fr (\<not> d) a c k v x # cs" z cz kz vz l r c']
  by (simp add: yields_def zip_swap [of b E _ d])

lemma set_color_uncle:
  "zip_at b E t (Fr d a c k v s # Fr e g cg kg vg (Nd z cz kz vz l r) # cs) x \<Longrightarrow>
     yields (set_color t z c') b E (Fr d a c k v s # Fr e g cg kg vg (Nd z c' kz vz l r) # cs) x"
  using set_color_sibling [of b E t e g cg kg vg z cz kz vz l r cs "mk d a c k v x s" c']
  by (simp add: yields_def zip_up [of b E _ d])

lemma set_color_nephew:
  "zip_at b E t (Fr d a c k v (mk e z cz kz vz (Nd y cy ky vy l r) w) # cs) x \<Longrightarrow>
     yields (set_color t y c') b E (Fr d a c k v (mk e z cz kz vz (Nd y c' ky vy l r) w) # cs) x"
  using set_color_focus
    [of b E t "Fr e z cz kz vz w # Fr (\<not> d) a c k v x # cs" y cy ky vy l r c']
  by (simp add: yields_def zip_swap [of b E _ d] zip_up [of b E _ e])

section \<open>Rotations, unlinking and relatives\<close>

lemmas field_defs = deref_def upd_node_def set_left_def set_right_def set_parent_def

lemma zip_at_stepE:
  assumes "zip_at b E t cs x"
    and "\<exists>t'. m = Some t' \<and> dom (nodes t') = dom (nodes t) \<and> brk t' = brk t \<and> shape t' cs' x'"
    and "mset (caddrs cs' @ addrs x') = mset (caddrs cs @ addrs x)"
  shows "yields m b E cs' x'"
  using assms zip_at_step by blast

lemma insert_dom: "nodes t p = Some q \<Longrightarrow> insert p (dom (nodes t)) = dom (nodes t)"
  by auto

lemma rotate_left_focus:
  assumes z: "zip_at b E t cs (Nd n c k v A (Nd r c' k' v' B C))"
  shows "yields (rotate_left t n) b E cs (Nd r c' k' v' (Nd n c k v A B) C)"
proof (rule zip_at_stepE [OF z])
  note facts = zip_distinct [OF z] z [unfolded zip_at_def, THEN conjunct1]
  show "\<exists>t'. rotate_left t n = Some t' \<and> dom (nodes t') = dom (nodes t) \<and> brk t' = brk t \<and>
          shape t' cs (Nd r c' k' v' (Nd n c k v A B) C)"
  proof (cases cs rule: caddrs.cases)
    case 1
    show ?thesis using facts 1
      by (cases B)
        (simp_all add: rotate_left_def replace_node_def field_defs shape_def insert_dom)
  next
    case (2 d a ca ka va s cs')
    have "addr s \<noteq> n"
      using z unfolding 2 by (rule zip_frame_ne)
    then show ?thesis using facts 2
      by (cases B; cases d)
        (simp_all add: rotate_left_def replace_node_def field_defs shape_def insert_dom)
  qed
qed simp

lemma rotate_right_focus:
  assumes z: "zip_at b E t cs (Nd n c k v (Nd r c' k' v' A B) C)"
  shows "yields (rotate_right t n) b E cs (Nd r c' k' v' A (Nd n c k v B C))"
proof (rule zip_at_stepE [OF z])
  note facts = zip_distinct [OF z] z [unfolded zip_at_def, THEN conjunct1]
  show "\<exists>t'. rotate_right t n = Some t' \<and> dom (nodes t') = dom (nodes t) \<and> brk t' = brk t \<and>
          shape t' cs (Nd r c' k' v' A (Nd n c k v B C))"
  proof (cases cs rule: caddrs.cases)
    case 1
    show ?thesis using facts 1
      by (cases B)
        (simp_all add: rotate_right_def replace_node_def field_defs shape_def insert_dom)
  next
    case (2 d a ca ka va s cs')
    have "addr s \<noteq> n"
      using z unfolding 2 by (rule zip_frame_ne)
    then show ?thesis using facts 2
      by (cases B; cases d)
        (simp_all add: rotate_right_def replace_node_def field_defs shape_def insert_dom)
  qed
qed simp

text \<open>Both rotations at once: the rotation that lifts the child on the side away from \<open>d\<close>.\<close>

definition rot :: "bool \<Rightarrow> 'v rbtree \<Rightarrow> ptr \<Rightarrow> 'v rbtree option" where
  "rot d t n = (if d then rotate_left t n else rotate_right t n)"

lemma rot_focus:
  assumes "zip_at b E t cs (mk d n c k v A (mk d r c' k' v' B C))"
  shows "yields (rot d t n) b E cs (mk d r c' k' v' (mk d n c k v A B) C)"
  using assms rotate_left_focus rotate_right_focus by (cases d) (auto simp: rot_def mk_def)

text \<open>Unlinking a node with at most one child keeps it allocated, outside of the tree.\<close>

lemma replace_node_focus:
  assumes z: "zip_at b E t cs (Nd n c k v l r)" and x: "l = Lf \<and> x = r \<or> r = Lf \<and> x = l"
  shows "\<exists>t' nn. replace_node t n (addr x) = Some t' \<and> zip_at b (insert n E) t' cs x \<and>
           deref t' n = Some nn \<and> nparent nn = caddr cs"
proof -
  note facts = zip_distinct [OF z] z [unfolded zip_at_def, THEN conjunct1]
  have "\<exists>t' nn. replace_node t n (addr x) = Some t' \<and> dom (nodes t') = dom (nodes t) \<and>
          brk t' = brk t \<and> shape t' cs x \<and> deref t' n = Some nn \<and> nparent nn = caddr cs"
  proof (cases cs rule: caddrs.cases)
    case 1
    show ?thesis using facts 1 x
      by (cases x) (auto simp add: replace_node_def field_defs shape_def insert_dom)
  next
    case (2 d a ca ka va s cs')
    have "addr s \<noteq> n"
      using z unfolding 2 by (rule zip_frame_ne)
    then show ?thesis using facts 2 x
      by (cases x; cases d)
        (auto simp add: replace_node_def field_defs shape_def insert_dom)
  qed
  then obtain t' nn where t': "replace_node t n (addr x) = Some t'" "dom (nodes t') = dom (nodes t)"
    "brk t' = brk t" "shape t' cs x" "deref t' n = Some nn" "nparent nn = caddr cs" by blast
  have "mset (caddrs cs @ addrs (Nd n c k v l r)) = mset (n # caddrs cs @ addrs x)"
    using x by auto
  then have "foot b E t' (n # caddrs cs @ addrs x)"
    using z foot_cong t'(2,3) unfolding zip_at_def by metis
  then have "foot b (insert n E) t' (caddrs cs @ addrs x)"
    by (auto simp: foot_def)
  with t' show ?thesis by (auto simp: zip_at_def)
qed

lemma free_node_focus:
  assumes "zip_at b (insert n E) t cs x" and "n \<notin> E"
  shows "zip_at b E (free_node t n) cs x"
proof -
  have n: "n \<notin> set (addrs x)" "n \<notin> set (caddrs cs)"
    using assms by (auto simp: zip_at_def foot_def)
  show ?thesis using assms n
    by (auto simp: zip_at_def shape_def free_node_def foot_def)
qed

subsection \<open>Relatives\<close>

lemma sibling_eq:
  assumes z: "zip_at b E t (Fr d a c k v s # cs) (Nd n cn kn vn l r)"
  shows "sibling t n = Some (addr s)"
  using deref_focus [OF z] deref_frame [OF z] zip_frame_ne [OF z] zip_focus_ne_NULL [OF z]
  by (cases d) (auto simp: sibling_def)

lemma grandparent_eq:
  assumes z: "zip_at b E t (Fr d a c k v s # Fr e g cg kg vg u # cs) (Nd n cn kn vn l r)"
  shows "grandparent t n = Some g"
proof -
  have "g \<noteq> NULL" using z by (simp add: zip_at_def shape_def)
  then show ?thesis
    using deref_focus [OF z] deref_frame [OF z] zip_frame_ne [OF z] zip_focus_ne_NULL [OF z]
    by (auto simp: grandparent_def)
qed

lemma uncle_eq:
  assumes z: "zip_at b E t (Fr d a c k v s # Fr e g cg kg vg u # cs) (Nd n cn kn vn l r)"
  shows "uncle t n = Some (addr u)"
proof -
  have "g \<noteq> NULL" using z by (simp add: zip_at_def shape_def)
  moreover have "sibling t a = Some (addr u)"
    using sibling_eq [of b E t e g cg kg vg u cs a c k v] z [unfolded zip_up [of b E t d]]
    by (cases d) (auto simp: mk_def)
  ultimately show ?thesis
    using deref_focus [OF z] deref_frame [OF z] zip_frame_ne [OF z] zip_focus_ne_NULL [OF z]
    by (auto simp: uncle_def)
qed

end
