(* ===== verification/Rbtree_Insert.thy ===== *)
theory Rbtree_Insert
  imports Rbtree_Heap
begin

text \<open>
  Correctness of the pointer tree: the red-black invariant and the in-order contents of the
  tree that \<open>rbtree_lookup\<close>, \<open>rbtree_insert\<close> and \<open>rbtree_delete\<close> read and write.
\<close>

section \<open>Contents and balance\<close>

fun ino :: "'v atree \<Rightarrow> (ULONG \<times> 'v) list" where
  "ino Lf = []"
| "ino (Nd a c k v l r) = ino l @ (k, v) # ino r"

fun cl :: "'v frame list \<Rightarrow> (ULONG \<times> 'v) list" where
  "cl [] = []"
| "cl (Fr d a c k v s # cs) = cl cs @ (if d then [] else ino s @ [(k, v)])"

fun cr :: "'v frame list \<Rightarrow> (ULONG \<times> 'v) list" where
  "cr [] = []"
| "cr (Fr d a c k v s # cs) = (if d then (k, v) # ino s else []) @ cr cs"

lemma ino_mk: "ino (mk d a c k v x y) = (if d then ino x @ (k, v) # ino y else ino y @ (k, v) # ino x)"
  by (simp add: mk_def)

lemma ino_plug: "ino (plug cs x) = cl cs @ ino x @ cr cs"
  by (induction cs x rule: plug.induct) (simp_all add: ino_mk)

text \<open>\<open>rbt_ok h x\<close>: no red node has a red child and every path of \<open>x\<close> passes \<open>h\<close> black nodes.\<close>

fun rbt_ok :: "nat \<Rightarrow> 'v atree \<Rightarrow> bool" where
  "rbt_ok h Lf = (h = 0)"
| "rbt_ok h (Nd a RED k v l r) = (col l = BLACK \<and> col r = BLACK \<and> rbt_ok h l \<and> rbt_ok h r)"
| "rbt_ok h (Nd a BLACK k v l r) =
     (case h of 0 \<Rightarrow> False | Suc h' \<Rightarrow> rbt_ok h' l \<and> rbt_ok h' r)"

text \<open>
  \<open>ctx_ok cs c h\<close>: plugging a tree of colour \<open>c\<close> and black height \<open>h\<close> gives a red-black
  tree with a black root.
\<close>

fun ctx_ok :: "'v frame list \<Rightarrow> rbtree_node_color \<Rightarrow> nat \<Rightarrow> bool" where
  "ctx_ok [] c h = (c = BLACK)"
| "ctx_ok (Fr d a RED k v s # cs) c h =
     (c = BLACK \<and> col s = BLACK \<and> rbt_ok h s \<and> ctx_ok cs RED h)"
| "ctx_ok (Fr d a BLACK k v s # cs) c h = (rbt_ok h s \<and> ctx_ok cs BLACK (Suc h))"

definition rb :: "'v atree \<Rightarrow> bool" where
  "rb x \<longleftrightarrow> (\<exists>h. rbt_ok h x) \<and> col x = BLACK"

lemma col_mk [simp]: "col (mk d a c k v x y) = c"
  by (simp add: mk_def)

lemma rbt_ok_mk [simp]: "rbt_ok h (mk d a c k v x y) = rbt_ok h (Nd a c k v x y)"
  by (cases c) (auto simp: mk_def split: nat.splits)

lemma addr_mk [simp]: "addr (mk d a c k v x y) = a"
  by (simp add: mk_def)

lemma mk_True [simp]: "mk True a c k v x y = Nd a c k v x y"
  by (simp add: mk_def)

lemma mk_False [simp]: "mk False a c k v x y = Nd a c k v y x"
  by (simp add: mk_def)

lemma color_not_BLACK [simp]: "c \<noteq> BLACK \<longleftrightarrow> c = RED"
  by (cases c) simp_all

lemma Nd_mk: obtains x1 x2 where "Nd n c k v l r = mk d n c k v x1 x2"
  by (cases d) (auto simp: mk_def)

lemma col_RED_mkE:
  assumes "col x = RED"
  obtains n k v l r where "x = mk d n RED k v l r"
  using assms that by (cases x; cases d) (auto simp: mk_def)

lemma rbt_ok_Suc_mkE:
  assumes "rbt_ok (Suc h) x" and "col x = BLACK"
  obtains n k v l r where "x = mk d n BLACK k v l r" and "rbt_ok h l" and "rbt_ok h r"
proof -
  obtain n k v l r where x: "x = Nd n BLACK k v l r"
    using assms by (cases x) auto
  with assms that show thesis by (cases d) (auto simp: mk_def)
qed

lemma plug_ok: "rbt_ok h x \<Longrightarrow> ctx_ok cs (col x) h \<Longrightarrow> rb (plug cs x)"
proof (induction cs x arbitrary: h rule: plug.induct)
  case (1 x)
  then show ?case by (auto simp: rb_def)
next
  case (2 d a c k v s cs x)
  show ?case
    using "2.prems" "2.IH" [of h] "2.IH" [of "Suc h"] by (cases c) auto
qed

lemma plug_okD: "rb (plug cs x) \<Longrightarrow> \<exists>h. rbt_ok h x \<and> ctx_ok cs (col x) h"
proof (induction cs x rule: plug.induct)
  case (1 x)
  then show ?case by (auto simp: rb_def)
next
  case (2 d a c k v s cs x)
  from "2.prems" obtain h where "rbt_ok h (mk d a c k v x s)" "ctx_ok cs c h"
    using "2.IH" by auto
  then show ?case by (cases c) (auto split: nat.splits)
qed

lemma ctx_ok_BLACK: "ctx_ok cs c h \<Longrightarrow> ctx_ok cs BLACK h"
  by (induction cs c h rule: ctx_ok.induct) auto

lemma ctx_ok_REDE:
  assumes "ctx_ok cs RED h"
  obtains e g k v u cs' where "cs = Fr e g BLACK k v u # cs'"
proof (cases cs rule: caddrs.cases)
  case (2 e g c k v u cs')
  then show ?thesis using assms that by (cases c) auto
qed (use assms in simp)

lemma ctx_ok_BLACKE:
  assumes "ctx_ok cs BLACK h"
  obtains (root) "cs = []"
    | (black) d p k v s cs' where "cs = Fr d p BLACK k v s # cs'"
    | (red) d p k v s e g kg vg u cs' where "cs = Fr d p RED k v s # Fr e g BLACK kg vg u # cs'"
proof (cases cs rule: caddrs.cases)
  case (2 d p c k v s cs1)
  show ?thesis
  proof (cases c)
    case RED
    then have "ctx_ok cs1 RED h" using assms 2 by simp
    then show ?thesis using red 2 RED by (auto elim: ctx_ok_REDE)
  qed (use black 2 in blast)
qed (use root in simp)

section \<open>Insertion\<close>

lemma insert_case5_ok:
  assumes z: "zip_at b E t (Fr e p cp kp vp s # Fr e g cg kg vg u # cs) (Nd n cn kn vn l r)"
  shows "yields (insert_case5 t n) b E cs
           (mk e p BLACK kp vp (Nd n cn kn vn l r) (mk e g RED kg vg s u))"
proof -
  note ne = zip_frame_ne [OF z]
  obtain t1 where t1: "set_color t p BLACK = Some t1"
    and z1: "zip_at b E t1 (Fr e p BLACK kp vp s # Fr e g cg kg vg u # cs) (Nd n cn kn vn l r)"
    using set_color_frame [OF z] by (rule yieldsE)
  obtain t2 where t2: "set_color t1 g RED = Some t2"
    and z2: "zip_at b E t2 (Fr e p BLACK kp vp s # Fr e g RED kg vg u # cs) (Nd n cn kn vn l r)"
    using set_color_frame2 [OF z1] by (rule yieldsE)
  have z3: "zip_at b E t2 (Fr e g RED kg vg u # cs) (mk e p BLACK kp vp (Nd n cn kn vn l r) s)"
    using z2 by (simp only: zip_up [of b E t2 e p])
  then have g: "deref t2 g = Some \<lparr>nkey = kg, nvalue = vg, nleft = (if e then p else addr u),
      nright = (if e then addr u else p), nparent = caddr cs, ncolor = RED\<rparr>"
    using deref_frame [OF z3] by simp
  have pu: "addr u \<noteq> p" using z3 by (cases e) (auto dest: zip_frame_ne(3))
  have "yields (rot (\<not> e) t2 g) b E cs
      (mk (\<not> e) p BLACK kp vp (mk (\<not> e) g RED kg vg u s) (Nd n cn kn vn l r))"
    using z3 by (intro rot_focus) (cases e; simp add: zip_up)
  then show ?thesis
    using ne pu by (cases e)
      (simp_all add: insert_case5_def rot_def t1 t2 g deref_focus [OF z] deref_focus [OF z2]
        deref_frame [OF z2] grandparent_eq [OF z1] grandparent_eq [OF z2])
qed

lemma insert_case4_outer:
  assumes z: "zip_at b E t (Fr e p cp kp vp s # Fr e g cg kg vg u # cs) (Nd n cn kn vn l r)"
  shows "insert_case4 t n = insert_case5 t n"
proof -
  have z3: "zip_at b E t (Fr e g cg kg vg u # cs) (mk e p cp kp vp (Nd n cn kn vn l r) s)"
    using z by (simp only: zip_up [of b E t e p])
  have pu: "addr u \<noteq> p" using z3 by (cases e) (auto dest: zip_frame_ne(3))
  show ?thesis
    using zip_frame_ne [OF z] pu by (cases e)
      (simp_all add: insert_case4_def deref_focus [OF z] deref_frame [OF z] grandparent_eq [OF z]
        deref_frame [OF z3])
qed

lemma insert_case4_inner:
  assumes z: "zip_at b E t (Fr (\<not> e) p cp kp vp s # Fr e g cg kg vg u # cs)
      (mk e n cn kn vn x y)"
  shows "yields (insert_case4 t n) b E cs
           (mk e n BLACK kn vn (mk e p cp kp vp s x) (mk e g RED kg vg y u))"
proof -
  obtain l r where lr: "mk e n cn kn vn x y = Nd n cn kn vn l r" by (cases e) auto
  note z' = z [unfolded lr]
  have z3: "zip_at b E t (Fr e g cg kg vg u # cs) (mk e p cp kp vp s (mk e n cn kn vn x y))"
    using z by (cases e) (simp_all add: zip_up [of b E t _ p])
  have pu: "addr u \<noteq> p" using z3 by (cases e) (auto dest: zip_frame_ne(3))
  obtain t1 where t1: "rot e t p = Some t1"
    and z1: "zip_at b E t1 (Fr e g cg kg vg u # cs) (mk e n cn kn vn (mk e p cp kp vp s x) y)"
    using rot_focus [OF z3] by (rule yieldsE)
  have z2: "zip_at b E t1 (Fr e n cn kn vn y # Fr e g cg kg vg u # cs) (mk e p cp kp vp s x)"
    using z1 by (simp add: zip_up [of b E t1 e n])
  have "yields (insert_case5 t1 p) b E cs
      (mk e n BLACK kn vn (mk e p cp kp vp s x) (mk e g RED kg vg y u))"
    using insert_case5_ok [of b E t1 e n cn kn vn y g cg kg vg u cs p cp kp vp] z2
    by (cases e) auto
  then show ?thesis
    using zip_frame_ne [OF z'] pu t1 deref_frame [OF z2] by (cases e)
      (simp_all add: insert_case4_def rot_def deref_focus [OF z'] deref_frame [OF z']
        grandparent_eq [OF z'] deref_frame [OF z3])
qed

lemma insert_case3_red_uncle:
  assumes z: "zip_at b E t (Fr d p cp kp vp s # Fr e g cg kg vg (Nd w RED kw vw wl wr) # cs)
      (Nd n cn kn vn l r)"
  shows "\<exists>t'. insert_case3 (Suc fuel) t n = insert_case1 fuel t' g \<and>
           zip_at b E t' cs (mk e g RED kg vg (mk d p BLACK kp vp (Nd n cn kn vn l r) s)
             (Nd w BLACK kw vw wl wr))"
proof -
  obtain t1 where t1: "set_color t p BLACK = Some t1"
    and z1: "zip_at b E t1 (Fr d p BLACK kp vp s # Fr e g cg kg vg (Nd w RED kw vw wl wr) # cs)
      (Nd n cn kn vn l r)"
    using set_color_frame [OF z] by (rule yieldsE)
  obtain t2 where t2: "set_color t1 w BLACK = Some t2"
    and z2: "zip_at b E t2 (Fr d p BLACK kp vp s # Fr e g cg kg vg (Nd w BLACK kw vw wl wr) # cs)
      (Nd n cn kn vn l r)"
    using set_color_uncle [OF z1] by (rule yieldsE)
  obtain t3 where t3: "set_color t2 g RED = Some t3"
    and z3: "zip_at b E t3 (Fr d p BLACK kp vp s # Fr e g RED kg vg (Nd w BLACK kw vw wl wr) # cs)
      (Nd n cn kn vn l r)"
    using set_color_frame2 [OF z2] by (rule yieldsE)
  have "node_color t w = Some RED"
    using color_sibling [of b E t e g cg kg vg "Nd w RED kw vw wl wr" cs] z
    by (simp add: zip_up [of b E t d p])
  then have "insert_case3 (Suc fuel) t n = insert_case1 fuel t3 g"
    by (simp add: insert_case3.simps uncle_eq [OF z] uncle_eq [OF z1] grandparent_eq [OF z2]
        grandparent_eq [OF z3] deref_focus [OF z] t1 t2 t3)
  with z3 show ?thesis by (auto simp: zip_up)
qed

lemma insert_case1_root:
  assumes z: "zip_at b E t [] (Nd n RED k v l r)" and "rbt_ok h (Nd n RED k v l r)"
  shows "yields (insert_case1 fuel t n) b E [] (Nd n BLACK k v l r) \<and> rb (Nd n BLACK k v l r)"
proof
  show "yields (insert_case1 fuel t n) b E [] (Nd n BLACK k v l r)"
    using set_color_focus [OF z] deref_focus [OF z] by (simp add: insert_case1.simps)
  have "rbt_ok (Suc h) (Nd n BLACK k v l r)"
    using assms(2) by simp
  then show "rb (Nd n BLACK k v l r)"
    unfolding rb_def by (intro conjI exI) (assumption, simp)
qed

lemma insert_case1_black_parent:
  assumes z: "zip_at b E t (Fr d p BLACK kp vp s # cs) (Nd n RED k v l r)"
  shows "insert_case1 fuel t n = Some t"
  using deref_focus [OF z] zip_frame_ne [OF z] color_frame [OF z]
  by (simp add: insert_case1.simps insert_case2.simps)

lemma insert_case1_red_parent:
  assumes z: "zip_at b E t (Fr d p RED kp vp s # cs) (Nd n RED k v l r)"
  shows "insert_case1 fuel t n = insert_case3 fuel t n"
  using deref_focus [OF z] zip_frame_ne [OF z] color_frame [OF z]
  by (simp add: insert_case1.simps insert_case2.simps)

text \<open>The rotations of \<open>insert_case4\<close> and \<open>insert_case5\<close> end the repair.\<close>

lemma insert_case4_ok:
  assumes z: "zip_at b E t (Fr d p RED kp vp s # Fr e g BLACK kg vg u # cs) (Nd n RED k v l r)"
    and ok: "rbt_ok h (Nd n RED k v l r)" "rbt_ok h s" "col s = BLACK" "rbt_ok h u" "col u = BLACK"
      "ctx_ok cs BLACK (Suc h)"
  shows "\<exists>x. yields (insert_case4 t n) b E [] x \<and> rb x \<and>
           ino x = ino (plug (Fr d p RED kp vp s # Fr e g BLACK kg vg u # cs) (Nd n RED k v l r))"
proof (cases "d = e")
  case True
  let ?y = "mk e p BLACK kp vp (Nd n RED k v l r) (mk e g RED kg vg s u)"
  have "yields (insert_case4 t n) b E cs ?y"
    using z insert_case4_outer insert_case5_ok unfolding True by metis
  then show ?thesis
    using ok plug_ok [of "Suc h" ?y cs]
    by (auto simp: True yields_def zip_plug [of b E _ cs] ino_plug ino_mk)
next
  case False
  then have d: "d = (\<not> e)" by auto
  obtain x y where xy: "Nd n RED k v l r = mk e n RED k v x y"
    by (rule Nd_mk)
  let ?y = "mk e n BLACK k v (mk e p RED kp vp s x) (mk e g RED kg vg y u)"
  have "yields (insert_case4 t n) b E cs ?y"
    using insert_case4_inner z unfolding d xy by metis
  then show ?thesis
    using ok plug_ok [of "Suc h" ?y cs]
    by (auto simp: d xy yields_def zip_plug [of b E _ cs] ino_plug ino_mk)
qed

lemma insert_case1_ok:
  assumes "zip_at b E t cs (Nd n RED k v l r)" and "rbt_ok h (Nd n RED k v l r)"
    and "ctx_ok cs BLACK h" and "length cs \<le> 2 * fuel + 1"
  shows "\<exists>x. yields (insert_case1 fuel t n) b E [] x \<and> rb x \<and>
           ino x = ino (plug cs (Nd n RED k v l r))"
  using assms
proof (induction "length cs" arbitrary: fuel t cs n k v l r h rule: less_induct)
  case less
  note z = less.prems(1) and okn = less.prems(2) and okc = less.prems(3)
  from okc show ?case
  proof (cases rule: ctx_ok_BLACKE)
    case root
    then show ?thesis using insert_case1_root [OF z [unfolded root] okn, of fuel] by auto
  next
    case (black d p kp vp s cs1)
    then have "rb (plug cs (Nd n RED k v l r))"
      using okn okc by (intro plug_ok [of h]) simp_all
    then show ?thesis
      using z insert_case1_black_parent [OF z [unfolded black]]
      by (auto simp: yields_def zip_plug [of b E t cs])
  next
    case (red d p kp vp s e g kg vg u cs2)
    note z = z [unfolded red]
    have ok: "rbt_ok h u" "rbt_ok h s" "col s = BLACK" "ctx_ok cs2 BLACK (Suc h)"
      using okc by (auto simp: red)
    obtain fuel' where fuel: "fuel = Suc fuel'"
      using less.prems(4) by (cases fuel) (auto simp: red)
    note eq = insert_case1_red_parent [OF z, of fuel]
    show ?thesis
    proof (cases "col u")
      case RED
      then obtain w kw vw wl wr where u: "u = Nd w RED kw vw wl wr" by (cases u) auto
      let ?x = "mk e g RED kg vg (mk d p BLACK kp vp (Nd n RED k v l r) s) (Nd w BLACK kw vw wl wr)"
      obtain t' where t': "insert_case3 fuel t n = insert_case1 fuel' t' g"
        and z': "zip_at b E t' cs2 ?x"
        using insert_case3_red_uncle [OF z [unfolded u]] unfolding fuel by blast
      obtain l' r' where x: "?x = Nd g RED kg vg l' r'" by (cases e) auto
      have "rbt_ok (Suc h) ?x" using okn ok by (simp add: u)
      then obtain x where "yields (insert_case1 fuel' t' g) b E [] x" "rb x"
        "ino x = ino (plug cs2 ?x)"
        using less.hyps [of cs2 t' g kg vg l' r' "Suc h" fuel'] z' ok(4) less.prems(4)
        unfolding x by (auto simp: red fuel)
      then show ?thesis using eq t' by (auto simp: red u ino_plug ino_mk)
    next
      case BLACK
      have "insert_case3 fuel t n = insert_case4 t n"
        using uncle_eq [OF z] BLACK z
          color_sibling [of b E t e g BLACK kg vg u cs2 "mk d p RED kp vp (Nd n RED k v l r) s"]
        by (simp add: fuel insert_case3.simps zip_up [of b E t d p])
      then show ?thesis
        using insert_case4_ok [OF z okn ok(2,3,1) BLACK ok(4)] eq by (simp add: red)
    qed
  qed
qed

end
