(* ===== verification/Rbtree_Delete.thy ===== *)
theory Rbtree_Delete
  imports Rbtree_Insert
begin

text \<open>
  The repair after a deletion in \<open>pvmobj/rbtree.cc\<close>. The focus is the node \<open>n\<close> that will be
  unlinked; the functions \<open>delete_case1\<close> to \<open>delete_case6\<close> change its context only, so the
  statements are about contexts: the context wanted a black subtree of black height \<open>Suc h\<close>,
  and afterwards accepts a subtree of any colour of black height \<open>h\<close>.
\<close>

section \<open>The sibling in either orientation\<close>

lemma set_color_sibling_mk:
  "zip_at b E t (Fr d a c k v (mk e z cz kz vz x y) # cs) f \<Longrightarrow>
     yields (set_color t z c') b E (Fr d a c k v (mk e z c' kz vz x y) # cs) f"
  by (cases e) (simp_all add: set_color_sibling)

lemma set_color_nephew_near:
  "zip_at b E t (Fr d a c k v (mk e z cz kz vz (mk g y cy ky vy l r) w) # cs) x \<Longrightarrow>
     yields (set_color t y c') b E (Fr d a c k v (mk e z cz kz vz (mk g y c' ky vy l r) w) # cs) x"
  by (cases g) (simp_all add: set_color_nephew)

lemma set_color_nephew_far:
  "zip_at b E t (Fr d a c k v (mk e z cz kz vz w (mk g y cy ky vy l r)) # cs) x \<Longrightarrow>
     yields (set_color t y c') b E (Fr d a c k v (mk e z cz kz vz w (mk g y c' ky vy l r)) # cs) x"
  using set_color_nephew_near [of b E t d a c k v "\<not> e" z cz kz vz g y cy ky vy l r w cs x c']
  by (cases e) simp_all

lemma deref_sibling_mk:
  "zip_at b E t (Fr d a c k v (mk e z cz kz vz x y) # cs) f \<Longrightarrow>
     deref t z = Some \<lparr>nkey = kz, nvalue = vz, nleft = (if e then addr x else addr y),
                       nright = (if e then addr y else addr x), nparent = a, ncolor = cz\<rparr>"
  by (cases e) (simp_all add: deref_sibling)

lemma color_nephews:
  assumes "zip_at b E t (Fr d a c k v (mk e z cz kz vz x y) # cs) f"
  shows "node_color t (addr x) = Some (col x)" and "node_color t (addr y) = Some (col y)"
    and "node_color t z = Some cz"
  using assms color_child [of b E t "Fr (\<not> d) a c k v f # cs" z cz kz vz]
    color_sibling [OF assms]
  by (cases e; simp add: zip_swap [of b E t d])+

lemma relatives_color:
  assumes z: "zip_at b E t (Fr d p cp kp vp (mk d q cq kq vq s1 s2) # cs) (Nd n cn kn vn l r)"
  shows "sib_is t n c = Some (cq = c)"
    and "sib_left_is t n c = Some (col (if d then s1 else s2) = c)"
    and "sib_right_is t n c = Some (col (if d then s2 else s1) = c)"
    and "is_color t p c = Some (cp = c)"
  using color_nephews [OF z] by (simp_all add: sib_is_def sib_left_is_def sib_right_is_def is_color_def
    sibling_eq [OF z] deref_sibling_mk [OF z] color_frame [OF z])

section \<open>The cases\<close>

lemma delete_case6_ok:
  assumes z: "zip_at b E t (Fr d p cp kp vp (mk d q cq kq vq s1 (mk g w RED kw vw wl wr)) # cs)
      (Nd n cn kn vn l r)"
  shows "yields (delete_case6 t n) b E
      (Fr d p BLACK kp vp s1 # Fr d q cp kq vq (mk g w BLACK kw vw wl wr) # cs) (Nd n cn kn vn l r)"
proof -
  let ?n = "Nd n cn kn vn l r"
  obtain t1 where t1: "set_color t q cp = Some t1"
    and z1: "zip_at b E t1 (Fr d p cp kp vp (mk d q cp kq vq s1 (mk g w RED kw vw wl wr)) # cs) ?n"
    using set_color_sibling_mk [OF z] by (rule yieldsE)
  obtain t2 where t2: "set_color t1 p BLACK = Some t2"
    and z2: "zip_at b E t2 (Fr d p BLACK kp vp (mk d q cp kq vq s1 (mk g w RED kw vw wl wr)) # cs) ?n"
    using set_color_frame [OF z1] by (rule yieldsE)
  obtain t3 where t3: "set_color t2 w BLACK = Some t3"
    and z3: "zip_at b E t3 (Fr d p BLACK kp vp (mk d q cp kq vq s1 (mk g w BLACK kw vw wl wr)) # cs) ?n"
    using set_color_nephew_far [OF z2] by (rule yieldsE)
  have "zip_at b E t3 cs (mk d p BLACK kp vp ?n (mk d q cp kq vq s1 (mk g w BLACK kw vw wl wr)))"
    using z3 by (simp add: zip_up)
  then have "yields (rot d t3 p) b E cs
      (mk d q cp kq vq (mk d p BLACK kp vp ?n s1) (mk g w BLACK kw vw wl wr))"
    by (rule rot_focus)
  then have y: "yields (rot d t3 p) b E
      (Fr d p BLACK kp vp s1 # Fr d q cp kq vq (mk g w BLACK kw vw wl wr) # cs) ?n"
    by (simp add: yields_def zip_up)
  have sib: "sibling t n = Some q" "sibling t2 n = Some q"
    using sibling_eq [OF z] sibling_eq [OF z2] by simp_all
  show ?thesis
    using y zip_frame_ne [OF z] by (cases d)
      (simp_all add: delete_case6_def rot_def deref_focus [OF z] color_frame [OF z] sib t1 t2 t3
        deref_frame [OF z2] deref_sibling_mk [OF z2] color_nephews [OF z2, simplified])
qed

lemma delete_case5_far:
  assumes z: "zip_at b E t (Fr d p cp kp vp (mk d q cq kq vq s1 s2) # cs) (Nd n cn kn vn l r)"
    and "col s2 = RED"
  shows "delete_case5 t n = delete_case6 t n"
  using zip_frame_ne [OF z] relatives_color [OF z] sibling_eq [OF z] assms(2) by (cases d)
    (auto simp: delete_case5_def deref_focus [OF z] deref_frame [OF z] deref_sibling_mk [OF z])

lemma delete_case5_near:
  assumes z: "zip_at b E t (Fr d p cp kp vp (mk d q BLACK kq vq (mk d w RED kw vw s1 s2) s3) # cs)
      (Nd n cn kn vn l r)"
    and s3: "col s3 = BLACK"
  shows "\<exists>t'. delete_case5 t n = delete_case6 t' n \<and>
    zip_at b E t' (Fr d p cp kp vp (mk d w BLACK kw vw s1 (mk d q RED kq vq s2 s3)) # cs)
      (Nd n cn kn vn l r)"
proof -
  let ?n = "Nd n cn kn vn l r"
  obtain t1 where t1: "set_color t q RED = Some t1"
    and z1: "zip_at b E t1 (Fr d p cp kp vp (mk d q RED kq vq (mk d w RED kw vw s1 s2) s3) # cs) ?n"
    using set_color_sibling_mk [OF z] by (rule yieldsE)
  obtain t2 where t2: "set_color t1 w BLACK = Some t2"
    and z2: "zip_at b E t2 (Fr d p cp kp vp (mk d q RED kq vq (mk d w BLACK kw vw s1 s2) s3) # cs) ?n"
    using set_color_nephew_near [OF z1] by (rule yieldsE)
  have "zip_at b E t2 (Fr (\<not> d) p cp kp vp ?n # cs)
      (mk (\<not> d) q RED kq vq s3 (mk (\<not> d) w BLACK kw vw s2 s1))"
    using z2 [unfolded zip_swap [of b E t2 d]] by (cases d) simp_all
  then obtain t3 where t3: "rot (\<not> d) t2 q = Some t3"
    and z3: "zip_at b E t3 (Fr (\<not> d) p cp kp vp ?n # cs)
      (mk (\<not> d) w BLACK kw vw (mk (\<not> d) q RED kq vq s3 s2) s1)"
    by (rule rot_focus [THEN yieldsE])
  have "delete_case5 t n = delete_case6 t3 n"
    using zip_frame_ne [OF z] sibling_eq [OF z] s3 t3 relatives_color [OF z] by (cases d)
      (simp_all add: delete_case5_def rot_def deref_focus [OF z] deref_frame [OF z]
        sibling_eq [OF z1] deref_sibling_mk [OF z1] sibling_eq [OF z2] t1 t2)
  moreover have "zip_at b E t3 (Fr d p cp kp vp (mk d w BLACK kw vw s1 (mk d q RED kq vq s2 s3)) # cs) ?n"
    unfolding zip_swap [of b E t3 d] using z3 by (cases d) simp_all
  ultimately show ?thesis by blast
qed

lemma delete_case4_red:
  assumes z: "zip_at b E t (Fr d p RED kp vp (mk d q BLACK kq vq s1 s2) # cs) (Nd n cn kn vn l r)"
    and s: "col s1 = BLACK" "col s2 = BLACK"
  shows "yields (delete_case4 t n) b E (Fr d p BLACK kp vp (mk d q RED kq vq s1 s2) # cs)
      (Nd n cn kn vn l r)"
proof -
  obtain t1 where t1: "set_color t q RED = Some t1"
    and z1: "zip_at b E t1 (Fr d p RED kp vp (mk d q RED kq vq s1 s2) # cs) (Nd n cn kn vn l r)"
    using set_color_sibling_mk [OF z] by (rule yieldsE)
  show ?thesis
    using set_color_frame [OF z1] s relatives_color [OF z] by (cases d)
      (simp_all add: delete_case4_def deref_focus [OF z] color_frame [OF z] sibling_eq [OF z]
        deref_sibling_mk [OF z] t1)
qed

lemma delete_case4_other:
  assumes z: "zip_at b E t (Fr d p cp kp vp (mk d q BLACK kq vq s1 s2) # cs) (Nd n cn kn vn l r)"
    and s: "col s1 = RED \<or> col s2 = RED"
  shows "delete_case4 t n = delete_case5 t n"
  using s relatives_color [OF z] by (cases d)
    (auto simp: delete_case4_def deref_focus [OF z] color_frame [OF z] sibling_eq [OF z]
      deref_sibling_mk [OF z])

lemma delete_case3_other:
  assumes z: "zip_at b E t (Fr d p cp kp vp (mk d q BLACK kq vq s1 s2) # cs) (Nd n cn kn vn l r)"
    and s: "cp = RED \<or> col s1 = RED \<or> col s2 = RED"
  shows "delete_case3 (Suc fuel) t n = delete_case4 t n"
  using s relatives_color [OF z] by (cases d)
    (auto simp: delete_case3.simps deref_focus [OF z] color_frame [OF z] sibling_eq [OF z]
      deref_sibling_mk [OF z])

lemma delete_case3_black:
  assumes z: "zip_at b E t (Fr d p BLACK kp vp (mk d q BLACK kq vq s1 s2) # cs) (Nd n cn kn vn l r)"
    and s: "col s1 = BLACK" "col s2 = BLACK"
  shows "\<exists>t'. delete_case3 (Suc fuel) t n = delete_case1 fuel t' p \<and>
    zip_at b E t' cs (mk d p BLACK kp vp (Nd n cn kn vn l r) (mk d q RED kq vq s1 s2))"
proof -
  obtain t1 where t1: "set_color t q RED = Some t1"
    and z1: "zip_at b E t1 (Fr d p BLACK kp vp (mk d q RED kq vq s1 s2) # cs) (Nd n cn kn vn l r)"
    using set_color_sibling_mk [OF z] by (rule yieldsE)
  have "delete_case3 (Suc fuel) t n = delete_case1 fuel t1 p"
    using s relatives_color [OF z] by (cases d)
      (simp_all add: delete_case3.simps deref_focus [OF z] color_frame [OF z] sibling_eq [OF z]
        deref_sibling_mk [OF z] t1)
  with z1 show ?thesis by (auto simp: zip_up [of b E t1 d p])
qed

lemma delete_case2_red:
  assumes z: "zip_at b E t (Fr d p cp kp vp (mk d q RED kq vq s1 s2) # cs) (Nd n cn kn vn l r)"
  shows "\<exists>t'. delete_case2 fuel t n = delete_case3 fuel t' n \<and>
    zip_at b E t' (Fr d p RED kp vp s1 # Fr d q BLACK kq vq s2 # cs) (Nd n cn kn vn l r)"
proof -
  let ?n = "Nd n cn kn vn l r"
  obtain t1 where t1: "set_color t p RED = Some t1"
    and z1: "zip_at b E t1 (Fr d p RED kp vp (mk d q RED kq vq s1 s2) # cs) ?n"
    using set_color_frame [OF z] by (rule yieldsE)
  obtain t2 where t2: "set_color t1 q BLACK = Some t2"
    and z2: "zip_at b E t2 (Fr d p RED kp vp (mk d q BLACK kq vq s1 s2) # cs) ?n"
    using set_color_sibling_mk [OF z1] by (rule yieldsE)
  have "zip_at b E t2 cs (mk d p RED kp vp ?n (mk d q BLACK kq vq s1 s2))"
    using z2 by (simp add: zip_up)
  then obtain t3 where t3: "rot d t2 p = Some t3"
    and z3: "zip_at b E t3 cs (mk d q BLACK kq vq (mk d p RED kp vp ?n s1) s2)"
    by (rule rot_focus [THEN yieldsE])
  have "delete_case2 fuel t n = delete_case3 fuel t3 n"
    using zip_frame_ne [OF z] t3 color_nephews [OF z] by (cases d)
      (simp_all add: delete_case2.simps rot_def deref_focus [OF z] sibling_eq [OF z] sibling_eq [OF z1] t1 t2
        deref_frame [OF z2])
  with z3 show ?thesis by (auto simp: zip_up)
qed

lemma delete_case2_black:
  assumes z: "zip_at b E t (Fr d p cp kp vp (mk d q BLACK kq vq s1 s2) # cs) (Nd n cn kn vn l r)"
  shows "delete_case2 fuel t n = delete_case3 fuel t n"
  using color_nephews [OF z] sibling_eq [OF z] by (simp add: delete_case2.simps)

section \<open>The whole repair\<close>

definition repaired ::
  "'v rbtree option \<Rightarrow> ptr \<Rightarrow> ptr set \<Rightarrow> nat \<Rightarrow> 'v frame list \<Rightarrow> 'v atree \<Rightarrow> bool" where
  "repaired m b E h cs x \<longleftrightarrow>
     (\<exists>cs'. yields m b E cs' x \<and> ctx_ok cs' RED h \<and> cl cs' = cl cs \<and> cr cs' = cr cs)"

lemma repairedI:
  "yields m b E cs' x \<Longrightarrow> ctx_ok cs' RED h \<Longrightarrow> cl cs' = cl cs \<Longrightarrow> cr cs' = cr cs \<Longrightarrow>
     repaired m b E h cs x"
  by (auto simp: repaired_def)

lemma delete_case5_ok:
  assumes z: "zip_at b E t (Fr d p cp kp vp (mk d q BLACK kq vq s1 s2) # cs) (Nd n cn kn vn l r)"
    and ok: "rbt_ok h s1" "rbt_ok h s2" 
      "ctx_ok (Fr d p cp kp vp (mk d q BLACK kq vq s1 s2) # cs) BLACK (Suc h)"
    and red: "col s1 = RED \<or> col s2 = RED"
  shows "repaired (delete_case5 t n) b E h (Fr d p cp kp vp (mk d q BLACK kq vq s1 s2) # cs)
      (Nd n cn kn vn l r)"
proof (cases "col s2")
  case RED
  then obtain w kw vw wl wr where s2: "s2 = mk d w RED kw vw wl wr" by (rule col_RED_mkE)
  show ?thesis
  proof (rule repairedI)
    show "yields (delete_case5 t n) b E
        (Fr d p BLACK kp vp s1 # Fr d q cp kq vq (mk d w BLACK kw vw wl wr) # cs) (Nd n cn kn vn l r)"
      using delete_case6_ok [OF z [unfolded s2]] delete_case5_far [OF z RED] by simp
  qed (use ok s2 in \<open>cases cp; cases d; auto simp: ino_mk\<close>)+
next
  case BLACK
  then have "col s1 = RED" using red by simp
  then obtain w kw vw s11 s12 where s1: "s1 = mk d w RED kw vw s11 s12" by (rule col_RED_mkE)
  obtain t' where t': "delete_case5 t n = delete_case6 t' n"
    and z': "zip_at b E t' (Fr d p cp kp vp (mk d w BLACK kw vw s11 (mk d q RED kq vq s12 s2)) # cs) (Nd n cn kn vn l r)"
    using delete_case5_near [OF z [unfolded s1] BLACK] by blast
  show ?thesis
  proof (rule repairedI)
    show "yields (delete_case5 t n) b E
        (Fr d p BLACK kp vp s11 # Fr d w cp kw vw (mk d q BLACK kq vq s12 s2) # cs) (Nd n cn kn vn l r)"
      using delete_case6_ok [OF z'] t' by simp
  qed (use ok s1 BLACK in \<open>cases cp; cases d; auto simp: ino_mk\<close>)+
qed

lemma delete_case4_ok:
  assumes z: "zip_at b E t (Fr d p cp kp vp (mk d q BLACK kq vq s1 s2) # cs) (Nd n cn kn vn l r)"
    and ok: "rbt_ok h s1" "rbt_ok h s2" 
      "ctx_ok (Fr d p cp kp vp (mk d q BLACK kq vq s1 s2) # cs) BLACK (Suc h)"
    and red: "cp = RED \<or> col s1 = RED \<or> col s2 = RED"
  shows "repaired (delete_case4 t n) b E h (Fr d p cp kp vp (mk d q BLACK kq vq s1 s2) # cs)
      (Nd n cn kn vn l r)"
proof (cases "col s1 = RED \<or> col s2 = RED")
  case True
  then show ?thesis
    using delete_case4_other [OF z True] delete_case5_ok [OF z ok True] by simp
next
  case False
  then have s: "col s1 = BLACK" "col s2 = BLACK" and cp: "cp = RED"
    using red color_not_BLACK by blast+
  show ?thesis
  proof (rule repairedI)
    show "yields (delete_case4 t n) b E (Fr d p BLACK kp vp (mk d q RED kq vq s1 s2) # cs) (Nd n cn kn vn l r)"
      using delete_case4_red [OF z [unfolded cp] s] .
  qed (use ok s cp in \<open>auto simp: ino_mk dest: ctx_ok_BLACK\<close>)
qed

lemma delete_case1_inner:
  assumes z: "zip_at b E t (Fr d p cp kp vp s # cs) (Nd n cn kn vn l r)"
  shows "delete_case1 fuel t n = delete_case2 fuel t n"
  using deref_focus [OF z] zip_frame_ne [OF z] by (simp add: delete_case1.simps)

lemma delete_case1_red_sibling:
  assumes z: "zip_at b E t (Fr d p cp kp vp s # cs) (Nd n cn kn vn l r)"
    and ctx: "ctx_ok (Fr d p cp kp vp s # cs) BLACK (Suc h)" and "col s = RED"
  shows "repaired (delete_case1 (Suc fuel) t n) b E h (Fr d p cp kp vp s # cs) (Nd n cn kn vn l r)"
proof -
  let ?n = "Nd n cn kn vn l r"
  from \<open>col s = RED\<close> obtain q kq vq s1 s2 where s: "s = mk d q RED kq vq s1 s2"
    by (rule col_RED_mkE)
  have cp: "cp = BLACK" using ctx s by (cases cp) auto
  have "rbt_ok (Suc h) s1" "col s1 = BLACK" using ctx s cp by auto
  then obtain u ku vu s3 s4 where s1: "s1 = mk d u BLACK ku vu s3 s4" "rbt_ok h s3" "rbt_ok h s4"
    by (rule rbt_ok_Suc_mkE)
  obtain t' where t': "delete_case2 (Suc fuel) t n = delete_case3 (Suc fuel) t' n"
    and z': "zip_at b E t' (Fr d p RED kp vp s1 # Fr d q BLACK kq vq s2 # cs) ?n"
    using delete_case2_red [OF z [unfolded s]] by blast
  have "repaired (delete_case4 t' n) b E h (Fr d p RED kp vp s1 # Fr d q BLACK kq vq s2 # cs) ?n"
    using z' ctx s s1 cp unfolding s1 by (intro delete_case4_ok) auto
  moreover have "delete_case1 (Suc fuel) t n = delete_case4 t' n"
    using delete_case3_other [OF z' [unfolded s1]] t' delete_case1_inner [OF z] by simp
  ultimately show ?thesis by (auto simp: repaired_def s ino_mk)
qed

text \<open>A repair further up, seen from the node below.\<close>

lemma repaired_down:
  assumes "yields m b E cs' (mk d p BLACK kp vp x s)" and "ctx_ok cs' BLACK (Suc h)"
    and "cl cs' = cl cs" and "cr cs' = cr cs" and "rbt_ok h s" and "ino s = ino s0"
  shows "repaired m b E h (Fr d p BLACK kp vp s0 # cs) x"
proof (rule repairedI)
  show "yields m b E (Fr d p BLACK kp vp s # cs') x"
    using assms(1) by (simp add: yields_def zip_up)
qed (use assms in auto)

text \<open>
  Each round of \<open>delete_case1\<close> to \<open>delete_case3\<close> moves one frame up, so the number of frames
  above the node is enough fuel.
\<close>

lemma delete_case1_ok:
  assumes "zip_at b E t cs (Nd n cn kn vn l r)" and "ctx_ok cs BLACK (Suc h)"
    and "length cs \<le> fuel"
  shows "(cs = [] \<and> delete_case1 fuel t n = Some t) \<or>
         repaired (delete_case1 fuel t n) b E h cs (Nd n cn kn vn l r)"
  using assms
proof (induction cs arbitrary: fuel t n cn kn vn l r h)
  case Nil
  then show ?case by (simp add: delete_case1.simps deref_focus [OF Nil.prems(1)])
next
  case (Cons f cs)
  obtain d p cp kp vp s where f: "f = Fr d p cp kp vp s" by (cases f)
  obtain fuel' where fuel: "fuel = Suc fuel'" using Cons.prems(3) by (cases fuel) auto
  note z = Cons.prems(1) [unfolded f] and ctx = Cons.prems(2) [unfolded f]
  let ?n = "Nd n cn kn vn l r"
  show ?case
  proof (cases "col s")
    case RED
    then show ?thesis using delete_case1_red_sibling [OF z ctx] by (simp add: f fuel)
  next
    case BLACK
    have "rbt_ok (Suc h) s" using ctx by (cases cp) auto
    then obtain q kq vq s1 s2
      where s: "s = mk d q BLACK kq vq s1 s2" "rbt_ok h s1" "rbt_ok h s2"
      using BLACK by (rule rbt_ok_Suc_mkE)
    note z = z [unfolded s]
    have eq: "delete_case1 fuel t n = delete_case3 fuel t n"
      using delete_case1_inner [OF z] delete_case2_black [OF z] by simp
    show ?thesis
    proof (cases "cp = RED \<or> col s1 = RED \<or> col s2 = RED")
      case True
      then show ?thesis
        using delete_case4_ok [OF z s(2,3) ctx [unfolded s] True]
          delete_case3_other [OF z True, of fuel'] eq by (simp add: f fuel s)
    next
      case False
      then have blk: "cp = BLACK" "col s1 = BLACK" "col s2 = BLACK"
        using color_not_BLACK by blast+
      let ?s = "mk d q RED kq vq s1 s2"
      obtain t' where t': "delete_case3 fuel t n = delete_case1 fuel' t' p"
        and z': "zip_at b E t' cs (mk d p BLACK kp vp ?n ?s)"
        using delete_case3_black [OF z [unfolded blk]] blk unfolding fuel by blast
      obtain l' r' where x: "mk d p BLACK kp vp ?n ?s = Nd p BLACK kp vp l' r'" by (cases d) auto
      have "cs = [] \<and> delete_case1 fuel' t' p = Some t' \<or>
          repaired (delete_case1 fuel' t' p) b E (Suc h) cs (mk d p BLACK kp vp ?n ?s)"
        using Cons.IH [of t' p BLACK kp vp l' r' "Suc h" fuel'] z' ctx Cons.prems(3) blk
        unfolding x by (auto simp: fuel)
      then obtain cs' where "yields (delete_case1 fuel' t' p) b E cs' (mk d p BLACK kp vp ?n ?s)"
        "ctx_ok cs' BLACK (Suc h)" "cl cs' = cl cs" "cr cs' = cr cs"
        using z' by (auto simp: repaired_def yields_def dest: ctx_ok_BLACK)
      then have "repaired (delete_case1 fuel' t' p) b E h (f # cs) ?n"
        unfolding f blk by (rule repaired_down) (use s blk in \<open>auto simp: ino_mk\<close>)
      then show ?thesis using eq t' by simp
    qed
  qed
qed

end
