(* ===== verification/Rbtree_Map.thy ===== *)
theory Rbtree_Map
  imports Rbtree_Delete
begin

text \<open>
  The operations of \<open>pvmobj/rbtree.cc\<close> from the outside: \<open>rbtree_lookup\<close>, \<open>rbtree_insert\<close> and
  \<open>rbtree_delete\<close> with the key order \<open>IntComp\<close> of \<open>pvmobj/nv_map.cc\<close> are a finite map, keep the
  red-black invariant, never fail an assertion and never leak a node.
\<close>

section \<open>Key order and self checks\<close>

definition IntComp :: "'v compare_func" where
  "IntComp n a b = Some (if a > b then 1 else if a < b then - 1 else 0)"

text \<open>The checks compiled in with \<open>VERIFY_RBTREE\<close>; each recursive one spends fuel per level.\<close>

fun verify_property_1 :: "nat \<Rightarrow> 'v rbtree \<Rightarrow> ptr \<Rightarrow> unit option" where
  "verify_property_1 fuel t n = do {
     c \<leftarrow> node_color t n;
     c_assert (c = RED \<or> c = BLACK);
     if n = NULL then Some ()
     else (case fuel of
         0 \<Rightarrow> None
       | Suc fuel \<Rightarrow> do {
           nn \<leftarrow> deref t n;
           verify_property_1 fuel t (nleft nn);
           verify_property_1 fuel t (nright nn) }) }"

definition verify_property_2 :: "'v rbtree \<Rightarrow> ptr \<Rightarrow> unit option" where
  "verify_property_2 t n = do { c \<leftarrow> node_color t n; c_assert (c = BLACK) }"

fun verify_property_4 :: "nat \<Rightarrow> 'v rbtree \<Rightarrow> ptr \<Rightarrow> unit option" where
  "verify_property_4 fuel t n = do {
     c \<leftarrow> node_color t n;
     (if c = RED then do {
        nn \<leftarrow> deref t n;
        lc \<leftarrow> node_color t (nleft nn);
        c_assert (lc = BLACK);
        rc \<leftarrow> node_color t (nright nn);
        c_assert (rc = BLACK);
        pc \<leftarrow> node_color t (nparent nn);
        c_assert (pc = BLACK) }
      else Some ());
     if n = NULL then Some ()
     else (case fuel of
         0 \<Rightarrow> None
       | Suc fuel \<Rightarrow> do {
           nn \<leftarrow> deref t n;
           verify_property_4 fuel t (nleft nn);
           verify_property_4 fuel t (nright nn) }) }"

text \<open>The count behind \<open>path_black_count\<close> is threaded through and returned.\<close>

fun verify_property_5_helper :: "nat \<Rightarrow> 'v rbtree \<Rightarrow> ptr \<Rightarrow> int \<Rightarrow> int \<Rightarrow> int option" where
  "verify_property_5_helper fuel t n black_count path_black_count = do {
     c \<leftarrow> node_color t n;
     let black_count = (if c = BLACK then black_count + 1 else black_count);
     if n = NULL then
       (if path_black_count = - 1 then Some black_count
        else do { c_assert (black_count = path_black_count); Some path_black_count })
     else (case fuel of
         0 \<Rightarrow> None
       | Suc fuel \<Rightarrow> do {
           nn \<leftarrow> deref t n;
           path_black_count \<leftarrow>
             verify_property_5_helper fuel t (nleft nn) black_count path_black_count;
           verify_property_5_helper fuel t (nright nn) black_count path_black_count }) }"

definition verify_property_5 :: "'v rbtree \<Rightarrow> ptr \<Rightarrow> unit option" where
  "verify_property_5 t n = do {
     verify_property_5_helper (brk t) t n 0 (- 1);
     Some () }"

definition verify_properties :: "'v rbtree \<Rightarrow> unit option" where
  "verify_properties t = do {
     verify_property_1 (brk t) t (root t);
     verify_property_2 t (root t);
     verify_property_4 (brk t) t (root t);
     verify_property_5 t (root t) }"

lemma IntComp_simps [simp]:
  "IntComp n a a = Some 0"
  "a < b \<Longrightarrow> IntComp n a b = Some (- 1)"
  "b < a \<Longrightarrow> IntComp n a b = Some 1"
  by (auto simp: IntComp_def)

declare verify_property_1.simps [simp del] verify_property_4.simps [simp del]
declare verify_property_5_helper.simps [simp del]

section \<open>Search\<close>

fun height :: "'v atree \<Rightarrow> nat" where
  "height Lf = 0"
| "height (Nd a c k v l r) = Suc (max (height l) (height r))"

lemma height_le_addrs: "height x \<le> length (addrs x)"
  by (induction x) auto

lemma zip_length: "zip_at b E t cs x \<Longrightarrow> length (caddrs cs) + length (addrs x) \<le> b"
  using length_less_card_bound [of "caddrs cs @ addrs x" 0 b]
  by (auto simp: zip_at_def foot_def subset_iff)

lemma length_le_caddrs: "length cs \<le> length (caddrs cs)"
  by (induction cs rule: caddrs.induct) auto

lemma zip_fuel:
  assumes "zip_at b E t cs x"
  shows "height x \<le> b" and "length cs \<le> b"
  using zip_length [OF assms] height_le_addrs [of x] length_le_caddrs [of cs] by linarith+

lemma zip_addr_NULL: "zip_at b E t cs x \<Longrightarrow> addr x = NULL \<longleftrightarrow> x = Lf"
  by (auto simp: zip_at_def shape_def dest: addr_NULL_iff)

text \<open>
  \<open>dir\<close> is the sign that the comparison gives at each entry. The loop finds an entry of sign 0
  whenever the signs fall along the in-order contents.
\<close>

definition hits ::
  "ptr \<Rightarrow> ptr set \<Rightarrow> 'v rbtree \<Rightarrow> (ULONG \<times> 'v \<Rightarrow> int) \<Rightarrow> 'v atree \<Rightarrow> (ULONG \<times> 'v) list \<Rightarrow> ptr \<Rightarrow> bool" where
  "hits b E t dir x xs p \<longleftrightarrow>
     (if \<exists>kv \<in> set xs. dir kv = 0
      then \<exists>cs c k v l r. zip_at b E t cs (Nd p c k v l r) \<and> plug cs (Nd p c k v l r) = x \<and>
             dir (k, v) = 0 \<and> (k, v) \<in> set xs
      else p = NULL)"

lemma hits_mono:
  assumes "hits b E t dir x xs p" and "set xs \<subseteq> set ys" and "\<forall>kv \<in> set ys - set xs. dir kv \<noteq> 0"
  shows "hits b E t dir x ys p"
proof -
  have "(\<exists>kv \<in> set ys. dir kv = 0) = (\<exists>kv \<in> set xs. dir kv = 0)" using assms(2,3) by blast
  then show ?thesis using assms unfolding hits_def by (auto split: if_splits) blast
qed

lemma hitsI:
  "zip_at b E t cs (Nd p c k v l r) \<Longrightarrow> dir (k, v) = 0 \<Longrightarrow> (k, v) \<in> set xs \<Longrightarrow>
     hits b E t dir (plug cs (Nd p c k v l r)) xs p"
  unfolding hits_def by auto blast

lemma lookup_loop_dir:
  assumes "zip_at b E t cs x" and "height x \<le> fuel"
    and cmp: "\<And>nn. compare (Some nn) key (nkey nn) = Some (dir (nkey nn, nvalue nn))"
    and "sorted_wrt (\<lambda>p q. 0 < dir p \<or> dir q < 0) (ino x)"
  shows "\<exists>p. lookup_loop fuel t (addr x) key compare = Some p \<and> hits b E t dir (plug cs x) (ino x) p"
  using assms(1,2,4)
proof (induction x arbitrary: cs fuel)
  case Lf
  then show ?case by (cases fuel) (simp_all add: hits_def)
next
  case (Nd a c k v l r)
  obtain fuel' where fuel: "fuel = Suc fuel'" using Nd.prems(2) by (cases fuel) auto
  note z = Nd.prems(1)
  note d = deref_focus [OF z] and a = zip_focus_ne_NULL [OF z]
  consider (eq) "dir (k, v) = 0" | (lt) "dir (k, v) < 0" | (gt) "0 < dir (k, v)" by linarith
  then show ?case
  proof cases
    case eq
    then show ?thesis using d a hitsI [OF z] by (simp add: fuel cmp)
  next
    case lt
    have "zip_at b E t (Fr True a c k v r # cs) l" by (fact z [unfolded zip_left])
    then obtain p where p: "lookup_loop fuel' t (addr l) key compare = Some p"
      "hits b E t dir (plug cs (Nd a c k v l r)) (ino l) p"
      using Nd.IH(1) Nd.prems(2,3) by (fastforce simp: fuel sorted_wrt_append)
    have "\<forall>kv \<in> set (ino r). dir kv \<noteq> 0" using Nd.prems(3) lt by (fastforce simp: sorted_wrt_append)
    then have "hits b E t dir (plug cs (Nd a c k v l r)) (ino (Nd a c k v l r)) p"
      by (intro hits_mono [OF p(2)]) (use lt in auto)
    then show ?thesis using p lt d a by (simp add: fuel cmp)
  next
    case gt
    have "zip_at b E t (Fr False a c k v l # cs) r" by (fact z [unfolded zip_right])
    then obtain p where p: "lookup_loop fuel' t (addr r) key compare = Some p"
      "hits b E t dir (plug cs (Nd a c k v l r)) (ino r) p"
      using Nd.IH(2) Nd.prems(2,3) by (fastforce simp: fuel sorted_wrt_append)
    have "\<forall>kv \<in> set (ino l). dir kv \<noteq> 0" using Nd.prems(3) gt by (fastforce simp: sorted_wrt_append)
    then have "hits b E t dir (plug cs (Nd a c k v l r)) (ino (Nd a c k v l r)) p"
      by (intro hits_mono [OF p(2)]) (use gt in auto)
    then show ?thesis using p gt d a by (simp add: fuel cmp)
  qed
qed

lemma link_focus:
  assumes z: "zip_at b {i} t (Fr d a c k v s # cs) Lf"
    and i: "deref t i = Some \<lparr>nkey = key, nvalue = val, nleft = NULL, nright = NULL,
              nparent = NULL, ncolor = RED\<rparr>"
  shows "\<exists>t'. (if d then set_left t a i else set_right t a i) = Some t' \<and>
    yields (set_parent t' i a) b {} (Fr d a c k v s # cs) (Nd i RED key val Lf Lf)"
proof -
  have ne: "i \<noteq> a" "i \<notin> set (addrs s)" "i \<notin> set (caddrs cs)" "a \<notin> set (addrs s)"
    "a \<notin> set (caddrs cs)" "i \<noteq> NULL"
    using z i by (auto simp: zip_at_def foot_def deref_def split: if_splits)
  have "nodes t i = Some \<lparr>nkey = key, nvalue = val, nleft = NULL, nright = NULL,
              nparent = NULL, ncolor = RED\<rparr>"
    using i by (auto simp: deref_def split: if_splits)
  then show ?thesis using z ne
    by (cases d) (auto simp: field_defs yields_def zip_at_def shape_def foot_def)
qed

definition srt :: "(ULONG \<times> 'v) list \<Rightarrow> bool" where
  "srt xs \<longleftrightarrow> sorted_wrt (<) (map fst xs)"

lemma srt_simps [simp]:
  "srt []"
  "srt (kv # xs) \<longleftrightarrow> (\<forall>q \<in> set xs. fst kv < fst q) \<and> srt xs"
  "srt (xs @ ys) \<longleftrightarrow> srt xs \<and> srt ys \<and> (\<forall>p \<in> set xs. \<forall>q \<in> set ys. fst p < fst q)"
  by (auto simp: srt_def sorted_wrt_append)

text \<open>
  The two outcomes of the insertion loop: the key was at some focus of the whole tree, whose
  value it overwrote; or the new node was linked below the entries \<open>xs\<close> and above \<open>ys\<close>.
\<close>

definition found_at ::
  "ptr \<Rightarrow> ('v rbtree \<times> ptr option) option \<Rightarrow> ULONG \<Rightarrow> 'v \<Rightarrow> 'v atree \<Rightarrow> bool" where
  "found_at b m key val x \<longleftrightarrow>
     (\<exists>t' cs' n c v0 l r. m = Some (t', None) \<and> zip_at b {} t' cs' (Nd n c key val l r) \<and>
        x = plug cs' (Nd n c key v0 l r))"

definition linked_at ::
  "ptr \<Rightarrow> ('v rbtree \<times> ptr option) option \<Rightarrow> ptr \<Rightarrow> ULONG \<Rightarrow> 'v \<Rightarrow> 'v frame list \<Rightarrow> 'v atree \<Rightarrow> bool" where
  "linked_at b m i key val cs x \<longleftrightarrow>
     (\<exists>t' cs' xs ys. m = Some (t', Some (caddr cs')) \<and>
        yields (set_parent t' i (caddr cs')) b {} cs' (Nd i RED key val Lf Lf) \<and>
        plug cs x = plug cs' Lf \<and> ino x = xs @ ys \<and> cl cs' = cl cs @ xs \<and> cr cs' = ys @ cr cs \<and>
        (\<forall>p \<in> set xs. fst p < key) \<and> (\<forall>q \<in> set ys. key < fst q))"

lemma found_atI:
  "m = Some (t', None) \<Longrightarrow> zip_at b {} t' cs (Nd n c key val l r) \<Longrightarrow>
     found_at b m key val (plug cs (Nd n c key v0 l r))"
  unfolding found_at_def by blast

lemma linked_at_up:
  assumes "linked_at b m i key val (Fr d a c k v s # cs) x"
    and "srt (ino (mk d a c k v x s))" and "if d then key < k else k < key"
  shows "linked_at b m i key val cs (mk d a c k v x s)"
proof -
  obtain t' cs' xs ys where m: "m = Some (t', Some (caddr cs'))"
      "yields (set_parent t' i (caddr cs')) b {} cs' (Nd i RED key val Lf Lf)"
      "plug cs (mk d a c k v x s) = plug cs' Lf"
    and x: "ino x = xs @ ys" "cl cs' = cl (Fr d a c k v s # cs) @ xs"
      "cr cs' = ys @ cr (Fr d a c k v s # cs)"
      "\<forall>p \<in> set xs. fst p < key" "\<forall>q \<in> set ys. key < fst q"
    using assms(1) by (auto simp: linked_at_def)
  define xs' where "xs' = (if d then xs else ino s @ (k, v) # xs)"
  define ys' where "ys' = (if d then ys @ (k, v) # ino s else ys)"
  have "ino (mk d a c k v x s) = xs' @ ys'" "cl cs' = cl cs @ xs'" "cr cs' = ys' @ cr cs"
    using x by (simp_all add: ino_mk xs'_def ys'_def)
  moreover have "\<forall>p \<in> set xs'. fst p < key" "\<forall>q \<in> set ys'. key < fst q"
    using assms(2,3) x by (auto simp: ino_mk xs'_def ys'_def split: if_splits)
  ultimately show ?thesis using m unfolding linked_at_def by blast
qed

lemma linked_at_Lf:
  assumes "zip_at b {i} t (Fr d a c k v s # cs) Lf"
    and "deref t i = Some \<lparr>nkey = key, nvalue = val, nleft = NULL, nright = NULL,
              nparent = NULL, ncolor = RED\<rparr>"
  shows "linked_at b (do { t' \<leftarrow> if d then set_left t a i else set_right t a i; Some (t', Some a) })
           i key val (Fr d a c k v s # cs) Lf"
proof -
  obtain t' where "(if d then set_left t a i else set_right t a i) = Some t'"
    "yields (set_parent t' i a) b {} (Fr d a c k v s # cs) (Nd i RED key val Lf Lf)"
    using link_focus [OF assms] by blast
  then show ?thesis unfolding linked_at_def
    by (intro exI [of _ t'] exI [of _ "Fr d a c k v s # cs"] exI [of _ "[]"]) auto
qed

lemma insert_loop_ok:
  assumes "zip_at b {i} t cs x" and "x \<noteq> Lf" and "height x \<le> fuel" and "srt (ino x)"
    and i: "deref t i = Some \<lparr>nkey = key, nvalue = val, nleft = NULL, nright = NULL,
              nparent = NULL, ncolor = RED\<rparr>"
  shows "found_at b (insert_loop fuel t (addr x) i key val IntComp) key val (plug cs x) \<or>
    linked_at b (insert_loop fuel t (addr x) i key val IntComp) i key val cs x"
    (is "?P fuel cs x")
  using assms(1-4)
proof (induction x arbitrary: cs fuel)
  case Lf
  then show ?case by simp
next
  case (Nd a c k v l r)
  obtain fuel' where fuel: "fuel = Suc fuel'" using Nd.prems(3) by (cases fuel) auto
  note z = Nd.prems(1)
  note d = deref_focus [OF z]
  have zl: "zip_at b {i} t (Fr True a c k v r # cs) l"
    and zr: "zip_at b {i} t (Fr False a c k v l # cs) r"
    by (fact z [unfolded zip_left], fact z [unfolded zip_right])
  have srt: "srt (ino (mk True a c k v l r))" "srt (ino (mk False a c k v r l))"
    using Nd.prems(4) by simp_all
  consider (eq) "key = k" | (lt) "key < k" | (gt) "k < key" by force
  then show ?case
  proof cases
    case eq
    obtain t' where t': "set_value t a val = Some t'" and z': "zip_at b {i} t' cs (Nd a c k val l r)"
      using set_value_focus [OF z] by (rule yieldsE)
    then have "zip_at b {} (free_node t' i) cs (Nd a c k val l r)" by (simp add: free_node_focus)
    then show ?thesis unfolding eq
      by (intro disjI1 found_atI) (simp_all add: d t' fuel)
  next
    case lt
    have "insert_loop fuel t a i key val IntComp = (if l = Lf
        then do { t' \<leftarrow> if True then set_left t a i else set_right t a i; Some (t', Some a) }
        else insert_loop fuel' t (addr l) i key val IntComp)"
      using d lt zip_addr_NULL [OF zl] by (simp add: fuel)
    moreover have "?P fuel' (Fr True a c k v r # cs) l" if "l \<noteq> Lf"
      using Nd.IH(1) [OF zl that] Nd.prems(3,4) by (simp add: fuel)
    moreover note linked_at_Lf [of b i t True a c k v r cs, OF _ i]
    ultimately have "found_at b (insert_loop fuel t a i key val IntComp) key val (plug (Fr True a c k v r # cs) l) \<or>
        linked_at b (insert_loop fuel t a i key val IntComp) i key val (Fr True a c k v r # cs) l"
      using zl by (cases "l = Lf") simp_all
    then show ?thesis using lt
        linked_at_up [OF _ srt(1), of b "insert_loop fuel t a i key val IntComp" i key val cs]
      by auto
  next
    case gt
    have "insert_loop fuel t a i key val IntComp = (if r = Lf
        then do { t' \<leftarrow> if False then set_left t a i else set_right t a i; Some (t', Some a) }
        else insert_loop fuel' t (addr r) i key val IntComp)"
      using d gt zip_addr_NULL [OF zr] by (simp add: fuel)
    moreover have "?P fuel' (Fr False a c k v l # cs) r" if "r \<noteq> Lf"
      using Nd.IH(2) [OF zr that] Nd.prems(3,4) by (simp add: fuel)
    moreover note linked_at_Lf [of b i t False a c k v l cs, OF _ i]
    ultimately have "found_at b (insert_loop fuel t a i key val IntComp) key val (plug (Fr False a c k v l # cs) r) \<or>
        linked_at b (insert_loop fuel t a i key val IntComp) i key val (Fr False a c k v l # cs) r"
      using zr by (cases "r = Lf") simp_all
    then show ?thesis using gt
        linked_at_up [OF _ srt(2), of b "insert_loop fuel t a i key val IntComp" i key val cs]
      by auto
  qed
qed

subsection \<open>The predecessor\<close>

lemma plug_append: "plug (cs @ cs') x = plug cs' (plug cs x)"
  by (induction cs x rule: plug.induct) simp_all

lemma zip_append: "zip_at b E t (cs @ cs') x \<longleftrightarrow> zip_at b E t cs' (plug cs x)"
  by (induction cs x rule: plug.induct) (simp_all add: zip_up)

lemma cl_append: "cl (cs @ cs') = cl cs' @ cl cs"
  by (induction cs rule: cl.induct) simp_all

lemma cr_append: "cr (cs @ cs') = cr cs @ cr cs'"
  by (induction cs rule: cr.induct) simp_all

lemma maximum_node_ok:
  assumes "zip_at b E t cs x" and "x \<noteq> Lf" and "height x \<le> fuel"
  shows "\<exists>cs' p c k v l. maximum_node fuel t (addr x) = Some p \<and> x = plug cs' (Nd p c k v l Lf) \<and>
           cr cs' = []"
  using assms
proof (induction x arbitrary: cs fuel)
  case Lf
  then show ?case by simp
next
  case (Nd a c k v l r)
  obtain fuel' where fuel: "fuel = Suc fuel'" using Nd.prems(3) by (cases fuel) auto
  note z = Nd.prems(1)
  note d = deref_focus [OF z] and a = zip_focus_ne_NULL [OF z]
  have zr: "zip_at b E t (Fr False a c k v l # cs) r" by (fact z [unfolded zip_right])
  show ?case
  proof (cases "r = Lf")
    case True
    have "Nd a c k v l r = plug [] (Nd a c k v l Lf)" using True by simp
    moreover have "maximum_node fuel t a = Some a" using True d a by (simp add: fuel)
    ultimately show ?thesis by fastforce
  next
    case False
    obtain cs' p c' k' v' l' where p: "maximum_node fuel' t (addr r) = Some p"
      "r = plug cs' (Nd p c' k' v' l' Lf)" "cr cs' = []"
      using Nd.IH(2) [OF zr False, of fuel'] Nd.prems(3) by (auto simp: fuel)
    have "Nd a c k v l r = plug (cs' @ [Fr False a c k v l]) (Nd p c' k' v' l' Lf)"
      "cr (cs' @ [Fr False a c k v l]) = []"
      using p by (simp_all add: plug_append cr_append)
    moreover have "maximum_node fuel t a = Some p"
      using False d a p(1) zip_addr_NULL [OF zr] by (simp add: fuel)
    ultimately show ?thesis by (metis addr.simps(2))
  qed
qed

section \<open>Unlinking\<close>

lemma rbt_ok_0: "rbt_ok 0 x \<Longrightarrow> col x = BLACK \<Longrightarrow> x = Lf"
  by (cases x) auto

fun blacken :: "'v atree \<Rightarrow> 'v atree" where
  "blacken Lf = Lf"
| "blacken (Nd a c k v l r) = Nd a BLACK k v l r"

lemma ino_blacken [simp]: "ino (blacken x) = ino x"
  by (cases x) simp_all

lemma rb_blacken: "rbt_ok h x \<Longrightarrow> rb (blacken x)"
proof (cases x)
  case (Nd a c k v l r)
  assume "rbt_ok h x"
  then have "rbt_ok (if c = RED then Suc h else h) (blacken x)"
    using Nd by (cases c) simp_all
  then show ?thesis using Nd unfolding rb_def by auto
qed (auto simp: rb_def)

lemma replace_tail:
  assumes z: "zip_at b {} t cs (Nd n c k v l r)" and x: "l = Lf \<and> x = r \<or> r = Lf \<and> x = l"
  shows "yields (do {
      t \<leftarrow> replace_node t n (addr x);
      nn \<leftarrow> deref t n;
      t \<leftarrow> (if nparent nn = NULL \<and> addr x \<noteq> NULL then set_color t (addr x) BLACK else Some t);
      Some (free_node t n) }) b {} cs (if cs = [] then blacken x else x)"
proof -
  obtain t' nn where t': "replace_node t n (addr x) = Some t'" and z': "zip_at b {n} t' cs x"
    and nn: "deref t' n = Some nn" "nparent nn = caddr cs"
    using replace_node_focus [OF z x] by blast
  have cs: "caddr cs = NULL \<longleftrightarrow> cs = []"
    using z by (auto simp: zip_at_def shape_def dest: caddr_NULL_iff)
  show ?thesis
  proof (cases "cs = [] \<and> x \<noteq> Lf")
    case True
    then obtain a c' k' v' l' r' where x': "x = Nd a c' k' v' l' r'" by (cases x) auto
    obtain t'' where "set_color t' a BLACK = Some t''" "zip_at b {n} t'' cs (Nd a BLACK k' v' l' r')"
      using set_color_focus [OF z' [unfolded x']] by (rule yieldsE)
    then show ?thesis
      using True x' t' nn cs zip_addr_NULL [OF z'] free_node_focus [of b n "{}" t'' cs]
      by (simp add: yields_def)
  next
    case False
    then show ?thesis
      using t' nn cs zip_addr_NULL [OF z'] free_node_focus [OF z'] by (auto simp: yields_def)
  qed
qed

text \<open>Before \<open>replace_node\<close> the context accepts the only child, or there is none and it is the root.\<close>

lemma unlink_repair:
  assumes z: "zip_at b {} t cs (Nd n c k v l r)" and x: "l = Lf \<and> x = r \<or> r = Lf \<and> x = l"
    and ok: "rbt_ok h (Nd n c k v l r)" "ctx_ok cs c h"
  shows "\<exists>t' cs' c'. (if c = BLACK then do {
            cc \<leftarrow> node_color t (addr x);
            t \<leftarrow> set_color t n cc;
            delete_case1 (brk t) t n } else Some t) = Some t' \<and>
      zip_at b {} t' cs' (Nd n c' k v l r) \<and> rbt_ok 0 x \<and>
      (cs' = [] \<and> cs = [] \<or> ctx_ok cs' (col x) 0) \<and> cl cs' = cl cs \<and> cr cs' = cr cs"
proof (cases c)
  case RED
  then have "h = 0" "rbt_ok 0 x" "col x = BLACK" using ok x by auto
  then show ?thesis using RED ok z ctx_ok_BLACK by fastforce
next
  case BLACK
  then obtain h' where "h = Suc h'" "rbt_ok h' l" "rbt_ok h' r" using ok by (cases h) auto
  then have h: "h = Suc 0" "rbt_ok 0 x" using x by auto
  have cx: "node_color t (addr x) = Some (col x)"
    using color_child [OF z] x by auto
  obtain t1 where t1: "set_color t n (col x) = Some t1" and z1: "zip_at b {} t1 cs (Nd n (col x) k v l r)"
    using set_color_focus [OF z] by (rule yieldsE)
  have b: "brk t1 = b" using z1 by (simp add: zip_at_def foot_def)
  have ctx: "ctx_ok cs BLACK (Suc 0)" using ok BLACK h by simp
  from delete_case1_ok [OF z1 ctx zip_fuel(2) [OF z1]]
  consider "cs = []" "delete_case1 b t1 n = Some t1"
    | "repaired (delete_case1 b t1 n) b {} 0 cs (Nd n (col x) k v l r)"
    by blast
  then show ?thesis
  proof cases
    case 1
    then show ?thesis using BLACK cx t1 z1 b h by auto
  next
    case 2
    then obtain t2 cs' where "delete_case1 b t1 n = Some t2" "zip_at b {} t2 cs' (Nd n (col x) k v l r)"
      "ctx_ok cs' RED 0" "cl cs' = cl cs" "cr cs' = cr cs"
      by (auto simp: repaired_def)
    moreover have "ctx_ok cs' (col x) 0"
      using \<open>ctx_ok cs' RED 0\<close> ctx_ok_BLACK by (cases "col x") auto
    ultimately show ?thesis using BLACK cx t1 b h by auto
  qed
qed

lemma delete_unlink_ok:
  assumes z: "zip_at b {} t cs (Nd n c k v l r)" and lr: "l = Lf \<or> r = Lf"
    and ok: "rb (plug cs (Nd n c k v l r))"
  shows "\<exists>x. yields (delete_unlink t n) b {} [] x \<and> rb x \<and> ino x = cl cs @ ino l @ ino r @ cr cs"
proof -
  obtain h where h: "rbt_ok h (Nd n c k v l r)" "ctx_ok cs c h" using plug_okD [OF ok] by auto
  define x where "x = (if r = Lf then l else r)"
  have x: "l = Lf \<and> x = r \<or> r = Lf \<and> x = l" using lr by (auto simp: x_def)
  obtain t' cs' c' where t': "(if c = BLACK then do {
            cc \<leftarrow> node_color t (addr x);
            t \<leftarrow> set_color t n cc;
            delete_case1 (brk t) t n } else Some t) = Some t'"
      and z': "zip_at b {} t' cs' (Nd n c' k v l r)"
      and ok': "rbt_ok 0 x" "cs' = [] \<and> cs = [] \<or> ctx_ok cs' (col x) 0" 
      and ino': "cl cs' = cl cs" "cr cs' = cr cs"
    using unlink_repair [OF z x h] by blast
  let ?y = "if cs' = [] then blacken x else x"
  have l: "addr l = NULL \<longleftrightarrow> l = Lf" and r: "addr r = NULL \<longleftrightarrow> r = Lf"
    by (rule zip_addr_NULL, rule z [unfolded zip_left], rule zip_addr_NULL, rule z [unfolded zip_right])
  have child: "(if addr r = NULL then addr l else addr r) = addr x"
    and lr': "(addr l = NULL \<or> addr r = NULL) = True"
    using l r lr by (auto simp: x_def)
  have "node_color t n = Some c" using color_focus [OF z] by simp
  then have "delete_unlink t n = do {
      t \<leftarrow> replace_node t' n (addr x);
      nn \<leftarrow> deref t n;
      t \<leftarrow> (if nparent nn = NULL \<and> addr x \<noteq> NULL then set_color t (addr x) BLACK else Some t);
      Some (free_node t n) }"
    by (simp only: delete_unlink_def deref_focus [OF z] Option.bind.simps rbtree_node.select_convs
        child lr' c_assert_True Let_def t')
  then have "yields (delete_unlink t n) b {} cs' ?y" using replace_tail [OF z' x] by simp
  then have "yields (delete_unlink t n) b {} [] (plug cs' ?y)"
    unfolding yields_def zip_plug [of b _ _ cs'] .
  moreover have "rb (plug cs' ?y)"
    using ok' rb_blacken plug_ok by (cases "cs' = []") auto
  moreover have "ino (plug cs' ?y) = cl cs @ ino l @ ino r @ cr cs"
    using x ino' by (auto simp: ino_plug)
  ultimately show ?thesis by blast
qed

section \<open>The operations on whole trees\<close>

text \<open>
  \<open>rbtree_entries t xs\<close>: the heap of \<open>t\<close> is a red-black tree, its nodes are the only allocated
  ones, and its entries are \<open>xs\<close> in strictly increasing key order.
\<close>

definition rbtree_entries :: "'v rbtree \<Rightarrow> (ULONG \<times> 'v) list \<Rightarrow> bool" where
  "rbtree_entries t xs \<longleftrightarrow>
     0 < brk t \<and> (\<exists>x. zip_at (brk t) {} t [] x \<and> rb x \<and> ino x = xs \<and> srt xs)"

definition rbtree_repr :: "'v rbtree \<Rightarrow> (ULONG \<rightharpoonup> 'v) \<Rightarrow> bool" where
  "rbtree_repr t m \<longleftrightarrow> (\<exists>xs. rbtree_entries t xs \<and> m = map_of xs)"

lemma entries_yields:
  assumes "yields m b {} [] x" and "0 < b" and "rb x" and "ino x = xs" and "srt xs"
  shows "\<exists>t. m = Some t \<and> rbtree_entries t xs"
  using assms by (auto simp: yields_def rbtree_entries_def zip_at_def foot_def)

lemma rbtree_entriesE:
  assumes "rbtree_entries t xs"
  obtains x where "zip_at (brk t) {} t [] x" and "rb x" and "ino x = xs" and "srt xs"
    and "0 < brk t" and "root t = addr x"
  using assms by (auto simp: rbtree_entries_def zip_at_def shape_def)

lemma srt_distinct: "srt xs \<Longrightarrow> distinct (map fst xs)"
  unfolding srt_def using strict_sorted_iff by blast

lemma srt_map_of: "srt xs \<Longrightarrow> map_of xs k = Some v \<longleftrightarrow> (k, v) \<in> set xs"
  by (simp add: srt_distinct)

definition key_dir :: "ULONG \<Rightarrow> ULONG \<times> 'v \<Rightarrow> int" where
  "key_dir key kv = (if key > fst kv then 1 else if key < fst kv then - 1 else 0)"

lemma key_dir_0 [simp]: "key_dir key kv = 0 \<longleftrightarrow> fst kv = key"
  by (auto simp: key_dir_def)

lemma srt_key_dir: "srt xs \<Longrightarrow> sorted_wrt (\<lambda>p q. 0 < key_dir key p \<or> key_dir key q < 0) xs"
  unfolding srt_def sorted_wrt_map by (rule sorted_wrt_mono_rel) (auto simp: key_dir_def)

lemma IntComp_dir: "IntComp (Some nn) key (nkey nn) = Some (key_dir key (nkey nn, nvalue nn))"
  by (simp add: IntComp_def key_dir_def)

lemma hits_map_of:
  assumes "srt xs" and h: "hits b E t (key_dir key) x xs p"
  shows "case map_of xs key of
      None \<Rightarrow> p = NULL
    | Some v \<Rightarrow> p \<noteq> NULL \<and> (\<exists>nn. deref t p = Some nn \<and> nkey nn = key \<and> nvalue nn = v)"
proof (cases "map_of xs key")
  case None
  then have "\<not> (\<exists>kv \<in> set xs. key_dir key kv = 0)" by (auto simp: map_of_eq_None_iff)
  then show ?thesis using h None by (simp add: hits_def)
next
  case (Some v)
  then have "\<exists>kv \<in> set xs. key_dir key kv = 0"
    by (intro bexI [of _ "(key, v)"]) (auto dest: map_of_SomeD)
  then obtain cs c v' l r where "zip_at b E t cs (Nd p c key v' l r)" "(key, v') \<in> set xs"
    using h by (auto simp: hits_def)
  moreover from this have "v' = v" using Some srt_map_of [OF assms(1)] by (metis option.inject)
  ultimately show ?thesis using Some deref_focus zip_focus_ne_NULL by fastforce
qed

lemma lookup_loop_hits:
  assumes "zip_at (brk t) {} t [] x" and "srt (ino x)" and "height x \<le> n"
  shows "\<exists>p. lookup_loop n t (root t) key IntComp = Some p \<and>
           hits (brk t) {} t (key_dir key) x (ino x) p"
proof -
  have "root t = addr x" using assms(1) by (simp add: zip_at_def shape_def)
  then show ?thesis
    using lookup_loop_dir [OF assms(1,3) IntComp_dir srt_key_dir [OF assms(2)], of key] by simp
qed

lemma lookup_node_hits:
  assumes "zip_at (brk t) {} t [] x" and "srt (ino x)"
  shows "\<exists>p. lookup_node t key IntComp = Some p \<and> hits (brk t) {} t (key_dir key) x (ino x) p"
  using lookup_loop_hits [OF assms zip_fuel(1) [OF assms(1)]] by (simp add: lookup_node_def)

lemma rbtree_lookup_entries:
  assumes "rbtree_entries t xs"
  shows "rbtree_lookup t key IntComp = Some (map_of xs key)"
proof -
  obtain x where x: "zip_at (brk t) {} t [] x" "ino x = xs" "srt xs"
    using assms by (rule rbtree_entriesE)
  then obtain p where p: "lookup_node t key IntComp = Some p" "hits (brk t) {} t (key_dir key) x xs p"
    using lookup_node_hits by blast
  show ?thesis using p(1) hits_map_of [OF x(3) p(2)]
    by (auto simp: rbtree_lookup_def split: option.splits)
qed

lemma rbtree_create_entries: "rbtree_entries rbtree_create []"
  by (simp add: rbtree_entries_def rbtree_create_def zip_at_def shape_def foot_def rb_def
      exI [of _ Lf])

text \<open>The list of entries after \<open>rbtree_insert\<close> and after \<open>rbtree_delete\<close>.\<close>

definition ins_entry :: "ULONG \<Rightarrow> 'v \<Rightarrow> (ULONG \<times> 'v) list \<Rightarrow> (ULONG \<times> 'v) list" where
  "ins_entry key val xs = filter (\<lambda>kv. fst kv < key) xs @ (key, val) # filter (\<lambda>kv. key < fst kv) xs"

definition del_entry :: "ULONG \<Rightarrow> (ULONG \<times> 'v) list \<Rightarrow> (ULONG \<times> 'v) list" where
  "del_entry key xs = filter (\<lambda>kv. fst kv \<noteq> key) xs"

lemma srt_filter: "srt xs \<Longrightarrow> srt (filter P xs)"
  by (induction xs) auto

lemma srt_ins_entry: "srt xs \<Longrightarrow> srt (ins_entry key val xs)"
  by (auto simp: ins_entry_def srt_filter)

lemma ins_entry_split:
  assumes "\<forall>p \<in> set xs. fst p < key" and "\<forall>q \<in> set ys. key < fst q"
  shows "ins_entry key val (xs @ ys) = xs @ (key, val) # ys"
    and "ins_entry key val (xs @ (key, v0) # ys) = xs @ (key, val) # ys"
    and "del_entry key (xs @ (key, v0) # ys) = xs @ ys"
proof -
  have "filter (\<lambda>kv. fst kv < key) xs = xs" "filter (\<lambda>kv. key < fst kv) xs = []"
    "filter (\<lambda>kv. fst kv < key) ys = []" "filter (\<lambda>kv. key < fst kv) ys = ys"
    "filter (\<lambda>kv. fst kv \<noteq> key) xs = xs" "filter (\<lambda>kv. fst kv \<noteq> key) ys = ys"
    using assms by (auto simp: filter_id_conv filter_empty_conv dest: less_asym)
  then show "ins_entry key val (xs @ ys) = xs @ (key, val) # ys"
    "ins_entry key val (xs @ (key, v0) # ys) = xs @ (key, val) # ys"
    "del_entry key (xs @ (key, v0) # ys) = xs @ ys"
    by (simp_all add: ins_entry_def del_entry_def)
qed

lemma srt_entry_split:
  assumes "srt (xs @ (key, v0) # ys)"
  shows "ins_entry key val (xs @ (key, v0) # ys) = xs @ (key, val) # ys"
    and "del_entry key (xs @ (key, v0) # ys) = xs @ ys"
  using assms by (intro ins_entry_split; simp)+

lemma map_of_ins_entry: "srt xs \<Longrightarrow> map_of (ins_entry key val xs) = (map_of xs)(key \<mapsto> val)"
proof (induction xs)
  case (Cons kv xs)
  consider "fst kv < key" | "fst kv = key" | "key < fst kv" by force
  then show ?case
  proof cases
    case 2
    then show ?thesis using Cons ins_entry_split(2) [of "[]" key xs val "snd kv"]
      by (cases kv) (auto intro!: ext)
  next
    case 3
    then show ?thesis using Cons ins_entry_split(1) [of "[]" key "kv # xs" val] less_trans
      by (cases kv) (fastforce intro!: ext)
  qed (use Cons in \<open>auto simp: ins_entry_def fun_eq_iff\<close>)
qed (auto simp: ins_entry_def)

lemma map_of_del_entry: "map_of (del_entry key xs) = (map_of xs)(key := None)"
  by (induction xs) (auto simp: del_entry_def fun_eq_iff)

lemma new_node_ok:
  assumes z: "zip_at b {} t [] x" and "0 < b"
  shows "\<exists>t'. new_node t key val RED NULL NULL = Some (t', b) \<and> zip_at (Suc b) {b} t' [] x \<and>
    deref t' b = Some \<lparr>nkey = key, nvalue = val, nleft = NULL, nright = NULL,
              nparent = NULL, ncolor = RED\<rparr> \<and> (x = Lf \<longrightarrow>
    zip_at (Suc b) {} (t'\<lparr>root := b\<rparr>) [] (Nd b RED key val Lf Lf))"
proof -
  have "b \<notin> set (addrs x)" "brk t = b" using z by (auto simp: zip_at_def foot_def)
  then show ?thesis using assms
    by (auto simp: new_node_def field_defs zip_at_def shape_def foot_def less_Suc_eq)
qed

lemma insert_found:
  assumes "found_at b m key val x" and "rb x" and "srt (ino x)"
  shows "\<exists>t y. m = Some (t, None) \<and> zip_at b {} t [] y \<and> rb y \<and> ino y = ins_entry key val (ino x)"
proof -
  obtain t cs n c v0 l r where m: "m = Some (t, None)" and z: "zip_at b {} t cs (Nd n c key val l r)"
    and x: "x = plug cs (Nd n c key v0 l r)"
    using assms(1) unfolding found_at_def by blast
  obtain h where "rbt_ok h (Nd n c key v0 l r)" "ctx_ok cs c h"
    using plug_okD assms(2) x by fastforce
  then have "rbt_ok h (Nd n c key val l r)" "ctx_ok cs (col (Nd n c key val l r)) h"
    by (cases c; simp)+
  then have "rb (plug cs (Nd n c key val l r))" by (rule plug_ok)
  moreover have "ino (plug cs (Nd n c key val l r)) = ins_entry key val (ino x)"
    using assms(3) srt_entry_split(1) [of "cl cs @ ino l" key v0 "ino r @ cr cs" val]
    by (simp add: x ino_plug)
  ultimately show ?thesis using m zip_plug z by blast
qed

lemma insert_linked:
  assumes "linked_at b m i key val [] x" and "rb x"
  shows "\<exists>t p t' y. m = Some (t, Some p) \<and> set_parent t i p = Some t' \<and>
    yields (insert_case1 (brk t') t' i) b {} [] y \<and> rb y \<and> ino y = ins_entry key val (ino x)"
proof -
  obtain t cs xs ys where m: "m = Some (t, Some (caddr cs))"
      and y: "yields (set_parent t i (caddr cs)) b {} cs (Nd i RED key val Lf Lf)"
      and x: "x = plug cs Lf" "ino x = xs @ ys" "cl cs = xs" "cr cs = ys"
      "\<forall>p \<in> set xs. fst p < key" "\<forall>q \<in> set ys. key < fst q"
    using assms(1) unfolding linked_at_def by auto
  obtain t' where t': "set_parent t i (caddr cs) = Some t'"
    and z: "zip_at b {} t' cs (Nd i RED key val Lf Lf)" using y by (rule yieldsE)
  have b: "brk t' = b" using z by (simp add: zip_at_def foot_def)
  have ctx: "ctx_ok cs BLACK 0" using plug_okD [of cs Lf] assms(2) x(1) by auto
  obtain y where y: "yields (insert_case1 b t' i) b {} [] y" "rb y"
    "ino y = ino (plug cs (Nd i RED key val Lf Lf))"
    using insert_case1_ok [OF z _ ctx, of b] zip_fuel(2) [OF z] by auto
  have "ino y = ins_entry key val (ino x)"
    using y(3) x ins_entry_split(1) [of xs key ys val] by (simp add: ino_plug)
  then show ?thesis using m t' y(1,2) b by blast
qed

lemma rbtree_insert_entries:
  assumes "rbtree_entries t xs"
  shows "\<exists>t'. rbtree_insert t key val IntComp = Some t' \<and> rbtree_entries t' (ins_entry key val xs)"
proof -
  obtain x where z: "zip_at (brk t) {} t [] x" "0 < brk t" and x: "rb x" "ino x = xs" "srt xs"
    using assms by (rule rbtree_entriesE)
  let ?b = "Suc (brk t)"
  obtain t1 where n: "new_node t key val RED NULL NULL = Some (t1, brk t)"
    and z1: "zip_at ?b {brk t} t1 [] x"
    and i: "deref t1 (brk t) = Some \<lparr>nkey = key, nvalue = val, nleft = NULL, nright = NULL,
              nparent = NULL, ncolor = RED\<rparr>"
    and empty: "x = Lf \<longrightarrow> zip_at ?b {} (t1\<lparr>root := brk t\<rparr>) [] (Nd (brk t) RED key val Lf Lf)"
    using new_node_ok [OF z] by blast
  have t1: "root t1 = addr x" "brk t1 = ?b" "addr x = NULL \<longleftrightarrow> x = Lf"
    using z1 zip_addr_NULL [OF z1] by (auto simp: zip_at_def shape_def foot_def)
  have "\<exists>y. yields (rbtree_insert t key val IntComp) ?b {} [] y \<and> rb y \<and> ino y = ins_entry key val xs"
  proof (cases "x = Lf")
    case True
    then have "zip_at ?b {} (t1\<lparr>root := brk t\<rparr>) [] (Nd (brk t) RED key val Lf Lf)" using empty by blast
    then show ?thesis
      using insert_case1_ok [of ?b "{}" _ "[]" _ _ _ _ _ 0 ?b] True t1 x
      by (fastforce simp: rbtree_insert_def n ins_entry_def)
  next
    case False
    let ?m = "insert_loop ?b t1 (root t1) (brk t) key val IntComp"
    have "found_at ?b ?m key val x \<or> linked_at ?b ?m (brk t) key val [] x"
      using insert_loop_ok [OF z1 False zip_fuel(1) [OF z1] _ i] x t1 by simp
    then show ?thesis
    proof
      assume "found_at ?b ?m key val x"
      from insert_found [OF this] show ?thesis
        using x t1 False
        by (auto simp: rbtree_insert_def n yields_def simp del: insert_loop.simps)
    next
      assume "linked_at ?b ?m (brk t) key val [] x"
      from insert_linked [OF this x(1)] show ?thesis
        using x t1 False
        by (auto simp: rbtree_insert_def n simp del: insert_loop.simps)
    qed
  qed
  then show ?thesis using entries_yields srt_ins_entry [OF x(3)] by blast
qed

lemma delete_two_children:
  assumes z: "zip_at b {} t cs (Nd n c k v l r)" and l: "l \<noteq> Lf" and ok: "rb (plug cs (Nd n c k v l r))"
  shows "\<exists>pred pp t' t'' x. maximum_node b t (addr l) = Some pred \<and> deref t pred = Some pp \<and>
    set_key t n (nkey pp) = Some t' \<and> set_value t' n (nvalue pp) = Some t'' \<and>
    yields (delete_unlink t'' pred) b {} [] x \<and> rb x \<and> ino x = cl cs @ ino l @ ino r @ cr cs"
proof -
  have zl: "zip_at b {} t (Fr True n c k v r # cs) l" by (fact z [unfolded zip_left])
  obtain cs' p cp kp vp lp where p: "maximum_node b t (addr l) = Some p"
      and lp: "l = plug cs' (Nd p cp kp vp lp Lf)" "cr cs' = []"
    using maximum_node_ok [OF zl l zip_fuel(1) [OF zl]] by blast
  have zp: "zip_at b {} t (cs' @ Fr True n c k v r # cs) (Nd p cp kp vp lp Lf)"
    using zl by (simp add: lp(1) zip_append)
  obtain t' where t': "set_key t n kp = Some t'" and z': "zip_at b {} t' cs (Nd n c kp v l r)"
    using set_key_focus [OF z] by (rule yieldsE)
  obtain t'' where t'': "set_value t' n vp = Some t''" and z'': "zip_at b {} t'' cs (Nd n c kp vp l r)"
    using set_value_focus [OF z'] by (rule yieldsE)
  have "zip_at b {} t'' (cs' @ Fr True n c kp vp r # cs) (Nd p cp kp vp lp Lf)"
    using z'' by (simp add: lp(1) zip_append zip_up)
  moreover have "rb (plug (cs' @ Fr True n c kp vp r # cs) (Nd p cp kp vp lp Lf))"
  proof -
    obtain h where "rbt_ok h (Nd n c k v l r)" "ctx_ok cs c h" using plug_okD [OF ok] by auto
    then have "rbt_ok h (Nd n c kp vp l r)" "ctx_ok cs (col (Nd n c kp vp l r)) h"
      by (cases c; simp)+
    then have "rb (plug cs (Nd n c kp vp l r))" by (rule plug_ok)
    then show ?thesis by (simp add: plug_append lp(1))
  qed
  ultimately obtain x where "yields (delete_unlink t'' p) b {} [] x" "rb x"
      "ino x = cl (cs' @ Fr True n c kp vp r # cs) @ ino lp @ cr (cs' @ Fr True n c kp vp r # cs)"
    using delete_unlink_ok by fastforce
  moreover have "ino l = cl cs' @ ino lp @ [(kp, vp)]" using lp by (simp add: ino_plug)
  ultimately show ?thesis
    using p t' t'' deref_focus [OF zp] lp(2) by (auto simp: cl_append cr_append)
qed

lemma rbtree_delete_entries:
  assumes "rbtree_entries t xs"
  shows "\<exists>t'. rbtree_delete t key IntComp = Some t' \<and> rbtree_entries t' (del_entry key xs)"
proof -
  obtain x where z: "zip_at (brk t) {} t [] x" "0 < brk t" and x: "rb x" "ino x = xs" "srt xs"
    using assms by (rule rbtree_entriesE)
  obtain p where p: "lookup_node t key IntComp = Some p" "hits (brk t) {} t (key_dir key) x xs p"
    using lookup_node_hits [OF z(1)] x by blast
  show ?thesis
  proof (cases "\<exists>kv \<in> set xs. key_dir key kv = 0")
    case False
    then have "del_entry key xs = xs" by (auto simp: del_entry_def filter_id_conv)
    then show ?thesis using False p assms by (simp add: hits_def rbtree_delete_def)
  next
    case True
    then obtain cs c v l r where zp: "zip_at (brk t) {} t cs (Nd p c key v l r)"
      and px: "plug cs (Nd p c key v l r) = x"
      using p(2) by (auto simp: hits_def)
    have del: "del_entry key xs = cl cs @ ino l @ ino r @ cr cs"
      using x(2,3) srt_entry_split(2) [of "cl cs @ ino l" key v "ino r @ cr cs"]
      by (simp add: px [symmetric] ino_plug)
    have l: "addr l = NULL \<longleftrightarrow> l = Lf" and r: "addr r = NULL \<longleftrightarrow> r = Lf"
      by (rule zip_addr_NULL, rule zp [unfolded zip_left], rule zip_addr_NULL,
          rule zp [unfolded zip_right])
    have "\<exists>y. yields (rbtree_delete t key IntComp) (brk t) {} [] y \<and> rb y \<and> ino y = del_entry key xs"
    proof (cases "l = Lf \<or> r = Lf")
      case True
      then show ?thesis
        using delete_unlink_ok [OF zp True] x(1) px l r zip_focus_ne_NULL [OF zp]
        by (auto simp: rbtree_delete_def p(1) deref_focus [OF zp] del)
    next
      case False
      then show ?thesis
        using delete_two_children [OF zp] x(1) px l r zip_focus_ne_NULL [OF zp]
        by (auto simp: rbtree_delete_def p(1) deref_focus [OF zp] del)
    qed
    then show ?thesis using entries_yields z(2) srt_filter [OF x(3)] by (metis del_entry_def)
  qed
qed

end
