(* ===== verification/Rbtree_Props.thy ===== *)
theory Rbtree_Props
  imports Rbtree_Map
begin

text \<open>
  What the rest of the allocator relies on in \<open>pvmobj/rbtree.cc\<close>: the contract of the ordered
  map, the exact meaning of the self checks of \<open>VERIFY_RBTREE\<close>, the logarithmic depth of a
  search, and that no node leaks.
\<close>

section \<open>Self checks\<close>

fun nrr :: "rbtree_node_color \<Rightarrow> 'v atree \<Rightarrow> bool" where
  "nrr pc Lf = True"
| "nrr pc (Nd a c k v l r) = (\<not> (pc = RED \<and> c = RED) \<and> nrr c l \<and> nrr c r)"

fun bh :: "nat \<Rightarrow> 'v atree \<Rightarrow> bool" where
  "bh h Lf = (h = 0)"
| "bh h (Nd a c k v l r) =
     (\<exists>h'. h = (if c = BLACK then Suc h' else h') \<and> bh h' l \<and> bh h' r)"

fun fcol :: "'v frame list \<Rightarrow> rbtree_node_color" where
  "fcol [] = BLACK"
| "fcol (Fr d a c k v s # cs) = c"

lemma nrr_RED: "nrr RED x \<longleftrightarrow> nrr BLACK x \<and> col x = BLACK"
  by (cases x; cases "col x") auto

lemma rbt_ok_iff: "rbt_ok h x \<longleftrightarrow> bh h x \<and> nrr BLACK x"
proof (induction x arbitrary: h)
  case (Nd a c k v l r)
  then show ?case by (cases c; cases h) (auto simp: nrr_RED)
qed simp

lemma verify_property_1_ok:
  assumes "zip_at b E t cs x" and "height x \<le> fuel"
  shows "verify_property_1 fuel t (addr x) = Some ()"
  using assms
proof (induction x arbitrary: cs fuel)
  case Lf
  then show ?case by (simp add: verify_property_1.simps node_color_def)
next
  case (Nd a c k v l r)
  obtain fuel' where fuel: "fuel = Suc fuel'" using Nd.prems(2) by (cases fuel) auto
  note z = Nd.prems(1)
  have "verify_property_1 fuel' t (addr l) = Some ()" "verify_property_1 fuel' t (addr r) = Some ()"
    using Nd.IH(1) [OF z [unfolded zip_left]] Nd.IH(2) [OF z [unfolded zip_right]] Nd.prems(2)
    by (simp_all add: fuel)
  then show ?case using deref_focus [OF z] color_focus [OF z]
    by (cases c) (simp_all add: verify_property_1.simps [of "Suc fuel'"] fuel)
qed

lemma color_parent: "zip_at b E t cs x \<Longrightarrow> node_color t (caddr cs) = Some (fcol cs)"
  by (cases cs rule: fcol.cases) (auto simp: node_color_def [of _ NULL] dest: color_frame)

lemma verify_property_4_iff:
  assumes "zip_at b E t cs x" and "height x \<le> fuel"
  shows "verify_property_4 fuel t (addr x) = Some () \<longleftrightarrow> nrr (fcol cs) x"
  using assms
proof (induction x arbitrary: cs fuel)
  case Lf
  then show ?case by (simp add: verify_property_4.simps node_color_def)
next
  case (Nd a c k v l r)
  obtain fuel' where fuel: "fuel = Suc fuel'" using Nd.prems(2) by (cases fuel) auto
  note z = Nd.prems(1)
  have "verify_property_4 fuel' t (addr l) = Some () \<longleftrightarrow> nrr c l"
    "verify_property_4 fuel' t (addr r) = Some () \<longleftrightarrow> nrr c r"
    using Nd.IH(1) [OF z [unfolded zip_left]] Nd.IH(2) [OF z [unfolded zip_right]] Nd.prems(2)
    by (simp_all add: fuel)
  then show ?case
    using deref_focus [OF z] color_focus [OF z] color_child [OF z] color_parent [OF z]
      zip_focus_ne_NULL [OF z]
    by (cases c) (auto simp: verify_property_4.simps [of "Suc fuel'"] fuel nrr_RED c_assert_def
        bind_eq_Some_conv split: if_splits)
qed

lemma verify_property_5_iff:
  assumes "zip_at b E t cs x" and "height x \<le> fuel" and "0 \<le> bc"
  shows "verify_property_5_helper fuel t (addr x) bc p = Some q \<longleftrightarrow>
           (\<exists>h. bh h x \<and> q = bc + int h + 1 \<and> (p = - 1 \<or> p = q))"
  using assms
proof (induction x arbitrary: cs fuel bc p q)
  case Lf
  then show ?case
    by (auto simp: verify_property_5_helper.simps node_color_def c_assert_def Let_def split: if_splits)
next
  case (Nd a c k v l r)
  obtain fuel' where fuel: "fuel = Suc fuel'" using Nd.prems(2) by (cases fuel) auto
  note z = Nd.prems(1)
  define bc' where "bc' = (if c = BLACK then bc + 1 else bc)"
  have "0 \<le> bc'" using Nd.prems(3) by (simp add: bc'_def)
  then have IH: "verify_property_5_helper fuel' t (addr l) bc' p = Some q \<longleftrightarrow>
        (\<exists>h. bh h l \<and> q = bc' + int h + 1 \<and> (p = - 1 \<or> p = q))"
    "verify_property_5_helper fuel' t (addr r) bc' p = Some q \<longleftrightarrow>
        (\<exists>h. bh h r \<and> q = bc' + int h + 1 \<and> (p = - 1 \<or> p = q))" for p q
    using Nd.IH(1) [OF z [unfolded zip_left]] Nd.IH(2) [OF z [unfolded zip_right]] Nd.prems(2)
    by (simp_all add: fuel)
  have "verify_property_5_helper fuel t a bc p = do {
      p' \<leftarrow> verify_property_5_helper fuel' t (addr l) bc' p;
      verify_property_5_helper fuel' t (addr r) bc' p' }"
    using deref_focus [OF z] color_focus [OF z] zip_focus_ne_NULL [OF z]
    by (simp add: verify_property_5_helper.simps [of "Suc fuel'"] fuel bc'_def Let_def)
  then have "verify_property_5_helper fuel t a bc p = Some q \<longleftrightarrow>
      (\<exists>p'. (\<exists>h. bh h l \<and> p' = bc' + int h + 1 \<and> (p = - 1 \<or> p = p')) \<and>
            (\<exists>h. bh h r \<and> q = bc' + int h + 1 \<and> (p' = - 1 \<or> p' = q)))"
    by (auto simp: bind_eq_Some_conv IH)
  also have "\<dots> \<longleftrightarrow> (\<exists>h. bh h l \<and> bh h r \<and> q = bc' + int h + 1 \<and> (p = - 1 \<or> p = q))"
    using \<open>0 \<le> bc'\<close> by (auto; force)
  also have "\<dots> \<longleftrightarrow> (\<exists>h. bh h (Nd a c k v l r) \<and> q = bc + int h + 1 \<and> (p = - 1 \<or> p = q))"
    by (auto simp: bc'_def)
  finally show ?case by simp
qed

lemma verify_properties_zip:
  assumes z: "zip_at (brk t) E t [] x"
  shows "verify_properties t = Some () \<longleftrightarrow> rb x"
proof -
  note f = zip_fuel(1) [OF z]
  have r: "root t = addr x" using z by (simp add: zip_at_def shape_def)
  have "verify_property_5 t (addr x) = Some () \<longleftrightarrow> (\<exists>h. bh h x)"
    using verify_property_5_iff [OF z f, of 0 "- 1"]
    by (cases "verify_property_5_helper (brk t) t (addr x) 0 (- 1)") (auto simp: verify_property_5_def)
  then show ?thesis
    using verify_property_1_ok [OF z f] verify_property_4_iff [OF z f] color_focus [OF z]
    by (auto simp: verify_properties_def r verify_property_2_def rb_def rbt_ok_iff
        c_assert_def bind_eq_Some_conv split: if_splits)
qed

section \<open>Depth and allocation\<close>

lemma rbt_ok_size: "rbt_ok h x \<Longrightarrow> 2 ^ h \<le> length (ino x) + 1"
proof (induction x arbitrary: h)
  case (Nd a c k v l r)
  then show ?case
  proof (cases c)
    case RED
    then show ?thesis using Nd.IH(1) [of h] Nd.prems by simp
  next
    case BLACK
    then show ?thesis using Nd.IH [of "h - 1"] Nd.prems by (cases h) fastforce+
  qed
qed simp

lemma rbt_ok_height: "rbt_ok h x \<Longrightarrow> height x \<le> 2 * h + (if col x = RED then 1 else 0)"
proof (induction x arbitrary: h)
  case (Nd a c k v l r)
  then show ?case
  proof (cases c)
    case RED
    then show ?thesis using Nd.IH [of h] Nd.prems by simp
  next
    case BLACK
    then obtain h' where h: "h = Suc h'" "rbt_ok h' l" "rbt_ok h' r" using Nd.prems by (cases h) auto
    then have "height l \<le> 2 * h' + 1" "height r \<le> 2 * h' + 1"
      using Nd.IH(1) [OF h(2)] Nd.IH(2) [OF h(3)] by (auto split: if_splits)
    then show ?thesis using BLACK h by simp
  qed
qed simp

lemma rb_height:
  assumes "rb x" and "(length (ino x) + 1)\<^sup>2 \<le> 2 ^ n"
  shows "height x \<le> n"
proof -
  obtain h where h: "rbt_ok h x" "col x = BLACK" using assms(1) by (auto simp: rb_def)
  have "(2::nat) ^ height x \<le> 2 ^ (2 * h)" using rbt_ok_height [OF h(1)] h(2) by (simp add: power_increasing)
  also have "\<dots> = (2 ^ h)\<^sup>2" by (simp add: power_mult [symmetric] mult.commute)
  also have "\<dots> \<le> (length (ino x) + 1)\<^sup>2" using rbt_ok_size [OF h(1)] by (rule power_mono) simp
  also have "\<dots> \<le> 2 ^ n" by (fact assms(2))
  finally show ?thesis by (simp add: power_increasing_iff)
qed

lemma length_addrs: "length (addrs x) = length (ino x)"
  by (induction x) auto

lemma entries_nodes:
  assumes "rbtree_entries t xs"
  shows "card (dom (nodes t)) = length xs"
proof -
  obtain x where "zip_at (brk t) {} t [] x" "ino x = xs" using assms by (rule rbtree_entriesE)
  then show ?thesis by (auto simp: zip_at_def foot_def distinct_card length_addrs)
qed

section \<open>The contract of the ordered map\<close>

text \<open>
  The laws the clients in \<open>pvmobj/nv_map.cc\<close> use. \<open>None\<close> is an operation that fails an assertion
  or dereferences a bad pointer; the laws exclude it on every representing structure.
\<close>

locale ordered_map =
  fixes create :: "'t"
    and lookup :: "'t \<Rightarrow> ULONG \<Rightarrow> 'v option option"
    and ins :: "'t \<Rightarrow> ULONG \<Rightarrow> 'v \<Rightarrow> 't option"
    and del :: "'t \<Rightarrow> ULONG \<Rightarrow> 't option"
    and repr :: "'t \<Rightarrow> (ULONG \<rightharpoonup> 'v) \<Rightarrow> bool"
  assumes repr_create: "repr create Map.empty"
    and lookup_repr: "repr t m \<Longrightarrow> lookup t k = Some (m k)"
    and ins_repr: "repr t m \<Longrightarrow> \<exists>t'. ins t k v = Some t' \<and> repr t' (m(k \<mapsto> v))"
    and del_repr: "repr t m \<Longrightarrow> \<exists>t'. del t k = Some t' \<and> repr t' (m(k := None))"
begin

lemma repr_unique: "repr t m \<Longrightarrow> repr t m' \<Longrightarrow> m = m'"
  using lookup_repr by (metis ext option.inject)

lemma ins_reprD: "ins t k v = Some t' \<Longrightarrow> repr t m \<Longrightarrow> repr t' (m(k \<mapsto> v))"
  using ins_repr [of t m k v] by auto

lemma del_reprD: "del t k = Some t' \<Longrightarrow> repr t m \<Longrightarrow> repr t' (m(k := None))"
  using del_repr [of t m k] by auto

lemma lookup_ins: "repr t m \<Longrightarrow> ins t k v = Some t' \<Longrightarrow>
    lookup t' j = (if j = k then Some (Some v) else lookup t j)"
  by (simp add: lookup_repr [of t m] lookup_repr [OF ins_reprD])

lemma lookup_del: "repr t m \<Longrightarrow> del t k = Some t' \<Longrightarrow>
    lookup t' j = (if j = k then Some None else lookup t j)"
  by (simp add: lookup_repr [of t m] lookup_repr [OF del_reprD])

lemma ins_all_repr:
  "repr t m \<Longrightarrow> \<exists>t'. fold_option (\<lambda>t (k, v). ins t k v) t kvs = Some t' \<and> repr t' (m ++ map_of (rev kvs))"
proof (induction kvs arbitrary: t m)
  case (Cons kv kvs)
  obtain k v where kv: "kv = (k, v)" by (cases kv)
  obtain t1 where t1: "ins t k v = Some t1" "repr t1 (m(k \<mapsto> v))"
    using ins_repr [OF Cons.prems] by blast
  moreover have "m ++ map_of (rev (kv # kvs)) = m(k \<mapsto> v) ++ map_of (rev kvs)"
    by (simp add: kv)
  ultimately show ?case using Cons.IH [OF t1(2)] unfolding kv by (metis case_prod_conv
    fold_option.simps(2) Option.bind.simps(2))
qed simp

end

lemma repr_entriesE:
  assumes "rbtree_repr t m"
  obtains xs where "rbtree_entries t xs" and "m = map_of xs" and "srt xs"
  using assms by (auto simp: rbtree_repr_def rbtree_entries_def)

interpretation rbmap: ordered_map rbtree_create "\<lambda>t k. rbtree_lookup t k IntComp"
  "\<lambda>t k v. rbtree_insert t k v IntComp" "\<lambda>t k. rbtree_delete t k IntComp" rbtree_repr
proof
  show "rbtree_repr rbtree_create Map.empty"
    using rbtree_create_entries by (force simp: rbtree_repr_def)
next
  fix t :: "'a rbtree" and m k
  assume "rbtree_repr t m"
  then show "rbtree_lookup t k IntComp = Some (m k)"
    using rbtree_lookup_entries by (auto simp: rbtree_repr_def)
next
  fix t :: "'a rbtree" and m k and v :: 'a
  assume "rbtree_repr t m"
  then show "\<exists>t'. rbtree_insert t k v IntComp = Some t' \<and> rbtree_repr t' (m(k \<mapsto> v))"
    using rbtree_insert_entries map_of_ins_entry by (metis rbtree_repr_def repr_entriesE)
next
  fix t :: "'a rbtree" and m k
  assume "rbtree_repr t m"
  then show "\<exists>t'. rbtree_delete t k IntComp = Some t' \<and> rbtree_repr t' (m(k := None))"
    using rbtree_delete_entries map_of_del_entry by (metis rbtree_repr_def)
qed

section \<open>Properties\<close>

text \<open>Runs of operations from the empty tree, and the map they build.\<close>

datatype 'v rbtree_op = Ins ULONG 'v | Del ULONG

fun rbtree_step :: "'v rbtree \<Rightarrow> 'v rbtree_op \<Rightarrow> 'v rbtree option" where
  "rbtree_step t (Ins k v) = rbtree_insert t k v IntComp"
| "rbtree_step t (Del k) = rbtree_delete t k IntComp"

fun map_step :: "(ULONG \<rightharpoonup> 'v) \<Rightarrow> 'v rbtree_op \<Rightarrow> (ULONG \<rightharpoonup> 'v)" where
  "map_step m (Ins k v) = m(k \<mapsto> v)"
| "map_step m (Del k) = m(k := None)"

definition rbtree_run :: "'v rbtree_op list \<Rightarrow> 'v rbtree option" where
  "rbtree_run ops = fold_option rbtree_step rbtree_create ops"

lemma rbtree_step_repr:
  "rbtree_repr t m \<Longrightarrow> \<exists>t'. rbtree_step t s = Some t' \<and> rbtree_repr t' (map_step m s)"
  by (cases s) (simp_all add: rbmap.ins_repr rbmap.del_repr)

lemma rbtree_run_repr:
  "\<exists>t. rbtree_run ops = Some t \<and> rbtree_repr t (foldl map_step Map.empty ops)"
proof -
  have "rbtree_repr t m \<Longrightarrow>
      \<exists>t'. fold_option rbtree_step t ops = Some t' \<and> rbtree_repr t' (foldl map_step m ops)"
    for t :: "'a rbtree" and m
  proof (induction ops arbitrary: t m)
    case (Cons s ops)
    obtain t1 where t1: "rbtree_step t s = Some t1" "rbtree_repr t1 (map_step m s)"
      using rbtree_step_repr [OF Cons.prems] by blast
    then show ?case using Cons.IH [OF t1(2)] by simp
  qed simp
  then show ?thesis using rbmap.repr_create unfolding rbtree_run_def by blast
qed

lemma repr_verifies: "rbtree_repr t m \<Longrightarrow> verify_properties t = Some ()"
  by (auto simp: rbtree_repr_def rbtree_entries_def verify_properties_zip)

lemma repr_card:
  assumes "rbtree_repr t m"
  shows "card (dom (nodes t)) = card (dom m)"
proof -
  obtain xs where xs: "rbtree_entries t xs" "m = map_of xs" "srt xs" using assms by (rule repr_entriesE)
  then have "card (dom m) = length xs"
    using srt_distinct [OF xs(3)] by (simp add: dom_map_of_conv_image_fst distinct_card flip: set_map)
  then show ?thesis using entries_nodes [OF xs(1)] by simp
qed

lemma single_insert:
  "\<exists>t. rbtree_insert rbtree_create 7 ''a'' IntComp = Some t \<and> rbtree_repr t [7 \<mapsto> ''a'']"
  by (rule rbmap.ins_repr [OF rbmap.repr_create])

text \<open>
  C5: \<open>rbtree_insert\<close> on a tree that represents a map returns (no assertion fails, no bad pointer is
  read), and the tree it leaves represents the map with the key bound to the new value.
\<close>

theorem rbtree_insert_correct:
  assumes "rbtree_repr t m"
  shows "\<exists>t'. rbtree_insert t key val IntComp = Some t' \<and> rbtree_repr t' (m(key \<mapsto> val))"
  using assms by (rule rbmap.ins_repr)

theorem rbtree_insert_correct_witness:
  "\<exists>t'. rbtree_insert rbtree_create 7 ''a'' IntComp = Some t' \<and> rbtree_repr t' [7 \<mapsto> ''a'']"
  by (rule rbtree_insert_correct [OF rbmap.repr_create])

text \<open>
  C6: \<open>rbtree_delete\<close> on a tree that represents a map returns, and the tree it leaves represents
  the map without the key; a key that is not there leaves the map as it is.
\<close>

theorem rbtree_delete_correct:
  assumes "rbtree_repr t m"
  shows "\<exists>t'. rbtree_delete t key IntComp = Some t' \<and> rbtree_repr t' (m(key := None))"
  using assms by (rule rbmap.del_repr)

theorem rbtree_delete_correct_witness:
  "\<exists>t t'. rbtree_insert rbtree_create 7 ''a'' IntComp = Some t \<and>
     rbtree_delete t 7 IntComp = Some t' \<and> rbtree_repr t' Map.empty"
proof -
  obtain t where t: "rbtree_insert rbtree_create 7 ''a'' IntComp = Some t" "rbtree_repr t [7 \<mapsto> ''a'']"
    using single_insert by blast
  show ?thesis using t(1) rbtree_delete_correct [OF t(2), of 7] by simp
qed

text \<open>
  C7: every sequence of insertions and deletions from \<open>rbtree_create\<close> returns, and afterwards
  \<open>rbtree_lookup\<close> returns for every key what the finite map built by the same operations holds.
\<close>

theorem rbtree_run_refines_map:
  "\<exists>t. rbtree_run ops = Some t \<and>
       (\<forall>key. rbtree_lookup t key IntComp = Some (foldl map_step Map.empty ops key))"
  using rbtree_run_repr [of ops] rbmap.lookup_repr by blast

text \<open>
  C10: on a heap that holds a tree of whatever colours, the self checks of \<open>VERIFY_RBTREE\<close> pass
  exactly when the root is black, no red node has a red child and every path from the root has the
  same number of black nodes.
\<close>

theorem verify_properties_exact:
  assumes "zip_at (brk t) {} t [] x"
  shows "verify_properties t = Some () \<longleftrightarrow>
    col x = BLACK \<and> nrr BLACK x \<and> (\<exists>h. bh h x)"
  using verify_properties_zip [OF assms] by (auto simp: rb_def rbt_ok_iff)

theorem verify_properties_exact_witness:
  "verify_properties (\<lparr>root = 1, nodes = [1 \<mapsto> \<lparr>nkey = 4, nvalue = (), nleft = 0, nright = 0,
      nparent = 0, ncolor = RED\<rparr>], brk = 2\<rparr>) \<noteq> Some ()"
proof -
  have "zip_at 2 {} (\<lparr>root = 1, nodes = [1 \<mapsto> \<lparr>nkey = 4, nvalue = (), nleft = 0, nright = 0,
      nparent = 0, ncolor = RED\<rparr>], brk = 2\<rparr>) [] (Nd 1 RED 4 () Lf Lf)"
    by (simp add: zip_at_def shape_def foot_def)
  then show ?thesis using verify_properties_exact [of "\<lparr>root = 1, nodes = [1 \<mapsto> \<lparr>nkey = 4,
      nvalue = (), nleft = 0, nright = 0, nparent = 0, ncolor = RED\<rparr>], brk = 2\<rparr>"] by simp
qed

text \<open>
  C11: after every sequence of insertions and deletions the self checks of \<open>VERIFY_RBTREE\<close> pass, and
  the tree has exactly one allocated node per key of the map: none leaks, none is freed twice.
\<close>

theorem rbtree_run_invariant:
  "\<exists>t. rbtree_run ops = Some t \<and> verify_properties t = Some () \<and>
       card (dom (nodes t)) = card (dom (foldl map_step Map.empty ops))"
  using rbtree_run_repr [of ops] repr_verifies repr_card by blast

text \<open>
  C12: in a tree with \<open>n\<close> keys the search loop of \<open>lookup_node\<close> ends within
  \<open>2 log\<^sub>2 (n + 1)\<close> iterations: every number of iterations whose power of two reaches
  \<open>(n + 1)\<^sup>2\<close> is enough, with the result of the unbounded loop.
\<close>

theorem lookup_node_logarithmic:
  assumes "rbtree_repr t m" and "(card (dom m) + 1)\<^sup>2 \<le> 2 ^ n"
  shows "\<exists>p. lookup_loop n t (root t) key IntComp = Some p \<and>
    (case m key of None \<Rightarrow> p = NULL | Some v \<Rightarrow> \<exists>nn. deref t p = Some nn \<and> nkey nn = key \<and> nvalue nn = v)"
proof -
  obtain xs where xs: "rbtree_entries t xs" "m = map_of xs" "srt xs" using assms(1) by (rule repr_entriesE)
  obtain x where x: "zip_at (brk t) {} t [] x" "rb x" "ino x = xs" "root t = addr x"
    using xs(1) by (rule rbtree_entriesE)
  have "card (dom m) = length (ino x)" using repr_card [OF assms(1)] entries_nodes [OF xs(1)] x by simp
  then have "height x \<le> n" using rb_height [OF x(2)] assms(2) by simp
  then obtain p where p: "lookup_loop n t (root t) key IntComp = Some p"
      "hits (brk t) {} t (key_dir key) x xs p"
    using lookup_loop_hits [OF x(1)] xs(3) x(3) by blast
  then show ?thesis using hits_map_of [OF xs(3) p(2)] xs(2) by (auto split: option.splits)
qed

theorem lookup_node_logarithmic_witness:
  "\<exists>t p. rbtree_insert rbtree_create 7 ''a'' IntComp = Some t \<and>
     lookup_loop 2 t (root t) 7 IntComp = Some p \<and> (\<exists>nn. deref t p = Some nn \<and> nvalue nn = ''a'')"
proof -
  obtain t where t: "rbtree_insert rbtree_create 7 ''a'' IntComp = Some t" "rbtree_repr t [7 \<mapsto> ''a'']"
    using single_insert by blast
  show ?thesis using t(1) lookup_node_logarithmic [OF t(2), of 2 7] by (auto simp: power2_eq_square)
qed

end
