(* ===== verification/Std_Map.thy ===== *)
theory Std_Map
  imports Nv_Prelude "HOL-Library.Char_ord" "HOL-Library.List_Lexorder"
begin

text \<open>
  The standard library's \<open>std::map\<close>: entries in increasing key order, as its iterators visit
  them. \<open>operator[]\<close> is a lookup that inserts a default first.
\<close>

type_synonym ('k, 'v) std_map = "('k \<times> 'v) list"

fun sm_put :: "'k::linorder \<Rightarrow> 'v \<Rightarrow> ('k, 'v) std_map \<Rightarrow> ('k, 'v) std_map" where
  "sm_put k v [] = [(k, v)]"
| "sm_put k v ((j, w) # m) =
     (if k < j then (k, v) # (j, w) # m
      else if k = j then (k, v) # m
      else (j, w) # sm_put k v m)"

definition sm_erase :: "'k \<Rightarrow> ('k, 'v) std_map \<Rightarrow> ('k, 'v) std_map" where
  "sm_erase k m = filter (\<lambda>(j, w). j \<noteq> k) m"

definition sm_find :: "'k \<Rightarrow> ('k, 'v) std_map \<Rightarrow> 'v option" where
  "sm_find k m = map_of m k"

definition sm_at :: "'k::linorder \<Rightarrow> 'v \<Rightarrow> ('k, 'v) std_map \<Rightarrow> 'v \<times> ('k, 'v) std_map" where
  "sm_at k d m = (case sm_find k m of Some v \<Rightarrow> (v, m) | None \<Rightarrow> (d, sm_put k d m))"

definition sm_ok :: "('k::linorder, 'v) std_map \<Rightarrow> bool" where
  "sm_ok m \<longleftrightarrow> sorted_wrt (<) (map fst m)"

lemma sm_ok_simps [simp]:
  "sm_ok []"
  "sm_ok (kv # m) \<longleftrightarrow> (\<forall>q \<in> set m. fst kv < fst q) \<and> sm_ok m"
  by (simp_all add: sm_ok_def)

lemma set_sm_put: "set (sm_put k v m) \<subseteq> insert (k, v) (set m)"
  by (induction k v m rule: sm_put.induct) auto

lemma sm_ok_put [simp]: "sm_ok m \<Longrightarrow> sm_ok (sm_put k v m)"
proof (induction k v m rule: sm_put.induct)
  case (2 k v j w m)
  have "\<forall>q \<in> set (sm_put k v m). j < fst q" if "j < k"
    using set_sm_put [of k v m] "2.prems" that by auto
  then show ?case using 2 by auto
qed simp

lemma sm_ok_erase [simp]: "sm_ok m \<Longrightarrow> sm_ok (sm_erase k m)"
  by (induction m) (auto simp: sm_erase_def)

lemma sm_find_put [simp]: "sm_find j (sm_put k v m) = (if j = k then Some v else sm_find j m)"
  by (induction k v m rule: sm_put.induct) (auto simp: sm_find_def)

lemma sm_find_erase [simp]: "sm_find j (sm_erase k m) = (if j = k then None else sm_find j m)"
  by (induction m) (auto simp: sm_find_def sm_erase_def)

lemma sm_find_Nil [simp]: "sm_find k [] = None"
  by (simp add: sm_find_def)

lemma sm_ok_distinct: "sm_ok m \<Longrightarrow> distinct (map fst m)"
  unfolding sm_ok_def using strict_sorted_iff by blast

lemma sm_find_eq_Some: "sm_ok m \<Longrightarrow> sm_find k m = Some v \<longleftrightarrow> (k, v) \<in> set m"
  by (simp add: sm_find_def sm_ok_distinct)

lemma sm_find_None: "sm_find k m = None \<longleftrightarrow> k \<notin> fst ` set m"
  by (simp add: sm_find_def map_of_eq_None_iff)

text \<open>Two ordered maps with the same lookups have the same entries in the same order.\<close>

lemma sm_rebuild: "sm_ok m \<Longrightarrow> map (\<lambda>k. (k, the (sm_find k m))) (map fst m) = m"
proof -
  assume "sm_ok m"
  then have "(fst x, the (sm_find (fst x) m)) = x" if "x \<in> set m" for x
    using sm_find_eq_Some [of m "fst x" "snd x"] that by simp
  then show ?thesis by (simp add: map_idI)
qed

lemma sm_ext:
  assumes ok: "sm_ok m" "sm_ok m'" and eq: "\<And>k. sm_find k m = sm_find k m'"
  shows "m = m'"
proof -
  have "set m = set m'"
    using assms sm_find_eq_Some by (metis (no_types, opaque_lifting) subrelI subset_antisym)
  then have "map fst m = map fst m'"
    by (intro strict_sorted_equal) (use ok in \<open>auto simp: sm_ok_def image_iff\<close>)
  then show ?thesis using sm_rebuild [OF ok(1)] sm_rebuild [OF ok(2)] eq by simp
qed

section \<open>Unordered maps\<close>

text \<open>
  \<open>std::unordered_map\<close>: entries with different keys, in the order its iterators happen to visit
  them. A new entry is put last; results that do not depend on the order are stated for every order.
\<close>

type_synonym ('k, 'v) unordered_map = "('k \<times> 'v) list"

fun um_put :: "'k \<Rightarrow> 'v \<Rightarrow> ('k, 'v) unordered_map \<Rightarrow> ('k, 'v) unordered_map" where
  "um_put k v [] = [(k, v)]"
| "um_put k v ((j, w) # m) = (if j = k then (k, v) # m else (j, w) # um_put k v m)"

definition um_find :: "'k \<Rightarrow> ('k, 'v) unordered_map \<Rightarrow> 'v option" where
  "um_find k m = map_of m k"

definition um_erase :: "'k \<Rightarrow> ('k, 'v) unordered_map \<Rightarrow> ('k, 'v) unordered_map" where
  "um_erase k m = filter (\<lambda>(j, w). j \<noteq> k) m"

definition um_at :: "'k \<Rightarrow> 'v \<Rightarrow> ('k, 'v) unordered_map \<Rightarrow> 'v \<times> ('k, 'v) unordered_map" where
  "um_at k d m = (case um_find k m of Some v \<Rightarrow> (v, m) | None \<Rightarrow> (d, um_put k d m))"

definition um_ok :: "('k, 'v) unordered_map \<Rightarrow> bool" where
  "um_ok m \<longleftrightarrow> distinct (map fst m)"

lemma um_find_put [simp]: "um_find j (um_put k v m) = (if j = k then Some v else um_find j m)"
  by (induction k v m rule: um_put.induct) (auto simp: um_find_def)

lemma um_find_erase [simp]: "um_find j (um_erase k m) = (if j = k then None else um_find j m)"
  by (induction m) (auto simp: um_find_def um_erase_def)

lemma um_find_Nil [simp]: "um_find k [] = None"
  by (simp add: um_find_def)

lemma set_um_put: "fst ` set (um_put k v m) = insert k (fst ` set m)"
  by (induction k v m rule: um_put.induct) auto

lemma um_ok_put [simp]: "um_ok m \<Longrightarrow> um_ok (um_put k v m)"
proof (induction k v m rule: um_put.induct)
  case (2 k v j w m)
  then show ?case using set_um_put [of k v m] by (auto simp: um_ok_def)
qed (simp add: um_ok_def)

lemma um_ok_erase [simp]: "um_ok m \<Longrightarrow> um_ok (um_erase k m)"
  by (induction m) (auto simp: um_ok_def um_erase_def)

lemma um_ok_Nil [simp]: "um_ok []"
  by (simp add: um_ok_def)

lemma um_find_eq_Some: "um_ok m \<Longrightarrow> um_find k m = Some v \<longleftrightarrow> (k, v) \<in> set m"
  by (simp add: um_find_def um_ok_def)

section \<open>The contract the two maps share\<close>

locale assoc_map =
  fixes put :: "'k \<Rightarrow> 'v \<Rightarrow> 'm \<Rightarrow> 'm"
    and find :: "'k \<Rightarrow> 'm \<Rightarrow> 'v option"
    and erase :: "'k \<Rightarrow> 'm \<Rightarrow> 'm"
    and ok :: "'m \<Rightarrow> bool"
  assumes find_put: "find j (put k v m) = (if j = k then Some v else find j m)"
    and find_erase: "find j (erase k m) = (if j = k then None else find j m)"
    and ok_put: "ok m \<Longrightarrow> ok (put k v m)"
    and ok_erase: "ok m \<Longrightarrow> ok (erase k m)"
begin

lemma find_put_all:
  "find j (foldl (\<lambda>m (k, v). put k v m) m kvs) = (case map_of (rev kvs) j of Some v \<Rightarrow> Some v | None \<Rightarrow> find j m)"
  by (induction kvs arbitrary: m) (auto simp: find_put map_add_def split: option.splits)

lemma ok_put_all: "ok m \<Longrightarrow> ok (foldl (\<lambda>m (k, v). put k v m) m kvs)"
  by (induction kvs arbitrary: m) (auto simp: ok_put)

lemma find_erase_put: "find j (erase k (put k v m)) = find j (erase k m)"
  by (simp add: find_erase find_put)

lemma find_put_erase: "find j (put k v (erase k m)) = find j (put k v m)"
  by (simp add: find_erase find_put)

end

interpretation smap: assoc_map sm_put sm_find sm_erase sm_ok
  by unfold_locales simp_all

interpretation umap: assoc_map um_put um_find um_erase um_ok
  by unfold_locales simp_all

end
