(* ===== verification/UtilFunc.thy ===== *)
theory UtilFunc
  imports Std_Map "HOL-Library.Signed_Division"
begin

unbundle bit_operations_syntax

text \<open>
  \<open>pvmobj/util_func.cc\<close>: the hash functions that turn object names into chunk ids, the map of
  object names, the two string maps and the names of the files behind the memory mappings.
  A C string is a HOL string without NUL characters.
\<close>

section \<open>Times and random words\<close>

record timeval =
  tv_sec :: ULONG
  tv_usec :: ULONG

definition simulation_time :: "timeval \<Rightarrow> timeval \<Rightarrow> ULONG" where
  "simulation_time start end' =
     (tv_sec end' * 1000000 + tv_usec end') - (tv_sec start * 1000000 + tv_usec start)"

text \<open>The first argument is the result of \<open>rand()\<close>; an empty interval is a division by zero.\<close>

definition gen_rand :: "int \<Rightarrow> int \<Rightarrow> int \<Rightarrow> int option" where
  "gen_rand r hi lo = do {
     c_assert (hi - lo \<noteq> 0);
     Some (r smod (hi - lo) + lo) }"

text \<open>
  \<open>rand_word\<close> on a buffer: every letter takes the next result of \<open>rand()\<close>; the terminator goes to
  index \<open>len\<close>. A write outside of the buffer is \<open>None\<close>.
\<close>

fun rand_word_loop :: "(nat \<Rightarrow> int) \<Rightarrow> byte list \<Rightarrow> nat \<Rightarrow> nat \<Rightarrow> byte list option" where
  "rand_word_loop rand input i 0 = Some input"
| "rand_word_loop rand input i (Suc n) = do {
     c \<leftarrow> gen_rand (rand i) 122 97;
     c_assert (i < length input);
     rand_word_loop rand (input[i := word_of_int c]) (Suc i) n }"

definition rand_word :: "(nat \<Rightarrow> int) \<Rightarrow> byte list \<Rightarrow> nat \<Rightarrow> byte list option" where
  "rand_word rand input len = do {
     c_assert (len \<le> length input);
     let input = replicate len 0 @ drop len input;
     input \<leftarrow> rand_word_loop rand input 0 len;
     c_assert (len < length input);
     Some (input[len := 0]) }"

section \<open>Hash functions\<close>

text \<open>A \<open>char\<close> promoted to \<open>int\<close>: plain \<open>char\<close> is signed on the target.\<close>

definition char_int :: "char \<Rightarrow> UINT" where
  "char_int c = scast (of_char c :: 8 word)"

fun sdbm_loop :: "UINT \<Rightarrow> string \<Rightarrow> UINT" where
  "sdbm_loop hash [] = hash"
| "sdbm_loop hash (c # str) =
     sdbm_loop (char_int c + push_bit 6 hash + push_bit 16 hash - hash) str"

definition sdbm :: "string \<Rightarrow> UINT" where
  "sdbm str = sdbm_loop 0 str"

definition gen_id_from_str :: "string \<Rightarrow> UINT" where
  "gen_id_from_str key = sdbm key"

fun jenkin_loop :: "UINT \<Rightarrow> string \<Rightarrow> UINT" where
  "jenkin_loop hash [] = hash"
| "jenkin_loop hash (c # key) =
     (let hash = hash + char_int c;
          hash = hash + push_bit 10 hash;
          hash = hash XOR drop_bit 6 hash
      in jenkin_loop hash key)"

definition jenkin_hash :: "string \<Rightarrow> UINT" where
  "jenkin_hash key =
     (let hash = jenkin_loop 0 key;
          hash = hash + push_bit 3 hash;
          hash = hash XOR drop_bit 11 hash
      in hash + push_bit 15 hash)"

text \<open>The running value is a \<open>long\<close> that grows by less than \<open>1457 * 255\<close> per character.\<close>

fun gen_id1_loop :: "int \<Rightarrow> string \<Rightarrow> int" where
  "gen_id1_loop hash [] = hash"
| "gen_id1_loop hash (c # key) = gen_id1_loop (hash + (hash mod 1457 + 1) * of_char c) key"

definition gen_id_from_str1 :: "string \<Rightarrow> UINT" where
  "gen_id_from_str1 key = word_of_int (gen_id1_loop 0 key mod 1699)"

text \<open>Little-endian loads of eight bytes, and the tail of at most seven bytes.\<close>

fun load_le :: "byte list \<Rightarrow> ULONG" where
  "load_le [] = 0"
| "load_le (b # bs) = ucast b + push_bit 8 (load_le bs)"

fun murmur_loop :: "ULONG \<Rightarrow> byte list \<Rightarrow> ULONG \<times> byte list" where
  "murmur_loop h data =
     (if length data < 8 then (h, data)
      else
        let k = load_le (take 8 data);
            k = k * 0xc6a4a7935bd1e995;
            k = k XOR drop_bit 47 k;
            k = k * 0xc6a4a7935bd1e995;
            h = h XOR k;
            h = h * 0xc6a4a7935bd1e995
        in murmur_loop h (drop 8 data))"

declare murmur_loop.simps [simp del]

definition MurmurHash64A :: "byte list \<Rightarrow> UINT \<Rightarrow> ULONG" where
  "MurmurHash64A key seed =
     (let m = 0xc6a4a7935bd1e995;
          h = ucast seed XOR (of_nat (length key) * m);
          (h, data2) = murmur_loop h key;
          h = (if data2 = [] then h else (h XOR load_le data2) * m);
          h = h XOR drop_bit 47 h;
          h = h * m
      in h XOR drop_bit 47 h)"

section \<open>Checksums\<close>

text \<open>Hexadecimal digits as \<open>sprintf("%x")\<close> writes them; \<open>convert_base16\<close> writes the high one first.\<close>

definition hex_digit :: "nat \<Rightarrow> char" where
  "hex_digit n = char_of (if n < 10 then 48 + n else 87 + n)"

definition convert_base16 :: "byte \<Rightarrow> string" where
  "convert_base16 num = map (\<lambda>i. hex_digit (unat (drop_bit (i * 4) num AND 15))) [1, 0]"

text \<open>
  The digest is computed by OpenSSL, a parameter here. \<open>cap\<close> is the size of the buffer behind
  \<open>digest\<close>, which the callers zero first; the result is the string it holds at the end.
\<close>

definition sha1_mykeygen ::
  "(byte list \<Rightarrow> byte list) \<Rightarrow> nat \<Rightarrow> byte list \<Rightarrow> nat \<Rightarrow> string option" where
  "sha1_mykeygen sha1 cap key sz = do {
     let md_value = sha1 key;
     let digest = concat (map convert_base16 md_value);
     c_assert (length digest < cap);
     c_assert (sz < cap);
     Some (take sz digest) }"

definition CHKSUM_LEN :: nat where
  "CHKSUM_LEN = 40"

definition generate_checksum :: "(byte list \<Rightarrow> byte list) \<Rightarrow> byte list \<Rightarrow> ULONG option" where
  "generate_checksum sha1 src = do {
     gen_key \<leftarrow> sha1_mykeygen sha1 256 src CHKSUM_LEN;
     Some (ucast (gen_id_from_str gen_key)) }"

definition compare_checksum :: "(byte list \<Rightarrow> byte list) \<Rightarrow> byte list \<Rightarrow> ULONG \<Rightarrow> int option" where
  "compare_checksum sha1 src refval = do {
     h \<leftarrow> generate_checksum sha1 src;
     Some (if h \<noteq> refval then - 1 else 0) }"

section \<open>String maps\<close>

type_synonym name_map = "(string, UINT) std_map"

definition hash_insert :: "string \<Rightarrow> UINT \<Rightarrow> name_map \<Rightarrow> name_map" where
  "hash_insert key val mymap = sm_put key val mymap"

definition hash_increment :: "string \<Rightarrow> name_map \<Rightarrow> name_map" where
  "hash_increment key mymap = (let (v, mymap) = sm_at key 0 mymap in sm_put key (v + 1) mymap)"

definition hash_find :: "string \<Rightarrow> name_map \<Rightarrow> int" where
  "hash_find key mymap = (case sm_find key mymap of Some _ \<Rightarrow> 0 | None \<Rightarrow> - 1)"

definition hash_clear :: "name_map" where
  "hash_clear = []"

definition hash_delete :: "string \<Rightarrow> name_map \<Rightarrow> name_map" where
  "hash_delete key mymap = (case sm_find key mymap of Some _ \<Rightarrow> sm_erase key mymap | None \<Rightarrow> mymap)"

definition find_hash_total :: "name_map \<Rightarrow> ULONG" where
  "find_hash_total mymap = foldl (\<lambda>total (k, v). total + scast v) 0 mymap"

text \<open>\<open>hash_find\<close> returns 0 for a known page and -1, which C takes as true, for a new one.\<close>

definition UNIT_SIZE :: nat where
  "UNIT_SIZE = 4096"

definition update_content_hash ::
  "(byte list \<Rightarrow> byte list) \<Rightarrow> byte list \<Rightarrow> name_map \<Rightarrow> (int \<times> name_map) option" where
  "update_content_hash sha1 src_buff mymap = do {
     s \<leftarrow> sha1_mykeygen sha1 256 (take UNIT_SIZE src_buff) 256;
     Some (if hash_find s mymap \<noteq> 0 then (0, hash_insert s 0 mymap) else (1, hash_increment s mymap)) }"

function compare_pages :: "byte list \<Rightarrow> byte list \<Rightarrow> nat \<Rightarrow> nat \<Rightarrow> nat \<Rightarrow> nat \<times> nat" where
  "compare_pages src dest len same_pages diff_pages =
     (if len > UNIT_SIZE
      then let same = (take UNIT_SIZE src = take UNIT_SIZE dest) in
        compare_pages (drop UNIT_SIZE src) (drop UNIT_SIZE dest) (len - UNIT_SIZE)
          (if same then Suc same_pages else same_pages) (if same then diff_pages else Suc diff_pages)
      else (same_pages, diff_pages))"
  by pat_completeness auto

termination compare_pages
  by (relation "measure (\<lambda>(src, dest, len, s, d). len)") (simp_all add: UNIT_SIZE_def)

declare compare_pages.simps [simp del]

definition compare_content_hash ::
  "byte list \<Rightarrow> byte list \<Rightarrow> nat \<Rightarrow> nat \<times> nat \<Rightarrow> nat \<times> (nat \<times> nat)" where
  "compare_content_hash src dest len pages =
     (let pages = compare_pages src dest len (fst pages) (snd pages) in (fst pages, pages))"

record BWSTAT =
  start_time :: timeval
  end_time :: timeval
  bw_bytes :: ULONG

type_synonym bw_map = "(int, BWSTAT) std_map"

definition add_bw_timestamp :: "int \<Rightarrow> timeval \<Rightarrow> timeval \<Rightarrow> ULONG \<Rightarrow> bw_map \<Rightarrow> bw_map" where
  "add_bw_timestamp i st end' bytes m =
     sm_put i \<lparr>start_time = st, end_time = end', bw_bytes = bytes\<rparr> m"

definition objnamemap_insert :: "string \<Rightarrow> UINT \<Rightarrow> name_map \<Rightarrow> name_map" where
  "objnamemap_insert key val objnamemap = sm_put key val objnamemap"

definition objnamemap_increment :: "string \<Rightarrow> name_map \<Rightarrow> name_map" where
  "objnamemap_increment key objnamemap =
     (let (v, objnamemap) = sm_at key 0 objnamemap in sm_put key (v + 1) objnamemap)"

definition objnamemap_find :: "string \<Rightarrow> name_map \<Rightarrow> int" where
  "objnamemap_find key objnamemap = (case sm_find key objnamemap of Some _ \<Rightarrow> 0 | None \<Rightarrow> - 1)"

definition objnamemap_clear :: "name_map" where
  "objnamemap_clear = []"

definition objnamemap_delete :: "string \<Rightarrow> name_map \<Rightarrow> name_map" where
  "objnamemap_delete key objnamemap =
     (case sm_find key objnamemap of Some _ \<Rightarrow> sm_erase key objnamemap | None \<Rightarrow> objnamemap)"

definition find_objnamemap_total :: "name_map \<Rightarrow> ULONG" where
  "find_objnamemap_total objnamemap = foldl (\<lambda>total (k, v). total + scast v) 0 objnamemap"

text \<open>
  Every name is copied into a buffer of \<open>MAXOBJLEN\<close> bytes: \<open>None\<close> is the write past its end. The
  buffer of an empty name is returned uninitialised: \<open>Some None\<close>.
\<close>

definition MAXOBJLEN :: nat where
  "MAXOBJLEN = 255"

fun copy_objname :: "string \<Rightarrow> string option option" where
  "copy_objname objname =
     (if objname = [] then Some None
      else do { c_assert (length objname < MAXOBJLEN); Some (Some objname) })"

fun copy_names :: "string list \<Rightarrow> string option list option" where
  "copy_names [] = Some []"
| "copy_names (n # ns) = do { b \<leftarrow> copy_objname n; bs \<leftarrow> copy_names ns; Some (b # bs) }"

definition get_object_list :: "name_map \<Rightarrow> (string option list \<times> nat) option" where
  "get_object_list objnamemap = do {
     objnamelist \<leftarrow> copy_names (map fst objnamemap);
     Some (objnamelist, length objnamemap) }"

section \<open>Access and file names\<close>

text \<open>The build without \<open>_USE_SHADOWCOPY\<close>: every mapping may be modified.\<close>

definition check_modify_access :: "int \<Rightarrow> bool" where
  "check_modify_access perm = True"

text \<open>\<open>sprintf("%d")\<close>.\<close>

definition digit :: "nat \<Rightarrow> char" where
  "digit n = char_of (48 + n)"

fun show_nat :: "nat \<Rightarrow> string" where
  "show_nat n = (if n < 10 then [digit n] else show_nat (n div 10) @ [digit (n mod 10)])"

declare show_nat.simps [simp del]

definition show_int :: "int \<Rightarrow> string" where
  "show_int i = (if i < 0 then CHR ''-'' # show_nat (nat (- i)) else show_nat (nat i))"

definition generate_file_name :: "string \<Rightarrow> int \<Rightarrow> string" where
  "generate_file_name base_name pid = base_name @ show_int pid"

definition create_map_file :: "string \<Rightarrow> int \<Rightarrow> int \<Rightarrow> string" where
  "create_map_file basepath pid vmaid = generate_file_name basepath pid @ ''_'' @ show_int vmaid"

definition PROCMETADATA_PATH :: string where
  "PROCMETADATA_PATH = ''/mnt/pmfs/chkproc''"

definition PROCMAPMETADATA_PATH :: string where
  "PROCMAPMETADATA_PATH = ''/mnt/pmfs/chkprocmap''"

definition PROCMAPDATAPATH :: string where
  "PROCMAPDATAPATH = ''/mnt/pmfs/chkprocmapdata''"

section \<open>The polynomial behind \<open>sdbm\<close>\<close>

fun poly :: "string \<Rightarrow> UINT" where
  "poly [] = 0"
| "poly (c # str) = char_int c * 65599 ^ length str + poly str"

lemma sdbm_loop_poly: "sdbm_loop h str = h * 65599 ^ length str + poly str"
proof (induction h str rule: sdbm_loop.induct)
  case (2 h c str)
  have "char_int c + push_bit 6 h + push_bit 16 h - h = h * 65599 + char_int c"
    by (simp add: push_bit_eq_mult algebra_simps)
  then show ?case using 2 by (simp add: algebra_simps)
qed simp

lemma sdbm_poly: "sdbm str = poly str"
  by (simp add: sdbm_def sdbm_loop_poly)

lemma poly_append: "poly (s @ t) = poly s * 65599 ^ length t + poly t"
  by (induction s) (simp_all add: power_add algebra_simps)

lemma odd_mult_word_cancel:
  fixes a b :: UINT
  assumes "odd n" and "a * of_nat n = b * of_nat n"
  shows "a = b"
proof -
  have "coprime (2 ^ 32 :: int) (int n)"
    using assms(1) by (simp only: coprime_power_left_iff) simp
  moreover have "(uint a * int n) mod 2 ^ 32 = (uint b * int n) mod 2 ^ 32"
    using arg_cong [OF assms(2), of uint] by (simp add: uint_word_arith_bintrs(3) unsigned_of_nat take_bit_eq_mod zmod_int mod_mult_right_eq)
  then have "2 ^ 32 dvd (uint a - uint b) * int n"
    by (simp add: mod_eq_dvd_iff left_diff_distrib)
  ultimately have "2 ^ 32 dvd uint a - uint b" by (simp add: coprime_dvd_mult_left_iff)
  then have "uint a mod 2 ^ 32 = uint b mod 2 ^ 32" by (simp add: mod_eq_dvd_iff)
  moreover have "uint x mod 2 ^ 32 = uint x" for x :: UINT
    using uint_lt2p [of x] by (simp add: mod_pos_pos_trivial)
  ultimately show ?thesis by (simp add: word_uint_eq_iff)
qed

lemma ucast_scast_byte: "ucast (scast w :: UINT) = (w :: 8 word)"
  by (rule bit_word_eqI) (simp add: bit_simps)

lemma unat_of_char: "unat (of_char c :: 8 word) = of_char c"
proof -
  have "(of_char c :: nat) < 256" by simp
  then have "unat (of_nat (of_char c :: nat) :: 8 word) = of_char c"
    unfolding unat_of_nat by simp
  then show ?thesis unfolding of_nat_of_char .
qed

lemma char_int_inject: "char_int c = char_int d \<longleftrightarrow> c = d"
proof
  assume "char_int c = char_int d"
  then have "(of_char c :: 8 word) = of_char d" unfolding char_int_def by (metis ucast_scast_byte)
  then have "(of_char c :: nat) = of_char d" by (metis unat_of_char)
  then show "c = d" by simp
qed simp

text \<open>Names that differ in one character only.\<close>

lemma poly_one_char:
  assumes "poly (s @ c # t) = poly (s @ d # t)"
  shows "c = d"
proof -
  have "char_int c * 65599 ^ length t = char_int d * 65599 ^ length t"
    using assms by (simp add: poly_append)
  then have "char_int c * of_nat (65599 ^ length t) = char_int d * of_nat (65599 ^ length t)"
    by simp
  then have "char_int c = char_int d" by (rule odd_mult_word_cancel [rotated]) simp
  then show ?thesis by (simp add: char_int_inject)
qed

section \<open>Decimal numbers and file names\<close>

definition read_nat :: "string \<Rightarrow> nat" where
  "read_nat s = foldl (\<lambda>n c. 10 * n + (of_char c - 48)) 0 s"

lemma of_char_digit: "n < 10 \<Longrightarrow> of_char (digit n) = 48 + n"
  by (simp add: digit_def)

lemma read_show_nat: "read_nat (show_nat n) = n"
proof (induction n rule: show_nat.induct)
  case (1 n)
  show ?case
  proof (cases "n < 10")
    case True
    then show ?thesis by (simp add: show_nat.simps [of n] read_nat_def of_char_digit)
  next
    case False
    then show ?thesis using 1 by (simp add: show_nat.simps [of n] read_nat_def of_char_digit)
  qed
qed

definition digits :: "char set" where
  "digits = digit ` {..<10}"

lemma show_nat_digits: "set (show_nat n) \<subseteq> digits"
proof (induction n rule: show_nat.induct)
  case (1 n)
  then show ?case by (subst show_nat.simps) (auto simp: digits_def)
qed

lemma show_nat_ne: "show_nat n \<noteq> []"
  by (subst show_nat.simps) simp

lemma digits_not: "CHR ''-'' \<notin> digits" "CHR ''_'' \<notin> digits" "CHR ''m'' \<notin> digits" "CHR ''d'' \<notin> digits"
proof -
  have "of_char c \<in> {48..<58::nat}" if "c \<in> digits" for c
    using that by (auto simp: digits_def of_char_digit)
  then show "CHR ''-'' \<notin> digits" "CHR ''_'' \<notin> digits" "CHR ''m'' \<notin> digits" "CHR ''d'' \<notin> digits"
    by fastforce+
qed

lemma show_int_cases:
  obtains (neg) n where "show_int i = CHR ''-'' # show_nat n" "i = - int n" "i < 0"
    | (pos) n where "show_int i = show_nat n" "i = int n"
proof (cases "i < 0")
  case True
  then show ?thesis using neg [of "nat (- i)"] by (simp add: show_int_def)
next
  case False
  then show ?thesis using pos [of "nat i"] by (simp add: show_int_def)
qed

lemma hd_show_nat: "hd (show_nat n) \<in> digits"
  using show_nat_digits [of n] show_nat_ne [of n] by (metis hd_in_set subsetD)

lemma show_int_inject: "show_int i = show_int j \<longleftrightarrow> i = j"
proof
  assume eq: "show_int i = show_int j"
  show "i = j"
  proof (cases i rule: show_int_cases; cases j rule: show_int_cases)
    fix n m assume "show_int i = CHR ''-'' # show_nat n" "i = - int n" "i < 0"
      "show_int j = CHR ''-'' # show_nat m" "j = - int m" "j < 0"
    then show ?thesis using eq by simp (metis read_show_nat)
  next
    fix n m assume "show_int i = CHR ''-'' # show_nat n" "show_int j = show_nat m"
    then show ?thesis using eq hd_show_nat [of m] digits_not by (metis list.sel(1))
  next
    fix n m assume "show_int i = show_nat n" "show_int j = CHR ''-'' # show_nat m"
    then show ?thesis using eq hd_show_nat [of n] digits_not by (metis list.sel(1))
  next
    fix n m assume "show_int i = show_nat n" "i = int n" "show_int j = show_nat m" "j = int m"
    then show ?thesis using eq by simp (metis read_show_nat)
  qed
qed simp

lemma show_int_set: "set (show_int i) \<subseteq> insert CHR ''-'' digits"
  by (cases i rule: show_int_cases) (use show_nat_digits in auto)

lemma show_int_ne: "show_int i \<noteq> []"
  by (cases i rule: show_int_cases) (simp_all add: show_nat_ne)

lemma show_int_hd: "hd (show_int i) \<in> insert CHR ''-'' digits"
  using show_int_set [of i] show_int_ne [of i] hd_in_set by blast

lemma generate_file_name_inject:
  "generate_file_name b i = generate_file_name b j \<longleftrightarrow> i = j"
  by (simp add: generate_file_name_def show_int_inject)

lemma append_sep_inject:
  assumes "x \<notin> set a" and "x \<notin> set c"
  shows "a @ x # b = c @ x # d \<longleftrightarrow> a = c \<and> b = d"
  using assms by (induction a arbitrary: c) (case_tac c; auto)+

lemma create_map_file_inject:
  "create_map_file b i v = create_map_file b j w \<longleftrightarrow> i = j \<and> v = w"
proof -
  have "CHR ''_'' \<notin> set (show_int i)" for i using show_int_set [of i] digits_not by auto
  then show ?thesis
    by (simp add: create_map_file_def generate_file_name_def append_sep_inject show_int_inject)
qed

section \<open>Properties\<close>

lemma copy_names_eq:
  "copy_names ns = (if \<forall>n \<in> set ns. length n < MAXOBJLEN
     then Some (map (\<lambda>n. if n = [] then None else Some n) ns) else None)"
  by (induction ns) (auto simp: c_assert_def MAXOBJLEN_def)

lemma map_fst_sm_put: "fst ` set (sm_put k v m) = insert k (fst ` set m)"
  by (induction k v m rule: sm_put.induct) auto

lemma rand_word_loop_eq:
  assumes "i + n \<le> length input" and "\<forall>i. 0 \<le> rand i"
  shows "\<exists>cs. length cs = n \<and> (\<forall>c \<in> set cs. 97 \<le> c \<and> c < 122) \<and>
    rand_word_loop rand input i n = Some (take i input @ cs @ drop (i + n) input)"
  using assms(1)
proof (induction n arbitrary: i input)
  case (Suc n)
  let ?c = "rand i smod 25 + 97" and ?w = "word_of_int (rand i smod 25 + 97) :: byte"
  have r: "0 \<le> rand i smod 25" "rand i smod 25 < 25"
    using assms(2) by (simp_all add: signed_modulo_int_def sgn_if order.not_eq_order_implies_strict)
  then have "uint ?w = ?c" unfolding uint_word_of_int_eq by (simp add: take_bit_int_eq_self)
  then have c: "97 \<le> ?w" "?w < 122" using r by (simp_all add: word_le_def word_less_def)
  have i: "i < length input" using Suc.prems by simp
  obtain cs where cs: "length cs = n" "\<forall>c \<in> set cs. 97 \<le> c \<and> c < 122"
    "rand_word_loop rand (input[i := ?w]) (Suc i) n =
       Some (take (Suc i) (input[i := ?w]) @ cs @ drop (Suc i + n) (input[i := ?w]))"
    using Suc.IH [of "Suc i" "input[i := ?w]"] Suc.prems by auto
  have "take (Suc i) (input[i := ?w]) = take i input @ [?w]"
    using i by (simp add: take_Suc_conv_app_nth)
  then have "rand_word_loop rand input i (Suc n) = Some (take i input @ (?w # cs) @ drop (i + Suc n) input)"
    using i cs(3) by (simp add: gen_rand_def)
  then show ?case using cs(1,2) c by (intro exI [of _ "?w # cs"]) auto
qed simp

text \<open>
  Two object names of the same length that differ in exactly one character never get the same
  object id; the \<open>sdbm\<close> hash behind the ids is multiplication by an odd constant.
\<close>

theorem gen_id_one_char:
  "gen_id_from_str (s @ c # t) = gen_id_from_str (s @ d # t) \<longleftrightarrow> c = d"
  using poly_one_char [of s c t d] by (auto simp: gen_id_from_str_def sdbm_poly)

text \<open>Other pairs of names do collide.\<close>

lemma gen_id_collision: "gen_id_from_str ''obvpek'' = gen_id_from_str ''tk5lk0''"
  by code_simp



text \<open>
  \<open>rand_word\<close> fills the first \<open>len\<close> bytes with letters and ends the word, leaving the rest of
  the buffer alone, whenever the buffer has room for one more byte than \<open>len\<close>; with a buffer of
  \<open>len\<close> bytes the terminator is written past its end.
\<close>

theorem rand_word_exact:
  assumes "\<forall>i. 0 \<le> rand i"
  shows "(len < length input \<longrightarrow> (\<exists>cs. length cs = len \<and> (\<forall>c \<in> set cs. 97 \<le> c \<and> c < 122) \<and>
           rand_word rand input len = Some (cs @ 0 # drop (Suc len) input))) \<and>
         (length input \<le> len \<longrightarrow> rand_word rand input len = None)"
proof -
  let ?z = "replicate len 0 @ drop len input"
  have "rand_word rand input len = None" if "length input = len"
    using rand_word_loop_eq [of 0 len ?z rand] assms that by (auto simp: rand_word_def)
  moreover have "\<exists>cs. length cs = len \<and> (\<forall>c \<in> set cs. 97 \<le> c \<and> c < 122) \<and>
      rand_word rand input len = Some (cs @ 0 # drop (Suc len) input)" if l: "len < length input"
  proof -
    obtain cs where cs: "length cs = len" "\<forall>c \<in> set cs. 97 \<le> c \<and> c < 122"
      "rand_word_loop rand ?z 0 len = Some (cs @ drop len input)"
      using rand_word_loop_eq [of 0 len ?z rand] assms l by auto
    have "drop len input = input ! len # drop (Suc len) input" using l by (rule Cons_nth_drop_Suc [symmetric])
    then have "rand_word rand input len = Some (cs @ 0 # drop (Suc len) input)"
      using l cs(1,3) by (simp add: rand_word_def list_update_append c_assert_def)
    then show ?thesis using cs by blast
  qed
  ultimately show ?thesis by (auto simp: rand_word_def le_less)
qed

theorem rand_word_exact_witness:
  "\<exists>cs. length cs = 3 \<and> (\<forall>c \<in> set cs. 97 \<le> c \<and> c < 122) \<and>
     rand_word (\<lambda>i. int i * 40) (replicate 5 7) 3 = Some (cs @ [0, 7])"
  using rand_word_exact [of "\<lambda>i. int i * 40" 3 "replicate 5 7"] by (simp add: numeral_eq_Suc)

end
