(* ===== verification/HashMaps.thy ===== *)
theory HashMaps
  imports Std_Map
begin

unbundle bit_operations_syntax

text \<open>
  \<open>pvmobj/hash_maps.cc\<close>: the chained hash table, the table of allocated ranges, the map from
  addresses to chunk objects and the sizes of the memory mappings. A chunk object is a pointer of
  type \<open>'c\<close>; reading its length is an argument (\<open>None\<close> is a bad pointer).
\<close>

section \<open>The chained hash table\<close>

record hashtable_t =
  ht_size :: nat
  ht_table :: "(string \<times> UINT) list list"

text \<open>The outer \<open>None\<close> is the \<open>NULL\<close> that \<open>ht_create\<close> returns.\<close>

definition ht_create :: "int \<Rightarrow> hashtable_t option" where
  "ht_create sz =
     (if sz < 1 then None
      else Some \<lparr>ht_size = nat sz, ht_table = replicate (nat sz) []\<rparr>)"

fun ht_hash_loop :: "ULONG \<Rightarrow> string \<Rightarrow> ULONG" where
  "ht_hash_loop hashval [] = hashval"
| "ht_hash_loop hashval (c # key) =
     (if hashval < - 1 then ht_hash_loop (push_bit 8 hashval + scast (of_char c :: 8 word)) key
      else hashval)"

text \<open>
  \<open>hashval\<close> is not initialised: its first value is an argument, whatever the stack happens to hold.
\<close>

definition ht_hash :: "ULONG \<Rightarrow> hashtable_t \<Rightarrow> string \<Rightarrow> nat" where
  "ht_hash garbage ht key = unat (ht_hash_loop garbage key mod of_nat (ht_size ht))"

fun bin_set :: "string \<Rightarrow> UINT \<Rightarrow> (string \<times> UINT) list \<Rightarrow> (string \<times> UINT) list" where
  "bin_set key val [] = [(key, val)]"
| "bin_set key val ((k, v) # b) =
     (if key > k then (k, v) # bin_set key val b
      else if key = k then (k, val) # b
      else (key, val) # (k, v) # b)"

fun bin_get :: "string \<Rightarrow> (string \<times> UINT) list \<Rightarrow> UINT" where
  "bin_get key [] = 0"
| "bin_get key ((k, v) # b) =
     (if key > k then bin_get key b else if key = k then v else 0)"

text \<open>
  \<open>ht_set\<close> also stores the bin in \<open>hash_cache\<close>, here the number of entries that fit (0 when the
  pointer is \<open>NULL\<close>) and the entries.
\<close>

definition ht_set ::
  "ULONG \<Rightarrow> nat \<times> (nat \<Rightarrow> nat) \<Rightarrow> nat \<Rightarrow> hashtable_t \<Rightarrow> string \<Rightarrow> UINT \<Rightarrow>
    ((nat \<times> (nat \<Rightarrow> nat)) \<times> hashtable_t) option" where
  "ht_set garbage hash_cache alloc_cnt ht key val = do {
     let bin = ht_hash garbage ht key;
     c_assert (alloc_cnt < fst hash_cache);
     let hash_cache = (fst hash_cache, (snd hash_cache)(alloc_cnt := bin));
     Some (hash_cache, ht\<lparr>ht_table := (ht_table ht)[bin := bin_set key val (ht_table ht ! bin)]\<rparr>) }"

definition ht_get :: "ULONG \<Rightarrow> hashtable_t \<Rightarrow> string \<Rightarrow> UINT" where
  "ht_get garbage ht key = bin_get key (ht_table ht ! ht_hash garbage ht key)"

definition ht_ok :: "hashtable_t \<Rightarrow> bool" where
  "ht_ok ht \<longleftrightarrow> 0 < ht_size ht \<and> ht_size ht < 2 ^ 31 \<and> length (ht_table ht) = ht_size ht \<and>
     (\<forall>b \<in> set (ht_table ht). sm_ok b)"

section \<open>Allocated ranges\<close>

definition MAX_ENTRIES :: nat where
  "MAX_ENTRIES = 100 * 1024 * 1024"

record alloc_state =
  allocmap :: "(ULONG, ULONG) unordered_map"
  init_alloc :: bool
  alloc_cnt :: UINT
  allocmap_long :: "nat \<Rightarrow> ULONG"
  allocmap_sz :: "nat \<Rightarrow> ULONG"

definition add_alloc_map :: "ULONG \<Rightarrow> ULONG \<Rightarrow> alloc_state \<Rightarrow> alloc_state option" where
  "add_alloc_map ptr sz s = do {
     let s = s\<lparr>allocmap := um_put ptr sz (allocmap s)\<rparr>;
     let s = s\<lparr>init_alloc := True\<rparr>;
     c_assert (unat (alloc_cnt s) < MAX_ENTRIES);
     Some (s\<lparr>allocmap_long := (allocmap_long s)(unat (alloc_cnt s) := ptr),
            allocmap_sz := (allocmap_sz s)(unat (alloc_cnt s) := sz),
            alloc_cnt := alloc_cnt s + 1\<rparr>) }"

text \<open>The size and, when a range holds the address, its start (\<open>*faddr\<close>, else not written).\<close>

fun get_alloc_size :: "ULONG \<Rightarrow> (ULONG, ULONG) unordered_map \<Rightarrow> ULONG \<times> ULONG option" where
  "get_alloc_size ptr [] = (0, None)"
| "get_alloc_size ptr ((addr, sz) # m) =
     (let endaddr = addr + sz
      in if ptr \<ge> addr \<and> ptr \<le> endaddr then (sz, Some addr) else get_alloc_size ptr m)"

section \<open>Chunks by address\<close>

type_synonym 'c chunk_map = "(ULONG, 'c option) unordered_map"

fun get_chunk_from_map :: "('c \<Rightarrow> UINT option) \<Rightarrow> ULONG \<Rightarrow> 'c chunk_map \<Rightarrow> 'c option option" where
  "get_chunk_from_map chunk_length ptr [] = Some None"
| "get_chunk_from_map chunk_length ptr ((start, chunk) # m) = do {
     chunk \<leftarrow> chunk;
     bytes \<leftarrow> chunk_length chunk;
     let endp = start + ucast bytes;
     if ptr \<ge> start \<and> ptr \<le> endp then Some (Some chunk)
     else get_chunk_from_map chunk_length ptr m }"

definition record_chunks :: "ULONG \<Rightarrow> 'c \<Rightarrow> 'c chunk_map \<Rightarrow> 'c chunk_map" where
  "record_chunks addr chunk chunkmap = um_put addr (Some chunk) chunkmap"

definition get_chnk_cnt_frm_map :: "'c chunk_map \<Rightarrow> nat" where
  "get_chnk_cnt_frm_map chunkmap = length chunkmap"

text \<open>\<open>operator[]\<close> inserts a \<open>NULL\<close> chunk for an address that is not there.\<close>

definition get_chunk_from_map_o1 :: "ULONG \<Rightarrow> 'c chunk_map \<Rightarrow> ('c option \<times> 'c chunk_map) option" where
  "get_chunk_from_map_o1 addr chunkmap = do {
     c_assert (chunkmap \<noteq> []);
     c_assert (addr \<noteq> 0);
     Some (um_at addr None chunkmap) }"

definition get_chunk_with_id ::
  "UINT \<Rightarrow> (UINT, 'c option) unordered_map \<Rightarrow> 'c option \<times> (UINT, 'c option) unordered_map" where
  "get_chunk_with_id chunkid id_chunk_map = um_at chunkid None id_chunk_map"

section \<open>Sizes of the mappings\<close>

type_synonym vma_map = "(UINT, ULONG) unordered_map"

definition record_metadata_vma :: "UINT \<Rightarrow> ULONG \<Rightarrow> vma_map \<Rightarrow> vma_map" where
  "record_metadata_vma vmaid sz metadata_vmas = um_put vmaid sz metadata_vmas"

definition record_vmas :: "UINT \<Rightarrow> ULONG \<Rightarrow> vma_map \<Rightarrow> vma_map" where
  "record_vmas vmaid sz proc_vmas = um_put vmaid sz proc_vmas"

definition get_vma_size :: "UINT \<Rightarrow> vma_map \<Rightarrow> ULONG \<times> vma_map" where
  "get_vma_size vmaid proc_vmas = um_at vmaid 0 proc_vmas"

section \<open>Hash table lemmas\<close>

lemma bin_set_sm_put: "bin_set key val b = sm_put key val b"
  by (induction key val b rule: bin_set.induct) auto

lemma bin_get_sm_find: "sm_ok b \<Longrightarrow> bin_get key b = (case sm_find key b of Some v \<Rightarrow> v | None \<Rightarrow> 0)"
proof (induction key b rule: bin_get.induct)
  case (2 key k v b)
  have "sm_find key b = None" if "key < k"
    using "2.prems" that less_asym less_trans by (fastforce simp: sm_find_None)
  then show ?case using 2 by (auto simp: sm_find_def split: option.splits)
qed simp

lemma ht_hash_bound:
  assumes "ht_ok ht"
  shows "ht_hash garbage ht key < length (ht_table ht)"
proof -
  have "(of_nat (ht_size ht) :: ULONG) \<noteq> 0" "unat (of_nat (ht_size ht) :: ULONG) = ht_size ht"
    using assms by (auto simp: ht_ok_def unat_of_nat word_unat_eq_iff)
  then show ?thesis using assms by (auto simp: ht_hash_def unat_mod ht_ok_def)
qed

lemma ht_hash_table [simp]: "ht_hash garbage (ht\<lparr>ht_table := tb\<rparr>) key = ht_hash garbage ht key"
  by (simp add: ht_hash_def)

lemma ht_set_eq:
  assumes "ht_set garbage hc n ht key val = Some (hc', ht')"
  shows "ht' = ht\<lparr>ht_table := (ht_table ht)[ht_hash garbage ht key :=
    sm_put key val (ht_table ht ! ht_hash garbage ht key)]\<rparr>"
  using assms by (auto simp: ht_set_def c_assert_bind_eq_Some Let_def bin_set_sm_put)

lemma ht_ok_set:
  assumes ok: "ht_ok ht" and set: "ht_set garbage hc n ht key val = Some (hc', ht')"
  shows "ht_ok ht'"
proof -
  let ?b = "ht_hash garbage ht key"
  have "sm_ok (sm_put key val (ht_table ht ! ?b))"
    using ok ht_hash_bound [OF ok, of garbage key] by (simp add: ht_ok_def)
  then have "\<forall>b \<in> set ((ht_table ht)[?b := sm_put key val (ht_table ht ! ?b)]). sm_ok b"
    using ok set_update_subset_insert [of "ht_table ht" ?b] unfolding ht_ok_def by blast
  then show ?thesis using ok by (simp add: ht_set_eq [OF set] ht_ok_def)
qed

lemma ht_get_set_eq:
  assumes ok: "ht_ok ht" and set: "ht_set garbage hc n ht key val = Some (hc', ht')"
  shows "ht_get garbage ht' k = (if k = key then val else ht_get garbage ht k)"
proof -
  let ?b = "ht_hash garbage ht key"
  have b: "?b < length (ht_table ht)" "ht_hash garbage ht k < length (ht_table ht)"
    using ht_hash_bound [OF ok] by blast+
  then have "sm_ok (ht_table ht ! ?b)" "sm_ok (ht_table ht ! ht_hash garbage ht k)"
    using ok by (auto simp: ht_ok_def)
  then show ?thesis
    by (cases "ht_hash garbage ht k = ?b")
      (auto simp: ht_get_def ht_set_eq [OF set] b bin_get_sm_find)
qed

section \<open>Chunk map lemmas\<close>

text \<open>The closed range that \<open>get_chunk_from_map\<close> attributes to an entry.\<close>

definition holds :: "('c \<Rightarrow> UINT option) \<Rightarrow> ULONG \<times> 'c option \<Rightarrow> ULONG \<Rightarrow> bool" where
  "holds chunk_length e p \<longleftrightarrow> (\<exists>c n. snd e = Some c \<and> chunk_length c = Some n \<and>
     fst e \<le> p \<and> p \<le> fst e + ucast n)"

lemma get_chunk_scan:
  assumes "\<forall>e \<in> set m. \<exists>c n. snd e = Some c \<and> chunk_length c = Some n"
  shows "get_chunk_from_map chunk_length p m =
    Some (case filter (\<lambda>e. holds chunk_length e p) m of [] \<Rightarrow> None | e # _ \<Rightarrow> snd e)"
  using assms
proof (induction m)
  case (Cons e m)
  obtain s c n where e: "e = (s, Some c)" "chunk_length c = Some n" using Cons.prems by (cases e) auto
  then have "holds chunk_length e p \<longleftrightarrow> s \<le> p \<and> p \<le> s + ucast n" by (simp add: holds_def)
  then show ?case using Cons e by (auto simp: Let_def)
qed simp

lemma get_chunk_found:
  assumes "\<forall>e \<in> set m. \<exists>c n. snd e = Some c \<and> chunk_length c = Some n"
    and "\<forall>e \<in> set m. holds chunk_length e p \<longrightarrow> e = (s, Some c)"
    and "(s, Some c) \<in> set m" and "holds chunk_length (s, Some c) p"
  shows "get_chunk_from_map chunk_length p m = Some (Some c)"
proof -
  have "filter (\<lambda>e. holds chunk_length e p) m \<noteq> []" using assms(3,4) by (auto simp: filter_empty_conv)
  then obtain e es where f: "filter (\<lambda>e. holds chunk_length e p) m = e # es" by (meson neq_Nil_conv)
  then have "e \<in> set (filter (\<lambda>e. holds chunk_length e p) m)" by simp
  then have "e = (s, Some c)" using assms(2) by simp
  then show ?thesis using get_chunk_scan [OF assms(1), of p] f by simp
qed

lemma get_chunk_append:
  "get_chunk_from_map chunk_length p m = Some None \<Longrightarrow>
     get_chunk_from_map chunk_length p (m @ m') = get_chunk_from_map chunk_length p m'"
proof (induction m)
  case (Cons e m)
  obtain s c where e: "e = (s, c)" by (cases e)
  obtain c' n where "c = Some c'" "chunk_length c' = Some n" "\<not> (s \<le> p \<and> p \<le> s + ucast n)"
    using Cons.prems by (auto simp: e Let_def bind_eq_Some_conv split: if_splits)
  then show ?case using Cons e by (auto simp: Let_def)
qed simp

lemma um_put_new: "um_find k m = None \<Longrightarrow> um_put k v m = m @ [(k, v)]"
  by (induction k v m rule: um_put.induct) (auto simp: um_find_def split: if_splits)

section \<open>Properties\<close>

text \<open>
  C37: on a well-formed table \<open>ht_get\<close> returns what \<open>ht_set\<close> stored for the key and is unchanged for
  every other key, also one in the same bin, whenever both calls happen to hash with the same start
  value; the table stays well-formed.
\<close>

theorem ht_get_after_set:
  assumes "ht_ok ht" and "ht_set garbage hc n ht key val = Some (hc', ht')"
  shows "ht_ok ht' \<and> ht_get garbage ht' k = (if k = key then val else ht_get garbage ht k)"
  using ht_ok_set [OF assms] ht_get_set_eq [OF assms] by simp

definition ht_two :: hashtable_t where
  "ht_two = \<lparr>ht_size = 2, ht_table = [[], [(''a'', 5)]]\<rparr>"

theorem ht_get_after_set_witness:
  "\<exists>hc' ht'. ht_set 0 (10, \<lambda>_. 0) 3 ht_two ''c'' 8 = Some (hc', ht') \<and>
     ht_get 0 ht' ''c'' = 8 \<and> ht_get 0 ht' ''a'' = 5"
proof -
  have ok: "ht_ok ht_two" by (simp add: ht_ok_def ht_two_def)
  obtain hc' ht' where s: "ht_set 0 (10, \<lambda>_. 0) 3 ht_two ''c'' 8 = Some (hc', ht')"
    by (simp add: ht_set_def Let_def)
  have "ht_get 0 ht_two ''a'' = 5" by code_simp
  then show ?thesis
    using s ht_get_after_set [OF ok s, of "''c''"] ht_get_after_set [OF ok s, of "''a''"] by simp
qed

text \<open>
  C38: when every recorded chunk is live and at most one recorded chunk can hold the address,
  \<open>get_chunk_from_map\<close> finds that chunk, whatever the order in which the map is visited.
\<close>

theorem get_chunk_from_map_unique:
  assumes "\<forall>e \<in> set m. \<exists>c n. snd e = Some c \<and> chunk_length c = Some n"
    and "\<forall>e \<in> set m. holds chunk_length e p \<longrightarrow> e = (s, Some c)"
    and "(s, Some c) \<in> set m" and "chunk_length c = Some n" and "s \<le> p" and "p \<le> s + ucast n"
  shows "get_chunk_from_map chunk_length p m = Some (Some c)"
  by (rule get_chunk_found [OF assms(1-3)]) (simp add: holds_def assms)

theorem get_chunk_from_map_unique_witness:
  "get_chunk_from_map (\<lambda>c. Some (if c = ''x'' then 16 else 8)) 0x2004
     [(0x1000, Some ''x''), (0x2000, Some ''y'')] = Some (Some ''y'')"
  by (rule get_chunk_from_map_unique [where s = "0x2000" and n = 8]) (auto simp: holds_def)



text \<open>The ends of the ranges are inclusive: the start of a chunk can be taken for its neighbour.\<close>

lemma get_chunk_shared_end:
  "get_chunk_from_map (\<lambda>c. Some 16) 0x1010 [(0x1000, Some ''x''), (0x1010, Some ''y'')] = Some (Some ''x'')"
  by simp

text \<open>The same key hashes to different bins from different start values.\<close>

lemma ht_hash_depends_on_garbage: "ht_hash 0 ht_two ''b'' \<noteq> ht_hash (- 1) ht_two ''b''"
  by code_simp

end
