(* ===== verification/NvMap.thy ===== *)
theory NvMap
  imports Rbtree_Props UtilFunc HashMaps
begin

text \<open>
  \<open>pvmobj/nv_map.cc\<close>: the persistent store of named objects. A process has a metadata file with
  its \<open>proc_s\<close> and a table of \<open>mmapobj_s\<close>, one per memory mapping; each mapping has a file with a
  table of \<open>chunkobj_s\<close>, one per object, and a file with the data. The search trees over these
  tables live in volatile memory and are rebuilt when the process starts again.

  The build modelled is the default one of the \<open>Makefile\<close>: \<open>_USE_FAKE_NVMAP\<close>, \<open>_OBJNAMEMAP\<close> and
  \<open>_USELOCKS\<close> are defined; the variants for transactions, shadow copies, statistics, Pin and
  swizzling are not. The flags that are variables at run time are part of the state.
\<close>

section \<open>Data\<close>

abbreviation (input) MAP_FAILED :: ULONG where
  "MAP_FAILED \<equiv> - 1"

definition VALID :: byte where
  "VALID = 0"

definition INVALID :: byte where
  "INVALID = 9"

definition MAXOBJNAMELEN :: nat where
  "MAXOBJNAMELEN = 255"

definition PROC_METADAT_SZ :: nat where
  "PROC_METADAT_SZ = 5 * 1024 * 1024"

definition MMAP_METADATA_SZ :: nat where
  "MMAP_METADATA_SZ = 10 * 1024 * 1024"

definition BASE_METADATA_NVID :: UINT where
  "BASE_METADATA_NVID = 2777"

definition NUM_MMAP_CACHE_CNT :: nat where
  "NUM_MMAP_CACHE_CNT = 128"

text \<open>
  A pointer to a structure in a mapped file is the file and the offset in it; a tree in volatile
  memory has a number, 0 for \<open>NULL\<close>. An \<open>int\<close> is kept as its bit pattern.
\<close>

type_synonym pptr = "string \<times> nat"
type_synonym tptr = nat

record chunkobj_s =
  ch_length :: UINT
  ch_offset :: UINT
  ch_chunkid :: UINT
  ch_pid :: UINT
  ch_vma_id :: UINT
  ch_commitsz :: UINT
  ch_nv_ptr :: ULONG
  ch_valid :: byte
  ch_objname :: string

record mmapobj_s =
  mo_strt_addr :: ULONG
  mo_data_addr :: ULONG
  mo_vma_id :: UINT
  mo_length :: ULONG
  mo_offset :: ULONG
  mo_proc_obj :: "pptr option"
  mo_chunkobj_tree :: tptr
  mo_chunk_tree_init :: UINT
  mo_proc_id :: UINT
  mo_numchunks :: UINT
  mo_mmap_offset :: UINT
  mo_meta_offset :: UINT
  mo_mmapobjname :: string

record proc_s =
  pr_pid :: UINT
  pr_mmapobj_tree :: tptr
  pr_mmapobj_initialized :: UINT
  pr_start_addr :: ULONG
  pr_size :: ULONG
  pr_offset :: ULONG
  pr_data_map_size :: ULONG
  pr_pesist_mmaps :: UINT
  pr_num_mmaps :: UINT
  pr_meta_offset :: UINT
  pr_haslog :: UINT
  pr_haslogMapped :: UINT

record rqst_s =
  rq_bytes :: ULONG
  rq_var_name :: string
  rq_id :: UINT
  rq_pid :: UINT
  rq_nv_ptr :: ULONG
  rq_log_ptr :: ULONG
  rq_offset :: ULONG
  rq_access :: UINT
  rq_commitsz :: UINT

record mmapobj_nodes =
  mn_start_addr :: ULONG
  mn_end_addr :: ULONG
  mn_map_id :: UINT
  mn_proc_id :: UINT

text \<open>Their sizes in bytes, and the contents of a zero-filled file.\<close>

definition sizeof_proc_s :: nat where
  "sizeof_proc_s = 80"

definition sizeof_mmapobj_s :: nat where
  "sizeof_mmapobj_s = 336"

definition sizeof_chunkobj_s :: nat where
  "sizeof_chunkobj_s = 288"

definition zero_chunkobj :: chunkobj_s where
  "zero_chunkobj = \<lparr>ch_length = 0, ch_offset = 0, ch_chunkid = 0, ch_pid = 0, ch_vma_id = 0,
     ch_commitsz = 0, ch_nv_ptr = 0, ch_valid = 0, ch_objname = []\<rparr>"

definition zero_mmapobj :: mmapobj_s where
  "zero_mmapobj = \<lparr>mo_strt_addr = 0, mo_data_addr = 0, mo_vma_id = 0, mo_length = 0,
     mo_offset = 0, mo_proc_obj = None, mo_chunkobj_tree = 0, mo_chunk_tree_init = 0,
     mo_proc_id = 0, mo_numchunks = 0, mo_mmap_offset = 0, mo_meta_offset = 0,
     mo_mmapobjname = []\<rparr>"

definition zero_proc :: proc_s where
  "zero_proc = \<lparr>pr_pid = 0, pr_mmapobj_tree = 0, pr_mmapobj_initialized = 0, pr_start_addr = 0,
     pr_size = 0, pr_offset = 0, pr_data_map_size = 0, pr_pesist_mmaps = 0, pr_num_mmaps = 0,
     pr_meta_offset = 0, pr_haslog = 0, pr_haslogMapped = 0\<rparr>"

text \<open>
  A file holds a process with its table of mappings, a table of chunks (both by byte offset) or data.
\<close>

datatype nvfile =
    ProcFile proc_s "nat \<Rightarrow> mmapobj_s"
  | ChunkFile "nat \<Rightarrow> chunkobj_s"
  | DataFile "byte list"

record mapping =
  mp_base :: ULONG
  mp_len :: nat
  mp_file :: string

text \<open>\<open>fs\<close> is all that survives a restart.\<close>

record nvst =
  fs :: "string \<rightharpoonup> nvfile"
  mmaps :: "mapping list"
  proc_map_start :: ULONG
  proc_list_init :: bool
  proc_tree :: "pptr rbtree"
  trees :: "tptr \<rightharpoonup> pptr rbtree"
  next_tree :: tptr
  map_tree :: "mmapobj_nodes rbtree option"
  objnamemap :: name_map
  chunkmap :: "pptr chunk_map"
  proc_vmas :: vma_map
  g_initialized :: bool
  useCacheFlush :: bool
  enable_optimze :: bool
  enable_trans :: bool
  use_map_cache :: bool
  prev_proc_obj :: "pptr option"
  prev_proc_id :: UINT
  mmap_strt_addr_cache :: "nat \<Rightarrow> ULONG"
  mmap_size_cache :: "nat \<Rightarrow> UINT"
  mmap_ref_cache :: "nat \<Rightarrow> pptr option"
  next_mmap_entry :: nat

text \<open>
  \<open>mmap\<close> is a call to the operating system: it chooses the address of a new mapping of a given
  length beside the present ones, or fails.
\<close>

type_synonym os_mmap = "mapping list \<Rightarrow> nat \<Rightarrow> ULONG option"

section \<open>Memory\<close>

fun resolve :: "mapping list \<Rightarrow> ULONG \<Rightarrow> pptr option" where
  "resolve [] a = None"
| "resolve (m # ms) a =
     (if unat (mp_base m) \<le> unat a \<and> unat a < unat (mp_base m) + mp_len m
      then Some (mp_file m, unat a - unat (mp_base m)) else resolve ms a)"

definition get_proc :: "nvst \<Rightarrow> pptr \<Rightarrow> proc_s option" where
  "get_proc st p = (case fs st (fst p) of
     Some (ProcFile pr ms) \<Rightarrow> if snd p = 0 then Some pr else None
   | _ \<Rightarrow> None)"

definition upd_proc :: "nvst \<Rightarrow> pptr \<Rightarrow> (proc_s \<Rightarrow> proc_s) \<Rightarrow> nvst option" where
  "upd_proc st p f = (case fs st (fst p) of
     Some (ProcFile pr ms) \<Rightarrow>
       if snd p = 0 then Some (st\<lparr>fs := (fs st)(fst p \<mapsto> ProcFile (f pr) ms)\<rparr>) else None
   | _ \<Rightarrow> None)"

definition get_mmapobj :: "nvst \<Rightarrow> pptr \<Rightarrow> mmapobj_s option" where
  "get_mmapobj st p = (case fs st (fst p) of
     Some (ProcFile pr ms) \<Rightarrow>
       if sizeof_proc_s \<le> snd p \<and> snd p + sizeof_mmapobj_s \<le> PROC_METADAT_SZ
       then Some (ms (snd p)) else None
   | _ \<Rightarrow> None)"

definition upd_mmapobj :: "nvst \<Rightarrow> pptr \<Rightarrow> (mmapobj_s \<Rightarrow> mmapobj_s) \<Rightarrow> nvst option" where
  "upd_mmapobj st p f = (case fs st (fst p) of
     Some (ProcFile pr ms) \<Rightarrow>
       if sizeof_proc_s \<le> snd p \<and> snd p + sizeof_mmapobj_s \<le> PROC_METADAT_SZ
       then Some (st\<lparr>fs := (fs st)(fst p \<mapsto> ProcFile pr (ms(snd p := f (ms (snd p)))))\<rparr>) else None
   | _ \<Rightarrow> None)"

definition get_chunkobj :: "nvst \<Rightarrow> pptr \<Rightarrow> chunkobj_s option" where
  "get_chunkobj st p = (case fs st (fst p) of
     Some (ChunkFile cs) \<Rightarrow>
       if snd p + sizeof_chunkobj_s \<le> MMAP_METADATA_SZ then Some (cs (snd p)) else None
   | _ \<Rightarrow> None)"

definition upd_chunkobj :: "nvst \<Rightarrow> pptr \<Rightarrow> (chunkobj_s \<Rightarrow> chunkobj_s) \<Rightarrow> nvst option" where
  "upd_chunkobj st p f = (case fs st (fst p) of
     Some (ChunkFile cs) \<Rightarrow>
       if snd p + sizeof_chunkobj_s \<le> MMAP_METADATA_SZ
       then Some (st\<lparr>fs := (fs st)(fst p \<mapsto> ChunkFile (cs(snd p := f (cs (snd p)))))\<rparr>) else None
   | _ \<Rightarrow> None)"

text \<open>Bytes of a data file through its mapping; an access that leaves the mapping is a fault.\<close>

definition mem_read :: "nvst \<Rightarrow> ULONG \<Rightarrow> nat \<Rightarrow> byte list option" where
  "mem_read st a n =
     (if n = 0 then Some []
      else do {
        (f, off) \<leftarrow> resolve (mmaps st) a;
        (case fs st f of
           Some (DataFile d) \<Rightarrow> if off + n \<le> length d then Some (take n (drop off d)) else None
         | _ \<Rightarrow> None) })"

definition mem_write :: "nvst \<Rightarrow> ULONG \<Rightarrow> byte list \<Rightarrow> nvst option" where
  "mem_write st a bs =
     (if bs = [] then Some st
      else do {
        (f, off) \<leftarrow> resolve (mmaps st) a;
        (case fs st f of
           Some (DataFile d) \<Rightarrow>
             if off + length bs \<le> length d
             then Some (st\<lparr>fs := (fs st)(f \<mapsto>
                    DataFile (take off d @ bs @ drop (off + length bs) d))\<rparr>)
             else None
         | _ \<Rightarrow> None) })"

definition mem_set :: "nvst \<Rightarrow> ULONG \<Rightarrow> byte \<Rightarrow> nat \<Rightarrow> nvst option" where
  "mem_set st a v n = mem_write st a (replicate n v)"

definition mem_copy :: "nvst \<Rightarrow> ULONG \<Rightarrow> ULONG \<Rightarrow> nat \<Rightarrow> nvst option" where
  "mem_copy st dest src n = do { bs \<leftarrow> mem_read st src n; mem_write st dest bs }"

text \<open>\<open>O_CREAT | O_TRUNC\<close> and \<open>ftruncate\<close> leave a zero-filled file.\<close>

definition setup_map_file :: "nvst \<Rightarrow> string \<Rightarrow> nvfile \<Rightarrow> nvst" where
  "setup_map_file st path zeros = st\<lparr>fs := (fs st)(path \<mapsto> zeros)\<rparr>"

definition check_existing_map_file :: "nvst \<Rightarrow> string \<Rightarrow> bool" where
  "check_existing_map_file st path = (fs st path \<noteq> None)"

definition sys_mmap :: "os_mmap \<Rightarrow> nvst \<Rightarrow> nat \<Rightarrow> string \<Rightarrow> nvst \<times> ULONG" where
  "sys_mmap os st len path = (case os (mmaps st) len of
     None \<Rightarrow> (st, MAP_FAILED)
   | Some a \<Rightarrow> (st\<lparr>mmaps := \<lparr>mp_base = a, mp_len = len, mp_file = path\<rparr> # mmaps st\<rparr>, a))"

text \<open>Volatile trees.\<close>

definition new_tree :: "nvst \<Rightarrow> tptr \<times> nvst" where
  "new_tree st = (next_tree st,
     st\<lparr>trees := (trees st)(next_tree st \<mapsto> rbtree_create), next_tree := Suc (next_tree st)\<rparr>)"

definition tree_insert :: "nvst \<Rightarrow> tptr \<Rightarrow> ULONG \<Rightarrow> pptr \<Rightarrow> nvst option" where
  "tree_insert st p key val = do {
     t \<leftarrow> trees st p;
     t \<leftarrow> rbtree_insert t key val IntComp;
     Some (st\<lparr>trees := (trees st)(p \<mapsto> t)\<rparr>) }"

definition tree_delete :: "nvst \<Rightarrow> tptr \<Rightarrow> ULONG \<Rightarrow> nvst option" where
  "tree_delete st p key = do {
     t \<leftarrow> trees st p;
     t \<leftarrow> rbtree_delete t key IntComp;
     Some (st\<lparr>trees := (trees st)(p \<mapsto> t)\<rparr>) }"

definition tree_lookup :: "nvst \<Rightarrow> tptr \<Rightarrow> ULONG \<Rightarrow> pptr option option" where
  "tree_lookup st p key = do { t \<leftarrow> trees st p; rbtree_lookup t key IntComp }"

end
