(* ===== verification/NvMap_Ops.thy ===== *)
theory NvMap_Ops
  imports NvMap
begin

text \<open>
  The operations of \<open>pvmobj/nv_map.cc\<close> on the state of theory \<open>NvMap\<close>, in the order of the source.
  An operation returns the new state with its result; \<open>None\<close> is a failed assertion or a bad pointer.
\<close>

definition CompRange :: "mmapobj_nodes compare_func" where
  "CompRange key_node a b = do {
     n \<leftarrow> key_node;
     if a > b \<and> mn_end_addr (nvalue n) > a then Some 0
     else if a > b then Some 1
     else if a < b then Some (- 1)
     else Some 0 }"

text \<open>\<open>mmap_wrap\<close> only checks for a null address; the mutex has no effect on one thread.\<close>

definition mmap_wrap :: "os_mmap \<Rightarrow> nvst \<Rightarrow> nat \<Rightarrow> string \<Rightarrow> (nvst \<times> ULONG) option" where
  "mmap_wrap os st len path = do {
     let (st, nvmap) = sys_mmap os st len path;
     c_assert (nvmap \<noteq> 0);
     Some (st, nvmap) }"

definition init_chunk_tree :: "nvst \<Rightarrow> pptr \<Rightarrow> nvst option" where
  "init_chunk_tree st mmapobj = do {
     let (t, st) = new_tree st;
     upd_mmapobj st mmapobj (\<lambda>m. m\<lparr>mo_chunkobj_tree := t, mo_chunk_tree_init := 1\<rparr>) }"

definition copy_chunkoj :: "nvst \<Rightarrow> pptr \<Rightarrow> pptr \<Rightarrow> nvst option" where
  "copy_chunkoj st dest src = do {
     s \<leftarrow> get_chunkobj st src;
     upd_chunkobj st dest (\<lambda>d. d\<lparr>ch_pid := ch_pid s, ch_chunkid := ch_chunkid s,
       ch_length := ch_length s, ch_vma_id := ch_vma_id s, ch_offset := ch_offset s\<rparr>) }"

definition initialize_mmapobj_tree :: "nvst \<Rightarrow> pptr \<Rightarrow> nvst option" where
  "initialize_mmapobj_tree st proc_obj = do {
     p \<leftarrow> get_proc st proc_obj;
     if pr_mmapobj_tree p = 0 then do {
       let (t, st) = new_tree st;
       c_assert (t \<noteq> 0);
       upd_proc st proc_obj (\<lambda>p. p\<lparr>pr_mmapobj_tree := t, pr_mmapobj_initialized := 1\<rparr>) }
     else Some st }"

definition copy_mmapobj :: "nvst \<Rightarrow> pptr \<Rightarrow> pptr \<Rightarrow> nvst option" where
  "copy_mmapobj st dest src = do {
     s \<leftarrow> get_mmapobj st src;
     upd_mmapobj st dest (\<lambda>d. d\<lparr>mo_vma_id := mo_vma_id s, mo_length := mo_length s,
       mo_proc_id := mo_proc_id s, mo_offset := mo_offset s, mo_numchunks := mo_numchunks s\<rparr>) }"

text \<open>
  The request is updated in place: its id becomes the id of the metadata mapping and its size
  that of the metadata file.
\<close>

definition create_mmapobj ::
  "os_mmap \<Rightarrow> nvst \<Rightarrow> rqst_s \<Rightarrow> ULONG \<Rightarrow> pptr \<Rightarrow> ULONG \<Rightarrow> (nvst \<times> rqst_s \<times> pptr) option" where
  "create_mmapobj os st rqst curr_offset proc_obj data_addr = do {
     c_assert (proc_map_start st \<noteq> 0);
     p \<leftarrow> get_proc st proc_obj;
     mmapobj \<leftarrow> resolve (mmaps st) (proc_map_start st + ucast (pr_meta_offset p));
     st \<leftarrow> upd_proc st proc_obj
             (\<lambda>p. p\<lparr>pr_meta_offset := pr_meta_offset p + of_nat sizeof_mmapobj_s\<rparr>);
     st \<leftarrow> upd_mmapobj st mmapobj (\<lambda>m. m\<lparr>mo_vma_id := rq_id rqst, mo_length := rq_bytes rqst,
             mo_proc_id := rq_pid rqst, mo_offset := curr_offset, mo_data_addr := data_addr\<rparr>);
     let rqst = rqst\<lparr>rq_id := BASE_METADATA_NVID + rq_id rqst, rq_bytes := of_nat MMAP_METADATA_SZ\<rparr>;
     let file_name = create_map_file PROCMAPMETADATA_PATH (sint (rq_pid rqst)) (sint (rq_id rqst));
     let st = setup_map_file st file_name (ChunkFile (\<lambda>_. zero_chunkobj));
     let (st, addr) = sys_mmap os st (unat (rq_bytes rqst)) file_name;
     c_assert (addr \<noteq> MAP_FAILED);
     st \<leftarrow> upd_mmapobj st mmapobj (\<lambda>m. m\<lparr>mo_strt_addr := addr, mo_mmapobjname := file_name\<rparr>);
     st \<leftarrow> init_chunk_tree st mmapobj;
     Some (st, rqst, mmapobj) }"

text \<open>\<open>rqst->var_name\<close> is an array, so the test on it always succeeds.\<close>

definition update_chunkobj :: "nvst \<Rightarrow> rqst_s \<Rightarrow> pptr \<Rightarrow> pptr \<Rightarrow> nvst option" where
  "update_chunkobj st rqst mmapobj chunkobj = do {
     m \<leftarrow> get_mmapobj st mmapobj;
     st \<leftarrow> upd_chunkobj st chunkobj (\<lambda>c. c\<lparr>ch_pid := rq_pid rqst, ch_chunkid := rq_id rqst,
             ch_length := ucast (rq_bytes rqst), ch_vma_id := mo_vma_id m,
             ch_offset := ucast (rq_offset rqst), ch_commitsz := 0, ch_valid := VALID,
             ch_nv_ptr := rq_nv_ptr rqst\<rparr>);
     st \<leftarrow> mem_set st (rq_nv_ptr rqst) 0 (unat (ucast (rq_bytes rqst) :: UINT));
     c_assert (rq_var_name rqst \<noteq> []);
     c_assert (length (rq_var_name rqst) < MAXOBJNAMELEN);
     upd_chunkobj st chunkobj (\<lambda>c. c\<lparr>ch_objname := rq_var_name rqst\<rparr>) }"

text \<open>The last two arguments of the \<open>memset\<close> are swapped: it writes nothing.\<close>

definition clear_chunkobj :: "nvst \<Rightarrow> pptr \<Rightarrow> nvst option" where
  "clear_chunkobj st chunkobj = do {
     c \<leftarrow> get_chunkobj st chunkobj;
     mem_set st (ch_nv_ptr c) (ucast (ch_length c)) 0 }"

definition create_chunkobj :: "nvst \<Rightarrow> rqst_s \<Rightarrow> pptr \<Rightarrow> (nvst \<times> pptr) option" where
  "create_chunkobj st rqst mmapobj = do {
     m \<leftarrow> get_mmapobj st mmapobj;
     c_assert (mo_strt_addr m \<noteq> 0);
     chunkobj \<leftarrow> resolve (mmaps st) (mo_strt_addr m + ucast (mo_meta_offset m));
     st \<leftarrow> upd_mmapobj st mmapobj
             (\<lambda>m. m\<lparr>mo_meta_offset := mo_meta_offset m + of_nat sizeof_chunkobj_s\<rparr>);
     st \<leftarrow> update_chunkobj st rqst mmapobj chunkobj;
     Some (st, chunkobj) }"

definition get_process_obj :: "nvst \<Rightarrow> pptr option \<Rightarrow> pptr option option" where
  "get_process_obj st mmapobj = (case mmapobj of
     None \<Rightarrow> Some None
   | Some mmapobj \<Rightarrow> do { m \<leftarrow> get_mmapobj st mmapobj; Some (mo_proc_obj m) })"

definition find_chunk :: "nvst \<Rightarrow> pptr \<Rightarrow> UINT \<Rightarrow> pptr option option" where
  "find_chunk st t_mmapobj chunkid = do {
     m \<leftarrow> get_mmapobj st t_mmapobj;
     if mo_chunkobj_tree m \<noteq> 0 then tree_lookup st (mo_chunkobj_tree m) (ucast chunkid)
     else Some None }"

text \<open>The result is 0 when no mapping below the node has the chunk.\<close>

fun find_vmaid_from_chunk :: "nat \<Rightarrow> nvst \<Rightarrow> pptr rbtree \<Rightarrow> ptr \<Rightarrow> UINT \<Rightarrow> UINT option" where
  "find_vmaid_from_chunk 0 st t n chunkid = (if n = NULL then Some 0 else None)"
| "find_vmaid_from_chunk (Suc fuel) st t n chunkid =
     (if n = NULL then Some 0
      else do {
        nn \<leftarrow> deref t n;
        ret \<leftarrow> (if nright nn \<noteq> NULL then find_vmaid_from_chunk fuel st t (nright nn) chunkid
               else Some 0);
        if ret \<noteq> 0 then Some ret
        else do {
          m \<leftarrow> get_mmapobj st (nvalue nn);
          chunkobj \<leftarrow> (if mo_chunk_tree_init m \<noteq> 0 then find_chunk st (nvalue nn) chunkid
                      else Some None);
          if chunkobj \<noteq> None then Some (mo_vma_id m)
          else if nleft nn \<noteq> NULL then find_vmaid_from_chunk fuel st t (nleft nn) chunkid
          else Some 0 } })"

definition find_mmapobj_from_chunkid :: "nvst \<Rightarrow> UINT \<Rightarrow> pptr \<Rightarrow> (nvst \<times> pptr option) option" where
  "find_mmapobj_from_chunkid st chunkid proc_obj = do {
     p \<leftarrow> get_proc st proc_obj;
     if pr_mmapobj_initialized p = 0 then do {
       st \<leftarrow> initialize_mmapobj_tree st proc_obj;
       Some (st, None) }
     else if pr_mmapobj_tree p \<noteq> 0 then do {
       t \<leftarrow> trees st (pr_mmapobj_tree p);
       vmid_l \<leftarrow> find_vmaid_from_chunk (brk t) st t (root t) chunkid;
       if vmid_l = 0 then Some (st, None)
       else do {
         r \<leftarrow> tree_lookup st (pr_mmapobj_tree p) (scast vmid_l);
         Some (st, r) } }
     else Some (st, None) }"

definition find_mmapobj :: "nvst \<Rightarrow> UINT \<Rightarrow> pptr \<Rightarrow> (nvst \<times> pptr option) option" where
  "find_mmapobj st vmid_l proc_obj = do {
     p \<leftarrow> get_proc st proc_obj;
     if pr_mmapobj_initialized p = 0 then do {
       st \<leftarrow> initialize_mmapobj_tree st proc_obj;
       Some (st, None) }
     else do {
       r \<leftarrow> tree_lookup st (pr_mmapobj_tree p) (ucast vmid_l);
       Some (st, r) } }"

section \<open>The cache of recent mappings\<close>

definition add_to_mmap_cache :: "nvst \<Rightarrow> pptr \<Rightarrow> nvst option" where
  "add_to_mmap_cache st mmapobj = do {
     m \<leftarrow> get_mmapobj st mmapobj;
     c_assert (next_mmap_entry st < NUM_MMAP_CACHE_CNT);
     let i = next_mmap_entry st;
     Some (st\<lparr>mmap_strt_addr_cache := (mmap_strt_addr_cache st)(i := mo_data_addr m),
             mmap_size_cache := (mmap_size_cache st)(i := ucast (mo_length m)),
             mmap_ref_cache := (mmap_ref_cache st)(i := Some mmapobj),
             next_mmap_entry := Suc i mod NUM_MMAP_CACHE_CNT\<rparr>) }"

definition mmap_cache_hit :: "nvst \<Rightarrow> ULONG \<Rightarrow> nat \<Rightarrow> bool" where
  "mmap_cache_hit st target idx \<longleftrightarrow>
     mmap_strt_addr_cache st idx \<le> target \<and>
     mmap_strt_addr_cache st idx + ucast (mmap_size_cache st idx) > target"

definition get_frm_mmap_cache :: "nvst \<Rightarrow> ULONG \<Rightarrow> pptr option" where
  "get_frm_mmap_cache st target =
     (case filter (mmap_cache_hit st target) [0..<NUM_MMAP_CACHE_CNT] of
        [] \<Rightarrow> None | idx # _ \<Rightarrow> mmap_ref_cache st idx)"

section \<open>Linking mappings and chunks\<close>

text \<open>A cache flush changes no state of the model.\<close>

definition add_mmapobj :: "nvst \<Rightarrow> pptr \<Rightarrow> pptr \<Rightarrow> nvst option" where
  "add_mmapobj st mmapobj proc_obj = do {
     p \<leftarrow> get_proc st proc_obj;
     st \<leftarrow> (if pr_mmapobj_initialized p = 0 then initialize_mmapobj_tree st proc_obj else Some st);
     p \<leftarrow> get_proc st proc_obj;
     c_assert (pr_mmapobj_tree p \<noteq> 0);
     m \<leftarrow> get_mmapobj st mmapobj;
     st \<leftarrow> tree_insert st (pr_mmapobj_tree p) (ucast (mo_vma_id m)) mmapobj;
     st \<leftarrow> upd_mmapobj st mmapobj (\<lambda>m. m\<lparr>mo_proc_obj := Some proc_obj\<rparr>);
     (if use_map_cache st then add_to_mmap_cache st mmapobj else Some st) }"

definition add_chunkobj :: "nvst \<Rightarrow> pptr \<Rightarrow> pptr \<Rightarrow> nvst option" where
  "add_chunkobj st mmapobj chunk_obj = do {
     m \<leftarrow> get_mmapobj st mmapobj;
     c_assert (mo_chunkobj_tree m \<noteq> 0);
     c \<leftarrow> get_chunkobj st chunk_obj;
     c_assert (ch_length c \<noteq> 0);
     st \<leftarrow> tree_insert st (mo_chunkobj_tree m) (ucast (ch_chunkid c)) chunk_obj;
     Some (st\<lparr>objnamemap := objnamemap_insert (ch_objname c) 0 (objnamemap st)\<rparr>) }"

section \<open>Loading the chunks of a mapping\<close>

text \<open>
  A metadata file that is missing is created empty (\<open>fopen\<close> with mode \<open>a+\<close>): reading a chunk from
  it is a fault.
\<close>

definition map_to_get_chunk_list :: "os_mmap \<Rightarrow> nvst \<Rightarrow> pptr \<Rightarrow> rqst_s \<Rightarrow> nvst option" where
  "map_to_get_chunk_list os st mmapobj rqst = do {
     let file_name = create_map_file PROCMAPMETADATA_PATH (sint (rq_pid rqst)) (sint (rq_id rqst));
     let st = (if fs st file_name = None then setup_map_file st file_name (DataFile []) else st);
     let (st, addr) = sys_mmap os st (unat (rq_bytes rqst)) file_name;
     upd_mmapobj st mmapobj (\<lambda>m. m\<lparr>mo_strt_addr := addr\<rparr>) }"

definition restore_chunk :: "pptr \<Rightarrow> nvst \<Rightarrow> nat \<Rightarrow> nvst option" where
  "restore_chunk mmapobj st idx = do {
     m \<leftarrow> get_mmapobj st mmapobj;
     nv_chunkobj \<leftarrow> resolve (mmaps st) (mo_strt_addr m + of_nat (idx * sizeof_chunkobj_s));
     c \<leftarrow> get_chunkobj st nv_chunkobj;
     st \<leftarrow> (if ch_valid c = INVALID then Some st
           else do {
             st \<leftarrow> upd_chunkobj st nv_chunkobj
                     (\<lambda>c. c\<lparr>ch_nv_ptr := mo_data_addr m + ucast (ch_offset c)\<rparr>);
             add_chunkobj st mmapobj nv_chunkobj });
     upd_mmapobj st mmapobj
       (\<lambda>m. m\<lparr>mo_mmap_offset := mo_mmap_offset m + of_nat sizeof_chunkobj_s\<rparr>) }"

definition restore_chunk_objs :: "os_mmap \<Rightarrow> nvst \<Rightarrow> pptr \<Rightarrow> nvst option" where
  "restore_chunk_objs os st mmapobj = do {
     m \<leftarrow> get_mmapobj st mmapobj;
     let rqst = \<lparr>rq_bytes = of_nat MMAP_METADATA_SZ, rq_var_name = [],
       rq_id = BASE_METADATA_NVID + mo_vma_id m, rq_pid = mo_proc_id m, rq_nv_ptr = 0,
       rq_log_ptr = 0, rq_offset = 0, rq_access = 0, rq_commitsz = 0\<rparr>;
     st \<leftarrow> upd_mmapobj st mmapobj (\<lambda>m. m\<lparr>mo_chunk_tree_init := 0\<rparr>);
     st \<leftarrow> map_to_get_chunk_list os st mmapobj rqst;
     m \<leftarrow> get_mmapobj st mmapobj;
     c_assert (mo_strt_addr m \<noteq> MAP_FAILED);
     c_assert (mo_strt_addr m \<noteq> 0);
     st \<leftarrow> upd_mmapobj st mmapobj (\<lambda>m. m\<lparr>mo_mmap_offset := 0\<rparr>);
     let file_name = create_map_file PROCMAPDATAPATH (sint (mo_proc_id m)) (sint (mo_vma_id m));
     if fs st file_name = None then Some st
     else do {
       let (st, addr) = sys_mmap os st (unat (mo_length m)) file_name;
       st \<leftarrow> upd_mmapobj st mmapobj (\<lambda>m. m\<lparr>mo_data_addr := addr\<rparr>);
       c_assert (addr \<noteq> 0);
       st \<leftarrow> (if mo_numchunks m \<noteq> 0 then init_chunk_tree st mmapobj else Some st);
       fold_option (restore_chunk mmapobj) st [0..<nat (sint (mo_numchunks m))] } }"

section \<open>Processes\<close>

definition add_mmapobj_to_proc ::
  "os_mmap \<Rightarrow> nvst \<Rightarrow> pptr \<Rightarrow> rqst_s \<Rightarrow> ULONG \<Rightarrow> ULONG \<Rightarrow> (nvst \<times> pptr) option" where
  "add_mmapobj_to_proc os st proc_obj rqst offset data_addr = do {
     (st, rqst, mmapobj) \<leftarrow> create_mmapobj os st rqst offset proc_obj data_addr;
     st \<leftarrow> add_mmapobj st mmapobj proc_obj;
     st \<leftarrow> upd_proc st proc_obj (\<lambda>p. p\<lparr>pr_pesist_mmaps := pr_pesist_mmaps p + 1\<rparr>);
     Some (st, mmapobj) }"

definition add_chunk_to_mmapobj :: "nvst \<Rightarrow> pptr \<Rightarrow> rqst_s \<Rightarrow> (nvst \<times> pptr) option" where
  "add_chunk_to_mmapobj st mmapobj rqst = do {
     (st, chunkobj) \<leftarrow> create_chunkobj st rqst mmapobj;
     st \<leftarrow> add_chunkobj st mmapobj chunkobj;
     Some (st, chunkobj) }"

definition intialize_proc_obj :: "UINT \<Rightarrow> proc_s \<Rightarrow> proc_s" where
  "intialize_proc_obj pid p = p\<lparr>pr_pid := pid, pr_size := 0, pr_pesist_mmaps := 0,
     pr_num_mmaps := 0, pr_start_addr := 0, pr_offset := 0,
     pr_meta_offset := of_nat sizeof_proc_s\<rparr>"

definition find_process :: "nvst \<Rightarrow> UINT \<Rightarrow> pptr option option" where
  "find_process st pid =
     (if \<not> proc_list_init st then Some None
      else rbtree_lookup (proc_tree st) (scast pid) IntComp)"

definition create_or_load_proc_obj :: "os_mmap \<Rightarrow> nvst \<Rightarrow> UINT \<Rightarrow> (nvst \<times> pptr) option" where
  "create_or_load_proc_obj os st pid = do {
     r \<leftarrow> find_process st pid;
     (case r of
        Some proc_obj \<Rightarrow> Some (st, proc_obj)
      | None \<Rightarrow> do {
          let file_name = generate_file_name PROCMETADATA_PATH (sint pid);
          let st = (if check_existing_map_file st file_name then st
                    else setup_map_file st file_name
                      (ProcFile (intialize_proc_obj pid zero_proc) (\<lambda>_. zero_mmapobj)));
          let (st, a) = sys_mmap os st PROC_METADAT_SZ file_name;
          c_assert (a \<noteq> MAP_FAILED);
          Some (st\<lparr>proc_map_start := a\<rparr>, (file_name, 0)) }) }"

definition find_proc_obj :: "nvst \<Rightarrow> UINT \<Rightarrow> (nvst \<times> pptr option) option" where
  "find_proc_obj st proc_id =
     (if enable_optimze st \<and> proc_id \<noteq> 0 \<and> proc_id = prev_proc_id st \<and> prev_proc_obj st \<noteq> None
      then Some (st, prev_proc_obj st)
      else if \<not> proc_list_init st
      then Some (st\<lparr>proc_tree := rbtree_create, proc_list_init := True\<rparr>, None)
      else do {
        r \<leftarrow> rbtree_lookup (proc_tree st) (scast proc_id) IntComp;
        let st = (if enable_optimze st then st\<lparr>prev_proc_obj := r\<rparr> else st);
        Some (st, r) })"

definition add_proc_obj :: "nvst \<Rightarrow> pptr \<Rightarrow> nvst option" where
  "add_proc_obj st proc_obj = do {
     let st = (if \<not> proc_list_init st
               then st\<lparr>proc_tree := rbtree_create, proc_list_init := True\<rparr> else st);
     p \<leftarrow> get_proc st proc_obj;
     t \<leftarrow> rbtree_insert (proc_tree st) (scast (pr_pid p)) proc_obj IntComp;
     Some (st\<lparr>proc_tree := t\<rparr>) }"

definition get_proc_strtaddress :: "nvst \<Rightarrow> rqst_s \<Rightarrow> (nvst \<times> ULONG) option" where
  "get_proc_strtaddress st rqst = do {
     (st, proc_obj) \<leftarrow> find_proc_obj st (rq_pid rqst);
     (case proc_obj of
        None \<Rightarrow> Some (st, 0)
      | Some proc_obj \<Rightarrow> do { p \<leftarrow> get_proc st proc_obj; Some (st, pr_start_addr p) }) }"

text \<open>
  The loop body of \<open>load_process\<close>. \<open>check_modify_access\<close> is constant in this build, so the process
  and the mappings are used in place and not copied.
\<close>

definition load_mmapobj :: "os_mmap \<Rightarrow> pptr \<Rightarrow> nvst \<Rightarrow> nat \<Rightarrow> nvst option" where
  "load_mmapobj os proc_obj st idx = do {
     let mmapobj = (fst proc_obj, snd proc_obj + sizeof_proc_s + idx * sizeof_mmapobj_s);
     st \<leftarrow> add_mmapobj st mmapobj proc_obj;
     restore_chunk_objs os st mmapobj }"

definition load_process :: "os_mmap \<Rightarrow> nvst \<Rightarrow> UINT \<Rightarrow> (nvst \<times> pptr) option" where
  "load_process os st pid = do {
     c_assert (g_initialized st);
     (st, proc_obj) \<leftarrow> create_or_load_proc_obj os st pid;
     st \<leftarrow> upd_proc st proc_obj (\<lambda>p. p\<lparr>pr_mmapobj_initialized := 0, pr_mmapobj_tree := 0\<rparr>);
     st \<leftarrow> add_proc_obj st proc_obj;
     st \<leftarrow> initialize_mmapobj_tree st proc_obj;
     p \<leftarrow> get_proc st proc_obj;
     st \<leftarrow> fold_option (load_mmapobj os proc_obj) st [0..<nat (sint (pr_pesist_mmaps p))];
     Some (st, proc_obj) }"

text \<open>\<open>nv_initialize\<close> sets the flags of this build, once, and loads the process.\<close>

definition nv_initialize :: "os_mmap \<Rightarrow> nvst \<Rightarrow> UINT \<Rightarrow> nvst option" where
  "nv_initialize os st pid =
     (if g_initialized st then Some st
      else do {
        let st = st\<lparr>useCacheFlush := False, enable_optimze := False, use_map_cache := False,
                    enable_trans := False, g_initialized := True\<rparr>;
        (st, procobj) \<leftarrow> load_process os st pid;
        Some st })"

definition create_new_process :: "os_mmap \<Rightarrow> nvst \<Rightarrow> UINT \<Rightarrow> (nvst \<times> pptr) option" where
  "create_new_process os st pid = do {
     st \<leftarrow> nv_initialize os st pid;
     (st, proc_obj) \<leftarrow> create_or_load_proc_obj os st pid;
     st \<leftarrow> add_proc_obj st proc_obj;
     Some (st, proc_obj) }"

definition findoffset :: "nvst \<Rightarrow> UINT \<Rightarrow> ULONG \<Rightarrow> (nvst \<times> ULONG) option" where
  "findoffset st proc_id curr_addr = do {
     (st, proc_obj) \<leftarrow> find_proc_obj st proc_id;
     (case proc_obj of
        None \<Rightarrow> Some (st, 0)
      | Some proc_obj \<Rightarrow> do { p \<leftarrow> get_proc st proc_obj; Some (st, curr_addr - pr_start_addr p) }) }"

definition get_proc_num_maps :: "nvst \<Rightarrow> UINT \<Rightarrow> (nvst \<times> UINT) option" where
  "get_proc_num_maps st pid = do {
     (st, proc_obj) \<leftarrow> find_proc_obj st pid;
     (case proc_obj of
        None \<Rightarrow> Some (st, 0)
      | Some proc_obj \<Rightarrow> do { p \<leftarrow> get_proc st proc_obj; Some (st, pr_pesist_mmaps p) }) }"

section \<open>Address ranges of the mappings\<close>

definition create_map_tree :: "nvst \<Rightarrow> nvst" where
  "create_map_tree st = (if map_tree st = None then st\<lparr>map_tree := Some rbtree_create\<rparr> else st)"

definition insert_mmapobj_node :: "nvst \<Rightarrow> ULONG \<Rightarrow> ULONG \<Rightarrow> UINT \<Rightarrow> UINT \<Rightarrow> nvst option" where
  "insert_mmapobj_node st val sz map_id proc_id = do {
     let mmapobj_struct = \<lparr>mn_start_addr = val, mn_end_addr = val + sz, mn_map_id = map_id,
       mn_proc_id = proc_id\<rparr>;
     let st = create_map_tree st;
     t \<leftarrow> map_tree st;
     t \<leftarrow> rbtree_insert t val mmapobj_struct IntComp;
     Some (st\<lparr>map_tree := Some t\<rparr>) }"

text \<open>
  The result is the id of the mapping (0 when there is none), the start of its data and, when it came
  from the cache, the mapping itself.
\<close>

definition locate_mmapobj_node :: "nvst \<Rightarrow> ULONG \<Rightarrow> (UINT \<times> ULONG \<times> pptr option) option" where
  "locate_mmapobj_node st a =
     (case (if use_map_cache st then get_frm_mmap_cache st a else None) of
        Some tmpobj \<Rightarrow> do {
          m \<leftarrow> get_mmapobj st tmpobj;
          Some (mo_vma_id m, mo_data_addr m, Some tmpobj) }
      | None \<Rightarrow> do {
          t \<leftarrow> map_tree st;
          r \<leftarrow> rbtree_lookup t a CompRange;
          (case r of
             Some n \<Rightarrow> Some (mn_map_id n, mn_start_addr n, None)
           | None \<Rightarrow> Some (0, 0, None)) })"

text \<open>\<open>_mmap\<close>: the file is made with a 32 bit size, the mapping with the whole one.\<close>

definition nv_mmap :: "os_mmap \<Rightarrow> nvst \<Rightarrow> ULONG \<Rightarrow> UINT \<Rightarrow> (nvst \<times> ULONG) option" where
  "nv_mmap os st sz proc_id = do {
     c_assert (proc_id \<noteq> 0);
     (st, r) \<leftarrow> find_proc_obj st proc_id;
     (st, proc_obj) \<leftarrow> (case r of
        Some proc_obj \<Rightarrow> Some (st, proc_obj)
      | None \<Rightarrow> create_or_load_proc_obj os st proc_id);
     p \<leftarrow> get_proc st proc_obj;
     let vma_id = pr_num_mmaps p + 1;
     st \<leftarrow> upd_proc st proc_obj (\<lambda>p. p\<lparr>pr_num_mmaps := pr_num_mmaps p + 1\<rparr>);
     let file_name = create_map_file PROCMAPDATAPATH (sint proc_id) (sint vma_id);
     let st = setup_map_file st file_name (DataFile (replicate (unat (ucast sz :: UINT)) 0));
     (st, ret) \<leftarrow> mmap_wrap os st (unat sz) file_name;
     st \<leftarrow> insert_mmapobj_node st ret sz vma_id proc_id;
     Some (st\<lparr>proc_vmas := record_vmas vma_id sz (proc_vmas st)\<rparr>, ret) }"

section \<open>Objects\<close>

definition get_chunk :: "nvst \<Rightarrow> rqst_s \<Rightarrow> (nvst \<times> pptr option) option" where
  "get_chunk st rqst = do {
     c_assert (enable_trans st \<longrightarrow> rq_bytes rqst \<noteq> 0);
     let chunkid = (if rq_id rqst = 0 then gen_id_from_str (rq_var_name rqst) else rq_id rqst);
     c_assert (chunkid \<noteq> 0);
     c_assert (rq_pid rqst \<noteq> 0);
     (st, proc_obj) \<leftarrow> find_proc_obj st (rq_pid rqst);
     (case proc_obj of
        None \<Rightarrow> Some (st, None)
      | Some proc_obj \<Rightarrow> do {
          (st, mmapobj_ptr) \<leftarrow> find_mmapobj_from_chunkid st chunkid proc_obj;
          (case mmapobj_ptr of
             None \<Rightarrow> Some (st, None)
           | Some mmapobj_ptr \<Rightarrow> do {
               r \<leftarrow> find_chunk st mmapobj_ptr chunkid;
               Some (st, r) }) }) }"

definition check_if_chunk_exists :: "nvst \<Rightarrow> rqst_s \<Rightarrow> (nvst \<times> pptr option) option" where
  "check_if_chunk_exists st rqst = do {
     (st, chunk) \<leftarrow> get_chunk st rqst;
     (case chunk of
        None \<Rightarrow> Some (st, None)
      | Some chunk \<Rightarrow> do {
          c \<leftarrow> get_chunkobj st chunk;
          if ch_valid c \<noteq> INVALID \<and> ch_length c \<noteq> 0 then do {
            st \<leftarrow> upd_chunkobj st chunk (\<lambda>c. c\<lparr>ch_chunkid := gen_id_from_str (rq_var_name rqst)\<rparr>);
            Some (st, Some chunk) }
          else Some (st, None) }) }"

definition nv_delete :: "nvst \<Rightarrow> rqst_s \<Rightarrow> (nvst \<times> int) option" where
  "nv_delete st rqst = do {
     c_assert (rq_pid rqst \<noteq> 0);
     (st, r) \<leftarrow> find_proc_obj st (rq_pid rqst);
     proc_obj \<leftarrow> r;
     (st, chunk) \<leftarrow> get_chunk st rqst;
     (case chunk of
        None \<Rightarrow> Some (st, - 1)
      | Some chunk \<Rightarrow> do {
          st \<leftarrow> upd_chunkobj st chunk (\<lambda>c. c\<lparr>ch_commitsz := 0, ch_valid := INVALID\<rparr>);
          c \<leftarrow> get_chunkobj st chunk;
          (st, mmapobj) \<leftarrow> find_mmapobj_from_chunkid st (ch_chunkid c) proc_obj;
          (case mmapobj of
             None \<Rightarrow> Some (st, - 1)
           | Some mmapobj \<Rightarrow> do {
               m \<leftarrow> get_mmapobj st mmapobj;
               st \<leftarrow> (if mo_chunkobj_tree m \<noteq> 0
                     then tree_delete st (mo_chunkobj_tree m) (ucast (ch_chunkid c)) else Some st);
               Some (st\<lparr>objnamemap := objnamemap_delete (rq_var_name rqst) (objnamemap st)\<rparr>, 0) }) }) }"

text \<open>
  What \<open>nv_record_chunk\<close> does when the name was taken: it copies the old contents and deletes by
  name; the request then describes the old object.
\<close>

definition replace_chunk :: "nvst \<Rightarrow> rqst_s \<Rightarrow> pptr \<Rightarrow> pptr \<Rightarrow> (nvst \<times> rqst_s) option" where
  "replace_chunk st rqst chunk oldchunk = do {
     old \<leftarrow> get_chunkobj st oldchunk;
     c \<leftarrow> get_chunkobj st chunk;
     let bytes = (if ch_length old < ch_length c then ch_length old else ch_length c);
     st \<leftarrow> mem_copy st (ch_nv_ptr c) (ch_nv_ptr old) (unat bytes);
     st \<leftarrow> upd_chunkobj st chunk (\<lambda>c. c\<lparr>ch_commitsz := ch_commitsz old\<rparr>);
     let rqst = rqst\<lparr>rq_bytes := ucast (ch_length old), rq_pid := ch_pid old,
       rq_nv_ptr := ch_nv_ptr old, rq_var_name := ch_objname old\<rparr>;
     (st, ret) \<leftarrow> nv_delete st rqst;
     Some (st, rqst) }"

definition nv_record_chunk :: "os_mmap \<Rightarrow> nvst \<Rightarrow> rqst_s \<Rightarrow> ULONG \<Rightarrow> (nvst \<times> rqst_s) option" where
  "nv_record_chunk os st rqst a = do {
     c_assert (g_initialized st);
     (st, r) \<leftarrow> find_proc_obj st (rq_pid rqst);
     (st, proc_obj) \<leftarrow> (case r of
        Some proc_obj \<Rightarrow> Some (st, proc_obj)
      | None \<Rightarrow> create_new_process os st (rq_pid rqst));
     (st, oldchunk) \<leftarrow> check_if_chunk_exists st rqst;
     (vma_id, start_addr, mmapobj) \<leftarrow> locate_mmapobj_node st a;
     c_assert (vma_id \<noteq> 0);
     c_assert (start_addr \<noteq> 0);
     (st, mmapobj) \<leftarrow> (case mmapobj of
        Some m \<Rightarrow> Some (st, Some m)
      | None \<Rightarrow> find_mmapobj st vma_id proc_obj);
     let lcl_rqst = rqst\<lparr>rq_id := vma_id\<rparr>;
     (st, mmapobj, bytes) \<leftarrow> (case mmapobj of
        None \<Rightarrow> do {
          let (sz, vmas) = get_vma_size vma_id (proc_vmas st);
          let st = st\<lparr>proc_vmas := vmas\<rparr>;
          (st, mmapobj) \<leftarrow>
            add_mmapobj_to_proc os st proc_obj (lcl_rqst\<lparr>rq_bytes := sz\<rparr>) 0 start_addr;
          Some (st, mmapobj, of_nat MMAP_METADATA_SZ) }
      | Some mmapobj \<Rightarrow> do {
          m \<leftarrow> get_mmapobj st mmapobj;
          Some (st, mmapobj, mo_length m) });
     c_assert (bytes \<noteq> 0);
     let rqst = rqst\<lparr>rq_id := gen_id_from_str (rq_var_name rqst)\<rparr>;
     c_assert (rq_id rqst \<noteq> 0);
     let st = st\<lparr>prev_proc_id := rq_pid rqst\<rparr>;
     let offset = (ucast (a - start_addr) :: UINT);
     let lcl_rqst = rqst\<lparr>rq_nv_ptr := a, rq_offset := ucast offset\<rparr>;
     (st, chunk) \<leftarrow> add_chunk_to_mmapobj st mmapobj lcl_rqst;
     st \<leftarrow> upd_mmapobj st mmapobj (\<lambda>m. m\<lparr>mo_numchunks := mo_numchunks m + 1\<rparr>);
     (st, rqst) \<leftarrow> (case oldchunk of
        None \<Rightarrow> Some (st, rqst)
      | Some oldchunk \<Rightarrow> replace_chunk st rqst chunk oldchunk);
     c \<leftarrow> get_chunkobj st chunk;
     Some (st\<lparr>chunkmap := record_chunks (ch_nv_ptr c) chunk (chunkmap st)\<rparr>, rqst) }"

definition nv_map_read :: "os_mmap \<Rightarrow> nvst \<Rightarrow> rqst_s \<Rightarrow> (nvst \<times> rqst_s \<times> ULONG) option" where
  "nv_map_read os st rqst = do {
     r \<leftarrow> find_process st (rq_pid rqst);
     (st, proc_obj) \<leftarrow> (case r of
        Some proc_obj \<Rightarrow> Some (st, proc_obj)
      | None \<Rightarrow> load_process os st (rq_pid rqst));
     let chunk_id = (if rq_id rqst \<noteq> 0 then rq_id rqst else gen_id_from_str (rq_var_name rqst));
     let error = (\<lambda>st. Some (st, rqst\<lparr>rq_nv_ptr := 0, rq_log_ptr := 0\<rparr>, 0));
     (st, mmapobj_ptr) \<leftarrow> find_mmapobj_from_chunkid st chunk_id proc_obj;
     (case mmapobj_ptr of
        None \<Rightarrow> error st
      | Some mmapobj_ptr \<Rightarrow> do {
          m \<leftarrow> get_mmapobj st mmapobj_ptr;
          r \<leftarrow> tree_lookup st (mo_chunkobj_tree m) (ucast chunk_id);
          chunkobj \<leftarrow> r;
          c \<leftarrow> get_chunkobj st chunkobj;
          c_assert (ch_nv_ptr c \<noteq> 0);
          c_assert (ch_length c \<noteq> 0);
          if ch_valid c = INVALID then error st
          else Some (st, rqst\<lparr>rq_nv_ptr := ch_nv_ptr c, rq_bytes := ucast (ch_length c),
                 rq_commitsz := ch_commitsz c\<rparr>, ch_nv_ptr c) }) }"

text \<open>Without shadow copies \<open>nv_commit\<close> only checks that the object is there.\<close>

definition nv_commit :: "nvst \<Rightarrow> rqst_s \<Rightarrow> nvst option" where
  "nv_commit st rqst = do {
     (st, r) \<leftarrow> get_chunk st rqst;
     chunk \<leftarrow> r;
     c \<leftarrow> get_chunkobj st chunk;
     c_assert (ch_length c \<noteq> 0);
     Some st }"

definition nv_commit_len :: "nvst \<Rightarrow> rqst_s \<Rightarrow> ULONG \<Rightarrow> nvst option" where
  "nv_commit_len st rqst sz = do {
     (st, r) \<leftarrow> get_chunk st rqst;
     chunk \<leftarrow> r;
     st \<leftarrow> upd_chunkobj st chunk (\<lambda>c. c\<lparr>ch_commitsz := ucast sz\<rparr>);
     c \<leftarrow> get_chunkobj st chunk;
     c_assert (ch_length c \<noteq> 0);
     Some st }"

text \<open>The name is copied without a check of its length: \<open>None\<close> is the write past the field.\<close>

definition nv_rename :: "nvst \<Rightarrow> rqst_s \<Rightarrow> string \<Rightarrow> nvst option" where
  "nv_rename st src_rqst destname = do {
     (st, r) \<leftarrow> get_chunk st src_rqst;
     (case r of
        None \<Rightarrow> Some st
      | Some oldchunk \<Rightarrow> do {
          (st, r) \<leftarrow> find_proc_obj st (rq_pid src_rqst);
          proc_obj \<leftarrow> r;
          old \<leftarrow> get_chunkobj st oldchunk;
          (st, r) \<leftarrow> find_mmapobj_from_chunkid st (ch_chunkid old) proc_obj;
          (case r of
             None \<Rightarrow> Some st
           | Some mmapobj \<Rightarrow> do {
               st \<leftarrow> (if ch_length old \<noteq> 0 then do {
                       c_assert (length destname < MAXOBJNAMELEN);
                       st \<leftarrow> upd_chunkobj st oldchunk (\<lambda>c. c\<lparr>ch_chunkid := gen_id_from_str destname,
                               ch_objname := destname, ch_valid := VALID\<rparr>);
                       add_chunkobj st mmapobj oldchunk }
                     else Some st);
               let names = objnamemap_delete (rq_var_name src_rqst) (objnamemap st);
               Some (st\<lparr>objnamemap := objnamemap_insert destname 0 names\<rparr>) }) }) }"

definition delete_mmapobj :: "nvst \<Rightarrow> pptr \<Rightarrow> nvst option" where
  "delete_mmapobj st mmapobj = do {
     m \<leftarrow> get_mmapobj st mmapobj;
     Some (if mo_mmapobjname m \<noteq> [] then st\<lparr>fs := (fs st)(mo_mmapobjname m := None)\<rparr> else st) }"

section \<open>Restart\<close>

text \<open>
  A process that ends, or a machine that goes down, loses everything but the files. The globals of
  the next process start zeroed.
\<close>

definition restart :: "nvst \<Rightarrow> nvst" where
  "restart st = \<lparr>fs = fs st, mmaps = [], proc_map_start = 0, proc_list_init = False,
     proc_tree = rbtree_create, trees = Map.empty, next_tree = 1, map_tree = None, objnamemap = [],
     chunkmap = [], proc_vmas = [], g_initialized = False, useCacheFlush = False,
     enable_optimze = False, enable_trans = False, use_map_cache = False, prev_proc_obj = None,
     prev_proc_id = 0, mmap_strt_addr_cache = (\<lambda>_. 0), mmap_size_cache = (\<lambda>_. 0),
     mmap_ref_cache = (\<lambda>_. None), next_mmap_entry = 0\<rparr>"

end
