(* ===== verification/NvMap_Env.thy ===== *)
theory NvMap_Env
  imports NvMap_Ops
begin

text \<open>
  The surroundings of the object store: what it relies on of the operating system, the ranges of
  addresses behind which a file lies, and the names of its files.
\<close>

section \<open>The operating system\<close>

text \<open>
  What the code relies on of \<open>mmap\<close>: as long as there are fewer than \<open>vm.max_map_count\<close> mappings
  and none is larger than 4 GiB, a new mapping of at most 4 GiB gets a non-null range of addresses
  that overlaps no other mapping.
\<close>

definition MAX_MAP_COUNT :: nat where
  "MAX_MAP_COUNT = 65530"

definition disj_map :: "nat \<Rightarrow> nat \<Rightarrow> mapping \<Rightarrow> bool" where
  "disj_map a n m \<longleftrightarrow> a + n \<le> unat (mp_base m) \<or> unat (mp_base m) + mp_len m \<le> a"

definition maps_wf :: "mapping list \<Rightarrow> bool" where
  "maps_wf ms \<longleftrightarrow> (\<forall>m \<in> set ms. mp_len m \<le> 2 ^ 32 \<and> unat (mp_base m) + mp_len m < 2 ^ 64)"

definition os_ok :: "os_mmap \<Rightarrow> bool" where
  "os_ok os \<longleftrightarrow> (\<forall>ms n. maps_wf ms \<and> length ms < MAX_MAP_COUNT \<and> 0 < n \<and> n \<le> 2 ^ 32 \<longrightarrow>
     (\<exists>a. os ms n = Some a \<and> a \<noteq> 0 \<and> unat a + n < 2 ^ 64 \<and> (\<forall>m \<in> set ms. disj_map (unat a) n m)))"

lemma os_okE:
  assumes "os_ok os" and "maps_wf ms" and "length ms < MAX_MAP_COUNT" and "0 < n" and "n \<le> 2 ^ 32"
  obtains a where "os ms n = Some a" and "a \<noteq> 0" and "a \<noteq> MAP_FAILED" and "unat a + n < 2 ^ 64"
    and "\<forall>m \<in> set ms. disj_map (unat a) n m"
proof -
  obtain a where a: "os ms n = Some a" "a \<noteq> 0" "unat a + n < 2 ^ 64" "\<forall>m \<in> set ms. disj_map (unat a) n m"
    using assms unfolding os_ok_def by blast
  moreover have "a \<noteq> MAP_FAILED" using a(3) assms(4) by (auto simp: unsigned_minus_1_eq_mask mask_eq_exp_minus_1)
  ultimately show ?thesis using that by blast
qed

text \<open>First fit among bases 16 GiB apart satisfies it.\<close>

definition first_fit :: os_mmap where
  "first_fit ms n =
     (case filter (\<lambda>j. \<forall>m \<in> set ms. disj_map (2 ^ 34 * j) n m) [1..<MAX_MAP_COUNT + 1] of
        [] \<Rightarrow> None | j # _ \<Rightarrow> Some (of_nat (2 ^ 34 * j)))"

lemma one_slot:
  assumes "\<not> disj_map (2 ^ 34 * i) n m" and "\<not> disj_map (2 ^ 34 * j) n m" and "n \<le> 2 ^ 32"
    and "mp_len m \<le> 2 ^ 32"
  shows "i = j"
proof (rule ccontr)
  assume "i \<noteq> j"
  then consider "Suc i \<le> j" | "Suc j \<le> i" by linarith
  then show False
  proof cases
    case 1
    then have "2 ^ 34 * Suc i \<le> (2 ^ 34 * j :: nat)" by (rule mult_left_mono) simp
    then show False using assms by (auto simp: disj_map_def)
  next
    case 2
    then have "2 ^ 34 * Suc j \<le> (2 ^ 34 * i :: nat)" by (rule mult_left_mono) simp
    then show False using assms by (auto simp: disj_map_def)
  qed
qed

lemma free_slot:
  assumes "maps_wf ms" and "n \<le> 2 ^ 32" and "finite J" and "length ms < card J"
  shows "\<exists>j \<in> J. \<forall>m \<in> set ms. disj_map (2 ^ 34 * j) n m"
  using assms(1,3,4)
proof (induction ms arbitrary: J)
  case Nil
  then show ?case using card_gt_0_iff by fastforce
next
  case (Cons m ms)
  let ?B = "{j \<in> J. \<not> disj_map (2 ^ 34 * j) n m}"
  have "mp_len m \<le> 2 ^ 32" using Cons.prems(1) by (simp add: maps_wf_def)
  then have "card ?B \<le> 1" using one_slot assms(2) Cons.prems(2) by (auto simp: card_le_Suc0_iff_eq)
  moreover have "card (J - ?B) = card J - card ?B"
    using Cons.prems(2) by (intro card_Diff_subset) auto
  ultimately have "length ms < card (J - ?B)" using Cons.prems(3) by simp
  moreover have "maps_wf ms" using Cons.prems(1) by (simp add: maps_wf_def)
  ultimately obtain j where "j \<in> J - ?B" "\<forall>m \<in> set ms. disj_map (2 ^ 34 * j) n m"
    using Cons.IH [of "J - ?B"] Cons.prems(2) by auto
  then show ?case by auto
qed

lemma os_ok_first_fit: "os_ok first_fit"
  unfolding os_ok_def
proof (intro allI impI, elim conjE)
  fix ms n assume ms: "maps_wf ms" "length ms < MAX_MAP_COUNT" "0 < n" "n \<le> (2::nat) ^ 32"
  let ?P = "\<lambda>j. \<forall>m \<in> set ms. disj_map (2 ^ 34 * j) n m"
  obtain j where "j \<in> {1..<MAX_MAP_COUNT + 1}" "?P j"
    using free_slot [OF ms(1,4), of "{1..<MAX_MAP_COUNT + 1}"] ms(2) by auto
  then have "j \<in> set (filter ?P [1..<MAX_MAP_COUNT + 1])" by (simp del: upt_Suc)
  then obtain i js where f: "filter ?P [1..<MAX_MAP_COUNT + 1] = i # js"
    by (metis empty_iff list.set(1) neq_Nil_conv)
  then have "i \<in> set (filter ?P [1..<MAX_MAP_COUNT + 1])" by simp
  then have i: "1 \<le> i" "i \<le> 65530" "?P i" by (simp_all add: MAX_MAP_COUNT_def del: upt_Suc upt_rec_numeral)
  have "2 ^ 34 * i < (2 ^ 63 :: nat)" using i(2) by simp
  then have u: "unat (of_nat (2 ^ 34 * i) :: ULONG) = 2 ^ 34 * i"
    unfolding unat_of_nat by (intro mod_less) simp
  have "first_fit ms n = Some (of_nat (2 ^ 34 * i))" unfolding first_fit_def f by simp
  moreover have "(of_nat (2 ^ 34 * i) :: ULONG) \<noteq> 0"
    using u i(1) by (metis mult_eq_0_iff not_one_le_zero power_not_zero unat_0 zero_neq_numeral)
  moreover have "unat (of_nat (2 ^ 34 * i) :: ULONG) + n < 2 ^ 64"
    using u \<open>2 ^ 34 * i < (2 ^ 63 :: nat)\<close> ms(4) by simp
  ultimately show "\<exists>a. first_fit ms n = Some a \<and> a \<noteq> 0 \<and> unat a + n < 2 ^ 64 \<and>
      (\<forall>m \<in> set ms. disj_map (unat a) n m)"
    using i(3) u by (metis (no_types, lifting))
qed

section \<open>Mapped ranges\<close>

definition maps_to :: "mapping list \<Rightarrow> ULONG \<Rightarrow> nat \<Rightarrow> string \<Rightarrow> bool" where
  "maps_to ms a n f \<longleftrightarrow> a \<noteq> 0 \<and> unat a + n < 2 ^ 64 \<and>
     (\<forall>off < n. resolve ms (a + of_nat off) = Some (f, off))"

definition map_ext :: "mapping list \<Rightarrow> mapping list \<Rightarrow> bool" where
  "map_ext ms ms' \<longleftrightarrow> (\<forall>a r. resolve ms a = Some r \<longrightarrow> resolve ms' a = Some r)"

lemma map_ext_refl [simp]: "map_ext ms ms"
  by (simp add: map_ext_def)

lemma map_ext_trans: "map_ext ms ms' \<Longrightarrow> map_ext ms' ms'' \<Longrightarrow> map_ext ms ms''"
  by (simp add: map_ext_def)

lemma maps_to_ext: "maps_to ms a n f \<Longrightarrow> map_ext ms ms' \<Longrightarrow> maps_to ms' a n f"
  by (simp add: maps_to_def map_ext_def)

lemma unat_add_off: "unat (a :: ULONG) + n < 2 ^ 64 \<Longrightarrow> unat (a + of_nat n) = unat a + n"
proof -
  assume "unat a + n < 2 ^ 64"
  then have "unat a + n < 18446744073709551616" and n: "n < 18446744073709551616" by simp_all
  then have "unat (of_nat n :: ULONG) = n" unfolding unat_of_nat by simp
  then show ?thesis using \<open>unat a + n < 2 ^ 64\<close> by (simp add: unat_word_ariths(1))
qed

lemma resolve_in:
  "resolve ms a = Some r \<Longrightarrow> \<exists>m \<in> set ms. unat (mp_base m) \<le> unat a \<and> unat a < unat (mp_base m) + mp_len m"
  by (induction ms) (auto split: if_splits)

lemma maps_to_new:
  assumes "a \<noteq> 0" and "unat a + n < 2 ^ 64"
  shows "maps_to (\<lparr>mp_base = a, mp_len = n, mp_file = f\<rparr> # ms) a n f"
proof -
  have "unat (a + of_nat off) = unat a + off" if "off < n" for off
    using that assms(2) by (intro unat_add_off) simp
  then show ?thesis using assms by (simp add: maps_to_def)
qed

lemma map_ext_new:
  assumes "\<forall>m \<in> set ms. disj_map (unat a) n m"
  shows "map_ext ms (\<lparr>mp_base = a, mp_len = n, mp_file = f\<rparr> # ms)"
  unfolding map_ext_def
proof (intro allI impI)
  fix x r assume r: "resolve ms x = Some r"
  then obtain m where "m \<in> set ms" "unat (mp_base m) \<le> unat x" "unat x < unat (mp_base m) + mp_len m"
    using resolve_in by blast
  moreover have "disj_map (unat a) n m" using assms \<open>m \<in> set ms\<close> by blast
  ultimately have "\<not> (unat a \<le> unat x \<and> unat x < unat a + n)" by (auto simp: disj_map_def)
  then show "resolve (\<lparr>mp_base = a, mp_len = n, mp_file = f\<rparr> # ms) x = Some r" using r by auto
qed

lemma sys_mmap_ok:
  assumes "os_ok os" and "maps_wf (mmaps st)" and "length (mmaps st) < MAX_MAP_COUNT"
    and "0 < n" and "n \<le> 2 ^ 32"
  obtains a ms where "sys_mmap os st n f = (st\<lparr>mmaps := ms\<rparr>, a)" and "a \<noteq> 0" and "a \<noteq> MAP_FAILED"
    and "maps_wf ms" and "length ms = Suc (length (mmaps st))"
    and "maps_to ms a n f" and "map_ext (mmaps st) ms"
proof -
  obtain a where a: "os (mmaps st) n = Some a" "a \<noteq> 0" "a \<noteq> MAP_FAILED" "unat a + n < 2 ^ 64"
    "\<forall>m \<in> set (mmaps st). disj_map (unat a) n m"
    using assms by (rule os_okE)
  let ?ms = "\<lparr>mp_base = a, mp_len = n, mp_file = f\<rparr> # mmaps st"
  have "maps_wf ?ms" using assms(2,5) a(4) by (simp add: maps_wf_def)
  then show ?thesis
    using that [of ?ms a] a maps_to_new [OF a(2,4)] map_ext_new [OF a(5)] by (simp add: sys_mmap_def)
qed

section \<open>File names\<close>

definition fproc :: "UINT \<Rightarrow> string" where
  "fproc pid = generate_file_name PROCMETADATA_PATH (sint pid)"

definition fchunks :: "UINT \<Rightarrow> UINT \<Rightarrow> string" where
  "fchunks pid v = create_map_file PROCMAPMETADATA_PATH (sint pid) (sint (BASE_METADATA_NVID + v))"

definition fdata :: "UINT \<Rightarrow> UINT \<Rightarrow> string" where
  "fdata pid v = create_map_file PROCMAPDATAPATH (sint pid) (sint v)"

lemma show_int_not_m: "show_int i \<noteq> CHR ''m'' # s"
  using show_int_hd [of i] digits_not by auto

lemma show_int_not_d: "show_int i @ t \<noteq> CHR ''d'' # s"
  using show_int_hd [of i] show_int_ne [of i] digits_not by (cases "show_int i") auto

lemma file_names [simp]:
  "fproc pid \<noteq> fchunks pid' v" "fchunks pid' v \<noteq> fproc pid"
  "fproc pid \<noteq> fdata pid' v" "fdata pid' v \<noteq> fproc pid"
  "fchunks pid v \<noteq> fdata pid' w" "fdata pid' w \<noteq> fchunks pid v"
  by (auto simp: fproc_def fchunks_def fdata_def generate_file_name_def create_map_file_def
      PROCMETADATA_PATH_def PROCMAPMETADATA_PATH_def PROCMAPDATAPATH_def show_int_not_m
      show_int_not_d show_int_not_m [THEN not_sym] show_int_not_d [THEN not_sym])

lemma sint_inject: "sint x = sint y \<longleftrightarrow> x = (y :: UINT)"
  by (auto dest: arg_cong [of _ _ "word_of_int :: int \<Rightarrow> UINT"] simp flip: scast_eq)

lemma file_names_inject [simp]:
  "fchunks pid v = fchunks pid' w \<longleftrightarrow> pid = pid' \<and> v = w"
  "fdata pid v = fdata pid' w \<longleftrightarrow> pid = pid' \<and> v = w"
  "fproc pid = fproc pid' \<longleftrightarrow> pid = pid'"
  by (auto simp: fchunks_def fdata_def fproc_def create_map_file_inject generate_file_name_inject
      sint_inject)

end
