(* ===== verification/NvMap_Inv.thy ===== *)
theory NvMap_Inv
  imports NvMap_Env
begin

text \<open>
  The invariant of the object store: what the files hold, what the volatile trees and mappings hold
  about them, and the objects both represent.
\<close>

section \<open>Tables in files\<close>

definition tab :: "nat \<Rightarrow> nat \<Rightarrow> 'a \<Rightarrow> 'a list \<Rightarrow> nat \<Rightarrow> 'a" where
  "tab off sz z xs x =
     (if off \<le> x \<and> sz dvd x - off \<and> (x - off) div sz < length xs then xs ! ((x - off) div sz) else z)"

lemma tab_nth: "0 < sz \<Longrightarrow> tab off sz z xs (off + sz * i) = (if i < length xs then xs ! i else z)"
  by (simp add: tab_def)

lemma tab_Nil [simp]: "tab off sz z [] = (\<lambda>_. z)"
  by (simp add: tab_def fun_eq_iff)

lemma tab_upd:
  assumes "0 < sz" and "i < length xs"
  shows "(tab off sz z xs)(off + sz * i := x) = tab off sz z (xs[i := x])"
  using assms by (auto simp: tab_def fun_eq_iff nth_list_update elim!: dvdE)

lemma tab_snoc:
  assumes "0 < sz"
  shows "(tab off sz z xs)(off + sz * length xs := x) = tab off sz z (xs @ [x])"
  using assms by (auto simp: tab_def fun_eq_iff nth_append less_Suc_eq elim!: dvdE)

lemmas tab_0 = tab_nth [of _ 0, simplified] tab_upd [where off = 0, simplified]
  tab_snoc [where off = 0, simplified]

definition mo_off :: "nat \<Rightarrow> nat" where
  "mo_off i = sizeof_proc_s + sizeof_mmapobj_s * i"

definition ch_off :: "nat \<Rightarrow> nat" where
  "ch_off j = sizeof_chunkobj_s * j"

lemma offs_inject [simp]: "mo_off i = mo_off j \<longleftrightarrow> i = j" "ch_off i = ch_off j \<longleftrightarrow> i = j"
  by (simp_all add: mo_off_def ch_off_def sizeof_mmapobj_s_def sizeof_chunkobj_s_def)

text \<open>How many entries the metadata files have room for.\<close>

definition MAX_MMAPS :: nat where
  "MAX_MMAPS = 15602"

definition MAX_CHUNKS :: nat where
  "MAX_CHUNKS = 36408"

definition proc_file :: "proc_s \<Rightarrow> mmapobj_s list \<Rightarrow> nvfile" where
  "proc_file pr M = ProcFile pr (tab sizeof_proc_s sizeof_mmapobj_s zero_mmapobj M)"

definition chunk_file :: "chunkobj_s list \<Rightarrow> nvfile" where
  "chunk_file cs = ChunkFile (tab 0 sizeof_chunkobj_s zero_chunkobj cs)"

abbreviation pptr_of :: "UINT \<Rightarrow> pptr" where
  "pptr_of pid \<equiv> (fproc pid, 0)"

abbreviation moptr :: "UINT \<Rightarrow> nat \<Rightarrow> pptr" where
  "moptr pid i \<equiv> (fproc pid, mo_off i)"

abbreviation chptr :: "UINT \<Rightarrow> UINT \<Rightarrow> nat \<Rightarrow> pptr" where
  "chptr pid v j \<equiv> (fchunks pid v, ch_off j)"

named_theorems file_ops \<open>reading and writing the entries of the metadata files\<close>

lemma get_proc_file [file_ops]:
  "fs st (fproc pid) = Some (proc_file pr M) \<Longrightarrow> get_proc st (pptr_of pid) = Some pr"
  by (simp add: get_proc_def proc_file_def)

lemma upd_proc_file [file_ops]:
  "fs st (fproc pid) = Some (proc_file pr M) \<Longrightarrow>
   upd_proc st (pptr_of pid) f = Some (st\<lparr>fs := (fs st)(fproc pid \<mapsto> proc_file (f pr) M)\<rparr>)"
  by (simp add: upd_proc_def proc_file_def)

lemma mo_off_room: "i < MAX_MMAPS \<Longrightarrow> sizeof_proc_s \<le> mo_off i \<and> mo_off i + sizeof_mmapobj_s \<le> PROC_METADAT_SZ"
  by (simp add: mo_off_def sizeof_proc_s_def sizeof_mmapobj_s_def PROC_METADAT_SZ_def MAX_MMAPS_def)

lemma ch_off_room: "j < MAX_CHUNKS \<Longrightarrow> ch_off j + sizeof_chunkobj_s \<le> MMAP_METADATA_SZ"
  by (simp add: ch_off_def sizeof_chunkobj_s_def MMAP_METADATA_SZ_def MAX_CHUNKS_def)

lemma sizeof_pos [simp]: "0 < sizeof_mmapobj_s" "0 < sizeof_chunkobj_s"
  by (simp_all add: sizeof_mmapobj_s_def sizeof_chunkobj_s_def)

lemma get_mmapobj_file [file_ops]:
  "fs st (fproc pid) = Some (proc_file pr M) \<Longrightarrow> i < length M \<Longrightarrow> length M \<le> MAX_MMAPS \<Longrightarrow>
   get_mmapobj st (moptr pid i) = Some (M ! i)"
  using mo_off_room [of i] by (simp add: get_mmapobj_def proc_file_def) (simp add: mo_off_def tab_nth)

lemma upd_mmapobj_file [file_ops]:
  "fs st (fproc pid) = Some (proc_file pr M) \<Longrightarrow> i < length M \<Longrightarrow> length M \<le> MAX_MMAPS \<Longrightarrow>
   upd_mmapobj st (moptr pid i) f =
     Some (st\<lparr>fs := (fs st)(fproc pid \<mapsto> proc_file pr (M[i := f (M ! i)]))\<rparr>)"
  using mo_off_room [of i] by (simp add: upd_mmapobj_def proc_file_def) (simp add: mo_off_def tab_nth tab_upd)

lemma upd_mmapobj_new:
  "fs st (fproc pid) = Some (proc_file pr M) \<Longrightarrow> length M < MAX_MMAPS \<Longrightarrow>
   upd_mmapobj st (moptr pid (length M)) f =
     Some (st\<lparr>fs := (fs st)(fproc pid \<mapsto> proc_file pr (M @ [f zero_mmapobj]))\<rparr>)"
  using mo_off_room [of "length M"]
  by (simp add: upd_mmapobj_def proc_file_def) (simp add: mo_off_def tab_nth tab_snoc)

lemma get_chunkobj_file [file_ops]:
  "fs st (fchunks pid v) = Some (chunk_file cs) \<Longrightarrow> j < length cs \<Longrightarrow> length cs \<le> MAX_CHUNKS \<Longrightarrow>
   get_chunkobj st (chptr pid v j) = Some (cs ! j)"
  using ch_off_room [of j] by (simp add: get_chunkobj_def chunk_file_def) (simp add: ch_off_def tab_0)

lemma upd_chunkobj_file [file_ops]:
  "fs st (fchunks pid v) = Some (chunk_file cs) \<Longrightarrow> j < length cs \<Longrightarrow> length cs \<le> MAX_CHUNKS \<Longrightarrow>
   upd_chunkobj st (chptr pid v j) f =
     Some (st\<lparr>fs := (fs st)(fchunks pid v \<mapsto> chunk_file (cs[j := f (cs ! j)]))\<rparr>)"
  using ch_off_room [of j] by (simp add: upd_chunkobj_def chunk_file_def) (simp add: ch_off_def tab_0)

lemma upd_chunkobj_new:
  "fs st (fchunks pid v) = Some (chunk_file cs) \<Longrightarrow> length cs < MAX_CHUNKS \<Longrightarrow>
   upd_chunkobj st (chptr pid v (length cs)) f =
     Some (st\<lparr>fs := (fs st)(fchunks pid v \<mapsto> chunk_file (cs @ [f zero_chunkobj]))\<rparr>)"
  using ch_off_room [of "length cs"]
  by (simp add: upd_chunkobj_def chunk_file_def) (simp add: ch_off_def tab_0)

section \<open>Objects\<close>

text \<open>
  The objects of a process, read from its files: the chunks that are not marked invalid, with their
  names, committed sizes and bytes.
\<close>

record nvobj =
  ob_name :: string
  ob_commitsz :: UINT
  ob_bytes :: "byte list"

definition live :: "chunkobj_s \<Rightarrow> bool" where
  "live c \<longleftrightarrow> ch_valid c \<noteq> INVALID"

definition obj_of :: "byte list \<Rightarrow> chunkobj_s \<Rightarrow> nvobj" where
  "obj_of d c = \<lparr>ob_name = ch_objname c, ob_commitsz = ch_commitsz c,
     ob_bytes = take (unat (ch_length c)) (drop (unat (ch_offset c)) d)\<rparr>"

definition chunk_objs :: "byte list \<Rightarrow> chunkobj_s list \<Rightarrow> (UINT \<times> nvobj) list" where
  "chunk_objs d cs = map (\<lambda>c. (ch_chunkid c, obj_of d c)) (filter live cs)"

definition map_objects :: "UINT \<Rightarrow> (string \<rightharpoonup> nvfile) \<Rightarrow> mmapobj_s \<Rightarrow> (UINT \<times> nvobj) list" where
  "map_objects pid F m =
     (case F (fchunks pid (mo_vma_id m)) of
        Some (ChunkFile g) \<Rightarrow>
          (case F (fdata pid (mo_vma_id m)) of
             Some (DataFile d) \<Rightarrow> chunk_objs d (map (\<lambda>j. g (ch_off j)) [0..<unat (mo_numchunks m)])
           | _ \<Rightarrow> [])
      | _ \<Rightarrow> [])"

definition objects :: "UINT \<Rightarrow> (string \<rightharpoonup> nvfile) \<Rightarrow> (UINT \<times> nvobj) list" where
  "objects pid F =
     (case F (fproc pid) of
        Some (ProcFile pr ms) \<Rightarrow>
          concat (map (\<lambda>i. map_objects pid F (ms (mo_off i))) [0..<unat (pr_pesist_mmaps pr)])
      | _ \<Rightarrow> [])"

definition object :: "UINT \<Rightarrow> (string \<rightharpoonup> nvfile) \<Rightarrow> UINT \<Rightarrow> nvobj option" where
  "object pid F i = map_of (objects pid F) i"

section \<open>What the files hold\<close>

definition apart :: "chunkobj_s \<Rightarrow> chunkobj_s \<Rightarrow> bool" where
  "apart c c' \<longleftrightarrow> (live c \<longrightarrow> live c' \<longrightarrow>
     unat (ch_offset c) + unat (ch_length c) \<le> unat (ch_offset c') \<or>
     unat (ch_offset c') + unat (ch_length c') \<le> unat (ch_offset c))"

definition chunk_ok :: "UINT \<Rightarrow> nat \<Rightarrow> chunkobj_s \<Rightarrow> bool" where
  "chunk_ok pid n c \<longleftrightarrow> ch_pid c = pid \<and> ch_length c \<noteq> 0 \<and> ch_chunkid c \<noteq> 0 \<and>
     ch_chunkid c = gen_id_from_str (ch_objname c) \<and>
     unat (ch_offset c) + unat (ch_length c) \<le> n"

definition map_ok :: "UINT \<Rightarrow> nat \<Rightarrow> mmapobj_s \<Rightarrow> chunkobj_s list \<Rightarrow> byte list \<Rightarrow> bool" where
  "map_ok pid num m cs d \<longleftrightarrow> mo_proc_id m = pid \<and>
     0 < unat (mo_vma_id m) \<and> unat (mo_vma_id m) \<le> num \<and>
     mo_numchunks m = of_nat (length cs) \<and> mo_meta_offset m = of_nat (ch_off (length cs)) \<and>
     length cs \<le> MAX_CHUNKS \<and>
     mo_length m = of_nat (length d) \<and> 0 < length d \<and> length d < 2 ^ 32 \<and>
     (\<forall>c \<in> set cs. live c \<longrightarrow> chunk_ok pid (length d) c) \<and> sorted_wrt apart cs"

definition MAX_IDS :: nat where
  "MAX_IDS = 2 ^ 30"

type_synonym chunk_tabs = "UINT \<Rightarrow> chunkobj_s list"
type_synonym data_tabs = "UINT \<Rightarrow> byte list"

text \<open>Chunk \<open>j\<close> of mapping \<open>i\<close> is the live chunk with the given id.\<close>

definition owner :: "mmapobj_s list \<Rightarrow> chunk_tabs \<Rightarrow> UINT \<Rightarrow> nat \<Rightarrow> nat \<Rightarrow> bool" where
  "owner M C k i j \<longleftrightarrow> i < length M \<and> j < length (C (mo_vma_id (M ! i))) \<and>
     live (C (mo_vma_id (M ! i)) ! j) \<and> ch_chunkid (C (mo_vma_id (M ! i)) ! j) = k"

definition uniq :: "mmapobj_s list \<Rightarrow> chunk_tabs \<Rightarrow> bool" where
  "uniq M C \<longleftrightarrow> (\<forall>k i j i' j'. owner M C k i j \<longrightarrow> owner M C k i' j' \<longrightarrow> i = i' \<and> j = j')"

definition pinv ::
  "UINT \<Rightarrow> (string \<rightharpoonup> nvfile) \<Rightarrow> proc_s \<Rightarrow> mmapobj_s list \<Rightarrow> chunk_tabs \<Rightarrow> data_tabs \<Rightarrow> bool" where
  "pinv pid F pr M C D \<longleftrightarrow>
     F (fproc pid) = Some (proc_file pr M) \<and> pr_pid pr = pid \<and>
     pr_pesist_mmaps pr = of_nat (length M) \<and> pr_meta_offset pr = of_nat (mo_off (length M)) \<and>
     length M \<le> MAX_MMAPS \<and> unat (pr_num_mmaps pr) < MAX_IDS \<and>
     distinct (map mo_vma_id M) \<and>
     uniq M C \<and>
     (\<forall>m \<in> set M.
        F (fchunks pid (mo_vma_id m)) = Some (chunk_file (C (mo_vma_id m))) \<and>
        F (fdata pid (mo_vma_id m)) = Some (DataFile (D (mo_vma_id m))) \<and>
        map_ok pid (unat (pr_num_mmaps pr)) m (C (mo_vma_id m)) (D (mo_vma_id m)))"

definition entries_of :: "mmapobj_s list \<Rightarrow> chunk_tabs \<Rightarrow> data_tabs \<Rightarrow> (UINT \<times> nvobj) list" where
  "entries_of M C D = concat (map (\<lambda>m. chunk_objs (D (mo_vma_id m)) (C (mo_vma_id m))) M)"

lemma map_tab_upt: "0 < sz \<Longrightarrow> map (\<lambda>i. tab off sz z xs (off + sz * i)) [0..<length xs] = xs"
  by (rule nth_equalityI) (simp_all add: tab_nth)

lemma unat_of_nat_UINT: "n < 4294967296 \<Longrightarrow> unat (of_nat n :: UINT) = n"
  unfolding unat_of_nat by simp

lemma pinv_map:
  assumes "pinv pid F pr M C D" and "m \<in> set M"
  shows "F (fchunks pid (mo_vma_id m)) = Some (chunk_file (C (mo_vma_id m)))"
    and "F (fdata pid (mo_vma_id m)) = Some (DataFile (D (mo_vma_id m)))"
    and "map_ok pid (unat (pr_num_mmaps pr)) m (C (mo_vma_id m)) (D (mo_vma_id m))"
  using assms by (simp_all add: pinv_def)

lemma map_ok_count: "map_ok pid num m cs d \<Longrightarrow> unat (mo_numchunks m) = length cs"
  by (simp add: map_ok_def MAX_CHUNKS_def unat_of_nat_UINT)

lemma pinv_count: "pinv pid F pr M C D \<Longrightarrow> unat (pr_pesist_mmaps pr) = length M"
  by (simp add: pinv_def MAX_MMAPS_def unat_of_nat_UINT)

lemma objects_pinv: "pinv pid F pr M C D \<Longrightarrow> objects pid F = entries_of M C D"
proof -
  assume p: "pinv pid F pr M C D"
  let ?ms = "tab sizeof_proc_s sizeof_mmapobj_s zero_mmapobj M"
  note n = pinv_count [OF p]
  have "map_objects pid F m = chunk_objs (D (mo_vma_id m)) (C (mo_vma_id m))" if "m \<in> set M" for m
    using pinv_map [OF p that] map_ok_count map_tab_upt [of sizeof_chunkobj_s 0 zero_chunkobj "C (mo_vma_id m)"]
    by (simp add: map_objects_def chunk_file_def ch_off_def)
  then have e: "concat (map (map_objects pid F) M) = entries_of M C D"
    unfolding entries_of_def by (intro arg_cong [of _ _ concat] map_cong) simp_all
  have i: "map (\<lambda>i. map_objects pid F (?ms (mo_off i))) [0..<length M] = map (map_objects pid F) M"
    by (rule nth_equalityI) (simp_all add: mo_off_def tab_nth)
  have "F (fproc pid) = Some (ProcFile pr ?ms)" using p by (simp add: pinv_def proc_file_def)
  then show ?thesis by (simp add: objects_def n i e)
qed

lemma map_of_unique:
  assumes "\<forall>v w. (k, v) \<in> set xs \<longrightarrow> (k, w) \<in> set xs \<longrightarrow> v = w"
  shows "map_of xs k = Some v \<longleftrightarrow> (k, v) \<in> set xs"
  using assms map_of_SomeD [of xs k] weak_map_of_SomeI [of k v xs] by fastforce

lemma entries_owner:
  "(k, ob) \<in> set (entries_of M C D) \<longleftrightarrow>
    (\<exists>i j. owner M C k i j \<and> ob = obj_of (D (mo_vma_id (M ! i))) (C (mo_vma_id (M ! i)) ! j))"
proof -
  have "(k, ob) \<in> set (entries_of M C D) \<longleftrightarrow> (\<exists>m \<in> set M. \<exists>c \<in> set (C (mo_vma_id m)). live c \<and> ch_chunkid c = k \<and>
      ob = obj_of (D (mo_vma_id m)) c)"
    by (auto simp: entries_of_def chunk_objs_def)
  also have "\<dots> \<longleftrightarrow> (\<exists>i j. owner M C k i j \<and>
      ob = obj_of (D (mo_vma_id (M ! i))) (C (mo_vma_id (M ! i)) ! j))"
    by (auto simp: owner_def set_conv_nth Bex_def)
  finally show ?thesis .
qed

lemma object_owner:
  assumes p: "pinv pid F pr M C D"
  shows "object pid F k = Some ob \<longleftrightarrow>
    (\<exists>i j. owner M C k i j \<and> ob = obj_of (D (mo_vma_id (M ! i))) (C (mo_vma_id (M ! i)) ! j))"
proof -
  have "uniq M C" using p by (simp add: pinv_def)
  then have "\<forall>v w. (k, v) \<in> set (entries_of M C D) \<longrightarrow> (k, w) \<in> set (entries_of M C D) \<longrightarrow> v = w"
    unfolding entries_owner uniq_def by blast
  from map_of_unique [OF this] show ?thesis
    by (simp add: object_def objects_pinv [OF p] entries_owner)
qed

lemma object_None:
  assumes "pinv pid F pr M C D"
  shows "object pid F k = None \<longleftrightarrow> (\<forall>i j. \<not> owner M C k i j)"
  using object_owner [OF assms, of k] by (metis not_None_eq)

lemma distinct_map_nth_eq:
  assumes "distinct (map f xs)" and "i < length xs" and "j < length xs" and "f (xs ! i) = f (xs ! j)"
  shows "i = j"
  using assms by (metis length_map nth_eq_iff_index_eq nth_map)

section \<open>The trees over the tables\<close>

fun index :: "(nat \<Rightarrow> 'k) \<Rightarrow> (nat \<Rightarrow> bool) \<Rightarrow> (nat \<Rightarrow> 'p) \<Rightarrow> nat \<Rightarrow> ('k \<rightharpoonup> 'p)" where
  "index key P p 0 = Map.empty"
| "index key P p (Suc n) =
     (if P n then (index key P p n)(key n \<mapsto> p n) else index key P p n)"

lemma index_cong:
  "\<forall>i < n. P i = P' i \<and> (P i \<longrightarrow> key i = key' i) \<Longrightarrow> index key P p n = index key' P' p n"
  by (induction n) auto

lemma index_iff:
  assumes "inj_on key {i. i < n \<and> P i}"
  shows "index key P p n k = Some q \<longleftrightarrow> (\<exists>i < n. P i \<and> k = key i \<and> q = p i)"
  using assms
proof (induction n)
  case (Suc n)
  have i: "inj_on key {i. i < n \<and> P i}" using Suc.prems by (rule inj_on_subset) auto
  have "key i \<noteq> key n" if "i < n" "P i" "P n" for i using Suc.prems that by (force dest: inj_onD)
  then show ?case using Suc.IH [OF i] by (auto simp: less_Suc_eq)
qed simp

definition mmap_index :: "UINT \<Rightarrow> mmapobj_s list \<Rightarrow> (ULONG \<rightharpoonup> pptr)" where
  "mmap_index pid M = index (\<lambda>i. ucast (mo_vma_id (M ! i))) (\<lambda>i. True) (moptr pid) (length M)"

definition chunk_index :: "UINT \<Rightarrow> UINT \<Rightarrow> chunkobj_s list \<Rightarrow> (ULONG \<rightharpoonup> pptr)" where
  "chunk_index pid v cs =
     index (\<lambda>j. ucast (ch_chunkid (cs ! j))) (\<lambda>j. live (cs ! j)) (chptr pid v) (length cs)"

lemma index_Nil [simp]: "mmap_index pid [] = Map.empty" "chunk_index pid v [] = Map.empty"
  by (simp_all add: mmap_index_def chunk_index_def)

lemma mmap_index_snoc:
  "mmap_index pid (M @ [m]) = (mmap_index pid M)(ucast (mo_vma_id m) \<mapsto> moptr pid (length M))"
proof -
  have "index (\<lambda>i. ucast (mo_vma_id ((M @ [m]) ! i)) :: ULONG) (\<lambda>i. True) (moptr pid) (length M) = mmap_index pid M"
    unfolding mmap_index_def by (rule index_cong) (simp add: nth_append)
  then show ?thesis by (simp add: mmap_index_def [of pid "M @ [m]"])
qed

lemma chunk_index_snoc:
  "chunk_index pid v (cs @ [c]) =
     (if live c then (chunk_index pid v cs)(ucast (ch_chunkid c) \<mapsto> chptr pid v (length cs))
      else chunk_index pid v cs)"
proof -
  have "index (\<lambda>j. ucast (ch_chunkid ((cs @ [c]) ! j)) :: ULONG) (\<lambda>j. live ((cs @ [c]) ! j)) (chptr pid v)
      (length cs) = chunk_index pid v cs"
    unfolding chunk_index_def by (rule index_cong) (simp add: nth_append)
  then show ?thesis by (simp add: chunk_index_def [of pid v "cs @ [c]"])
qed

lemma mmap_index_cong: "map mo_vma_id M = map mo_vma_id M' \<Longrightarrow> mmap_index pid M = mmap_index pid M'"
proof -
  assume e: "map mo_vma_id M = map mo_vma_id M'"
  then have l: "length M = length M'" by (rule map_eq_imp_length_eq)
  have "mo_vma_id (M ! i) = mo_vma_id (M' ! i)" if "i < length M" for i
    using e that l by (metis nth_map)
  then show ?thesis unfolding mmap_index_def l by (intro index_cong) (simp add: l)
qed

lemma unat_ucast_UINT [simp]: "unat (ucast (x :: UINT) :: ULONG) = unat x"
proof -
  have "unat x < 2 ^ 64" using unsigned_less [of x, where 'a = nat] by simp
  then show ?thesis by (simp add: unsigned_ucast_eq take_bit_nat_eq_self)
qed

lemma ucast_UINT_inject [simp]: "(ucast (x :: UINT) :: ULONG) = ucast y \<longleftrightarrow> x = y"
  by (metis unat_ucast_UINT word_unat_eq_iff)

lemma scast_small: "unat (x :: UINT) < 2 ^ 31 \<Longrightarrow> (scast x :: ULONG) = ucast x"
proof -
  assume x: "unat x < 2 ^ 31"
  have "uint x < int (2 ^ 31)" using x by (metis of_nat_less_iff uint_nat)
  then have "uint x < 2 ^ 31" by simp
  moreover have "- (2 ^ 31) \<le> uint x" by (rule order_trans [OF _ uint_ge_0]) simp
  ultimately have "sint x = uint x" unfolding sint_uint by (intro signed_take_bit_int_eq_self) simp_all
  then show ?thesis by (simp only: scast_eq ucast_eq)
qed

lemma mmap_index_iff:
  assumes "distinct (map mo_vma_id M)"
  shows "mmap_index pid M k = Some p \<longleftrightarrow>
    (\<exists>i < length M. k = ucast (mo_vma_id (M ! i)) \<and> p = moptr pid i)"
proof -
  have "inj_on (\<lambda>i. ucast (mo_vma_id (M ! i)) :: ULONG) {i. i < length M \<and> True}"
    using assms by (auto intro!: inj_onI dest: distinct_map_nth_eq)
  from index_iff [OF this] show ?thesis by (simp add: mmap_index_def)
qed

definition uniq_ids :: "chunkobj_s list \<Rightarrow> bool" where
  "uniq_ids cs \<longleftrightarrow> inj_on (\<lambda>j. ch_chunkid (cs ! j)) {j. j < length cs \<and> live (cs ! j)}"

lemma chunk_index_iff:
  assumes "uniq_ids cs"
  shows "chunk_index pid v cs k = Some p \<longleftrightarrow>
    (\<exists>j < length cs. live (cs ! j) \<and> k = ucast (ch_chunkid (cs ! j)) \<and> p = chptr pid v j)"
proof -
  have "inj_on (\<lambda>j. ucast (ch_chunkid (cs ! j)) :: ULONG) {j. j < length cs \<and> live (cs ! j)}"
    using assms by (auto simp: uniq_ids_def inj_on_def)
  from index_iff [OF this] show ?thesis by (simp add: chunk_index_def)
qed

lemma uniq_uniq_ids:
  assumes "uniq M C" and "m \<in> set M"
  shows "uniq_ids (C (mo_vma_id m))"
proof -
  obtain i where i: "i < length M" "m = M ! i" using assms(2) by (metis in_set_conv_nth)
  show ?thesis unfolding uniq_ids_def
  proof (rule inj_onI, clarify)
    fix j j' assume "j < length (C (mo_vma_id m))" "live (C (mo_vma_id m) ! j)"
      "j' < length (C (mo_vma_id m))" "live (C (mo_vma_id m) ! j')"
      "ch_chunkid (C (mo_vma_id m) ! j) = ch_chunkid (C (mo_vma_id m) ! j')"
    then have "owner M C (ch_chunkid (C (mo_vma_id m) ! j)) i j" "owner M C (ch_chunkid (C (mo_vma_id m) ! j)) i j'"
      using i by (auto simp: owner_def)
    then show "j = j'" using assms(1) unfolding uniq_def by blast
  qed
qed

end
