(* ===== verification/NvMap_Find.thy ===== *)
theory NvMap_Find
  imports NvMap_Inv
begin

text \<open>
  What the volatile state of a running process holds about the files, and the searches of
  \<open>pvmobj/nv_map.cc\<close> on it: from an object id to its mapping and its chunk.
\<close>

section \<open>Trees by number\<close>

definition tree_repr :: "nvst \<Rightarrow> tptr \<Rightarrow> (ULONG \<rightharpoonup> pptr) \<Rightarrow> bool" where
  "tree_repr st p m \<longleftrightarrow> p \<noteq> 0 \<and> p < next_tree st \<and> (\<exists>t. trees st p = Some t \<and> rbtree_repr t m)"

lemma tree_lookup_repr: "tree_repr st p m \<Longrightarrow> tree_lookup st p k = Some (m k)"
  by (auto simp: tree_repr_def tree_lookup_def rbmap.lookup_repr)

lemma tree_insert_repr:
  assumes "tree_repr st p m"
  obtains t where "tree_insert st p k v = Some (st\<lparr>trees := (trees st)(p \<mapsto> t)\<rparr>)"
    and "rbtree_repr t (m(k \<mapsto> v))"
proof -
  obtain t where t: "trees st p = Some t" "rbtree_repr t m" using assms by (auto simp: tree_repr_def)
  obtain t' where "rbtree_insert t k v IntComp = Some t'" "rbtree_repr t' (m(k \<mapsto> v))"
    using rbmap.ins_repr [OF t(2)] by blast
  then show ?thesis using that t(1) by (simp add: tree_insert_def)
qed

lemma tree_delete_repr:
  assumes "tree_repr st p m"
  obtains t where "tree_delete st p k = Some (st\<lparr>trees := (trees st)(p \<mapsto> t)\<rparr>)"
    and "rbtree_repr t (m(k := None))"
proof -
  obtain t where t: "trees st p = Some t" "rbtree_repr t m" using assms by (auto simp: tree_repr_def)
  obtain t' where "rbtree_delete t k IntComp = Some t'" "rbtree_repr t' (m(k := None))"
    using rbmap.del_repr [OF t(2)] by blast
  then show ?thesis using that t(1) by (simp add: tree_delete_def)
qed

lemma tree_repr_cong:
  "trees st' p = trees st p \<Longrightarrow> next_tree st \<le> next_tree st' \<Longrightarrow> tree_repr st p m \<Longrightarrow> tree_repr st' p m"
  by (auto simp: tree_repr_def)

section \<open>The search over all mappings\<close>

text \<open>
  \<open>found p\<close> is what the search in mapping \<open>p\<close> finds, \<open>vm p\<close> the id of the mapping. The traversal
  returns the id of a mapping that has the chunk, or 0.
\<close>

definition vma_result :: "(pptr \<Rightarrow> pptr option) \<Rightarrow> (pptr \<Rightarrow> UINT) \<Rightarrow> (ULONG \<times> pptr) list \<Rightarrow> UINT \<Rightarrow> bool" where
  "vma_result found vm xs w \<longleftrightarrow>
     (if \<exists>kp \<in> set xs. found (snd kp) \<noteq> None
      then \<exists>kp \<in> set xs. found (snd kp) \<noteq> None \<and> w = vm (snd kp) else w = 0)"

definition searchable :: "nvst \<Rightarrow> UINT \<Rightarrow> (pptr \<Rightarrow> pptr option) \<Rightarrow> (pptr \<Rightarrow> UINT) \<Rightarrow> pptr \<Rightarrow> bool" where
  "searchable st k found vm p \<longleftrightarrow>
     (\<exists>m. get_mmapobj st p = Some m \<and> mo_chunk_tree_init m \<noteq> 0 \<and> mo_vma_id m = vm p \<and> vm p \<noteq> 0 \<and>
        find_chunk st p k = Some (found p))"

lemma vma_result_nonzero:
  assumes "vma_result found vm xs w" and "\<forall>kp \<in> set xs. vm (snd kp) \<noteq> 0"
  shows "w \<noteq> 0 \<longleftrightarrow> (\<exists>kp \<in> set xs. found (snd kp) \<noteq> None)"
  using assms by (auto simp: vma_result_def split: if_splits)

lemma vma_result_mono:
  "vma_result found vm xs w \<Longrightarrow> w \<noteq> 0 \<Longrightarrow> set xs \<subseteq> set ys \<Longrightarrow> vma_result found vm ys w"
  by (auto simp: vma_result_def split: if_splits)

lemma vma_result_skip:
  assumes "vma_result found vm xs w" and "set xs \<subseteq> set ys"
    and "\<forall>kp \<in> set ys - set xs. found (snd kp) = None"
  shows "vma_result found vm ys w"
proof -
  have "(\<exists>kp \<in> set ys. found (snd kp) \<noteq> None \<and> P kp) \<longleftrightarrow> (\<exists>kp \<in> set xs. found (snd kp) \<noteq> None \<and> P kp)" for P
    using assms(2,3) by (meson DiffI subsetD)
  from this [of "\<lambda>_. True"] this [of "\<lambda>kp. w = vm (snd kp)"] show ?thesis
    using assms(1) unfolding vma_result_def by (simp del: not_None_eq)
qed

lemma find_vmaid_ok:
  assumes "zip_at b E t cs x" and "height x \<le> fuel"
    and "\<forall>kp \<in> set (ino x). searchable st k found vm (snd kp)"
  shows "\<exists>w. find_vmaid_from_chunk fuel st t (addr x) k = Some w \<and> vma_result found vm (ino x) w"
  using assms
proof (induction x arbitrary: cs fuel)
  case Lf
  then show ?case by (cases fuel) (simp_all add: vma_result_def)
next
  case (Nd a c key p l r)
  obtain fuel' where fuel: "fuel = Suc fuel'" using Nd.prems(2) by (cases fuel) auto
  note z = Nd.prems(1)
  have zl: "zip_at b E t (Fr True a c key p r # cs) l" and zr: "zip_at b E t (Fr False a c key p l # cs) r"
    by (fact z [unfolded zip_left], fact z [unfolded zip_right])
  obtain wl where wl: "find_vmaid_from_chunk fuel' st t (addr l) k = Some wl" "vma_result found vm (ino l) wl"
    using Nd.IH(1) [OF zl, of fuel'] Nd.prems(2,3) by (auto simp: fuel)
  obtain wr where wr: "find_vmaid_from_chunk fuel' st t (addr r) k = Some wr" "vma_result found vm (ino r) wr"
    using Nd.IH(2) [OF zr, of fuel'] Nd.prems(2,3) by (auto simp: fuel)
  obtain m where m: "get_mmapobj st p = Some m" "mo_chunk_tree_init m \<noteq> 0" "mo_vma_id m = vm p"
    "find_chunk st p k = Some (found p)"
    using Nd.prems(3) by (auto simp: searchable_def)
  have zero: "find_vmaid_from_chunk f st t 0 k = Some 0" for f by (cases f) simp_all
  have nz: "\<forall>kp \<in> set (ino r). vm (snd kp) \<noteq> 0" using Nd.prems(3) by (auto simp: searchable_def)
  have "find_vmaid_from_chunk fuel st t a k =
      Some (if wr \<noteq> 0 then wr else if found p \<noteq> None then vm p else wl)"
    using deref_focus [OF z] zip_focus_ne_NULL [OF z] wl(1) wr(1) m zero
    by (auto simp: fuel)
  moreover have "vma_result found vm (ino (Nd a c key p l r))
      (if wr \<noteq> 0 then wr else if found p \<noteq> None then vm p else wl)"
  proof (cases "wr \<noteq> 0")
    case True
    then show ?thesis using vma_result_mono [OF wr(2) True, of "ino (Nd a c key p l r)"] by auto
  next
    case False
    then have none: "\<forall>kp \<in> set (ino r). found (snd kp) = None"
      using vma_result_nonzero [OF wr(2) nz] by blast
    show ?thesis
    proof (cases "found p = None")
      case True
      then have "vma_result found vm (ino (Nd a c key p l r)) wl"
        by (intro vma_result_skip [OF wl(2)]) (use none in auto)
      then show ?thesis using False True by simp
    qed (use False in \<open>auto simp: vma_result_def\<close>)
  qed
  ultimately show ?case by simp
qed

section \<open>The volatile state\<close>

definition vmap :: "UINT \<Rightarrow> nvst \<Rightarrow> mmapobj_s \<Rightarrow> chunkobj_s list \<Rightarrow> byte list \<Rightarrow> bool" where
  "vmap pid st m cs d \<longleftrightarrow> mo_chunk_tree_init m \<noteq> 0 \<and>
     tree_repr st (mo_chunkobj_tree m) (chunk_index pid (mo_vma_id m) cs) \<and>
     maps_to (mmaps st) (mo_strt_addr m) MMAP_METADATA_SZ (fchunks pid (mo_vma_id m)) \<and>
     maps_to (mmaps st) (mo_data_addr m) (length d) (fdata pid (mo_vma_id m)) \<and>
     (\<forall>c \<in> set cs. live c \<longrightarrow> ch_nv_ptr c = mo_data_addr m + ucast (ch_offset c))"

text \<open>A process whose first \<open>n\<close> mappings are loaded.\<close>

definition vproc :: "UINT \<Rightarrow> nvst \<Rightarrow> bool" where
  "vproc pid st \<longleftrightarrow> g_initialized st \<and> \<not> enable_optimze st \<and> \<not> use_map_cache st \<and>
     \<not> enable_trans st \<and> proc_list_init st \<and>
     rbtree_repr (proc_tree st) [scast pid \<mapsto> pptr_of pid] \<and> maps_wf (mmaps st) \<and>
     maps_to (mmaps st) (proc_map_start st) PROC_METADAT_SZ (fproc pid)"

definition vinv :: "UINT \<Rightarrow> nvst \<Rightarrow> proc_s \<Rightarrow> mmapobj_s list \<Rightarrow> chunk_tabs \<Rightarrow> data_tabs \<Rightarrow> bool" where
  "vinv pid st pr M C D \<longleftrightarrow> vproc pid st \<and> pr_mmapobj_initialized pr \<noteq> 0 \<and>
     tree_repr st (pr_mmapobj_tree pr) (mmap_index pid M) \<and>
     distinct (pr_mmapobj_tree pr # map mo_chunkobj_tree M) \<and>
     (\<forall>m \<in> set M. vmap pid st m (C (mo_vma_id m)) (D (mo_vma_id m)))"

lemma find_proc_obj_vproc:
  "vproc pid st \<Longrightarrow> find_proc_obj st pid = Some (st, Some (pptr_of pid))"
  by (auto simp: vproc_def find_proc_obj_def rbmap.lookup_repr)

lemma find_process_vproc: "vproc pid st \<Longrightarrow> find_process st pid = Some (Some (pptr_of pid))"
  by (auto simp: vproc_def find_process_def rbmap.lookup_repr)

lemma pinv_uniq_ids: "pinv pid F pr M C D \<Longrightarrow> m \<in> set M \<Longrightarrow> uniq_ids (C (mo_vma_id m))"
  by (auto simp: pinv_def intro: uniq_uniq_ids)

lemma find_chunk_vmap:
  assumes p: "pinv pid (fs st) pr M C D" and i: "i < length M"
    and v: "vmap pid st (M ! i) (C (mo_vma_id (M ! i))) (D (mo_vma_id (M ! i)))"
  shows "find_chunk st (moptr pid i) k =
    Some (chunk_index pid (mo_vma_id (M ! i)) (C (mo_vma_id (M ! i))) (ucast k))"
proof -
  have "get_mmapobj st (moptr pid i) = Some (M ! i)"
    using p i by (intro get_mmapobj_file) (auto simp: pinv_def)
  then show ?thesis using v tree_lookup_repr by (auto simp: find_chunk_def vmap_def tree_repr_def)
qed

lemma chunk_index_owner:
  assumes p: "pinv pid F pr M C D" and i: "i < length M"
  shows "chunk_index pid (mo_vma_id (M ! i)) (C (mo_vma_id (M ! i))) (ucast k) = Some q \<longleftrightarrow>
    (\<exists>j. owner M C k i j \<and> q = chptr pid (mo_vma_id (M ! i)) j)"
  using pinv_uniq_ids [OF p, of "M ! i"] i by (auto simp: chunk_index_iff owner_def)

lemma vinv_map: "vinv pid st pr M C D \<Longrightarrow> m \<in> set M \<Longrightarrow> vmap pid st m (C (mo_vma_id m)) (D (mo_vma_id m))"
  by (simp add: vinv_def)

lemma vma_id_small:
  assumes "pinv pid F pr M C D" and "i < length M"
  shows "mo_vma_id (M ! i) \<noteq> 0" and "(scast (mo_vma_id (M ! i)) :: ULONG) = ucast (mo_vma_id (M ! i))"
proof -
  have "unat (pr_num_mmaps pr) < MAX_IDS" using assms(1) by (simp add: pinv_def)
  then have v: "0 < unat (mo_vma_id (M ! i))" "unat (mo_vma_id (M ! i)) < MAX_IDS"
    using pinv_map(3) [OF assms(1), of "M ! i"] assms(2) by (auto simp: map_ok_def)
  then show "mo_vma_id (M ! i) \<noteq> 0" by auto
  show "(scast (mo_vma_id (M ! i)) :: ULONG) = ucast (mo_vma_id (M ! i))"
    using v(2) by (intro scast_small) (simp add: MAX_IDS_def)
qed

lemma find_vmaid_vinv:
  assumes p: "pinv pid (fs st) pr M C D" and v: "vinv pid st pr M C D"
    and t: "trees st (pr_mmapobj_tree pr) = Some t"
  shows "\<exists>w. find_vmaid_from_chunk (brk t) st t (root t) k = Some w \<and>
    (w = 0 \<and> (\<forall>i j. \<not> owner M C k i j) \<or> (\<exists>i j. owner M C k i j \<and> w = mo_vma_id (M ! i)))"
proof -
  have "rbtree_repr t (mmap_index pid M)" using v t by (auto simp: vinv_def tree_repr_def)
  then obtain xs where xs: "rbtree_entries t xs" "mmap_index pid M = map_of xs" "srt xs"
    by (rule repr_entriesE)
  obtain x where x: "zip_at (brk t) {} t [] x" "ino x = xs" "root t = addr x"
    using xs(1) by (rule rbtree_entriesE)
  have dist: "distinct (map mo_vma_id M)" using p by (simp add: pinv_def)
  have in_xs: "(key, q) \<in> set xs \<longleftrightarrow> (\<exists>i < length M. key = ucast (mo_vma_id (M ! i)) \<and> q = moptr pid i)" for key q
    using xs(2) srt_map_of [OF xs(3)] mmap_index_iff [OF dist] by metis
  define found where "found q = (case find_chunk st q k of Some r \<Rightarrow> r | None \<Rightarrow> None)" for q
  define vm where "vm q = (case get_mmapobj st q of Some m \<Rightarrow> mo_vma_id m | None \<Rightarrow> 0)" for q
  have get: "get_mmapobj st (moptr pid i) = Some (M ! i)" if "i < length M" for i
    using p that by (intro get_mmapobj_file) (auto simp: pinv_def)
  have vm: "vm (moptr pid i) = mo_vma_id (M ! i)" if "i < length M" for i
    using get [OF that] by (simp add: vm_def)
  have fc: "find_chunk st (moptr pid i) k = Some (found (moptr pid i))"
    and found: "found (moptr pid i) \<noteq> None \<longleftrightarrow> (\<exists>j. owner M C k i j)" if "i < length M" for i
    using find_chunk_vmap [OF p that vinv_map [OF v], of k] chunk_index_owner [OF p that, of k] that
    by (auto simp: found_def)
  have "searchable st k found vm (moptr pid i)" if "i < length M" for i
    using get [OF that] fc [OF that] vm [OF that] vma_id_small(1) [OF p that] vinv_map [OF v, of "M ! i"] that
    by (auto simp: searchable_def vmap_def)
  then have "\<forall>kp \<in> set (ino x). searchable st k found vm (snd kp)"
    using in_xs x(2) by auto
  from find_vmaid_ok [OF x(1) zip_fuel(1) [OF x(1)] this]
  obtain w where w: "find_vmaid_from_chunk (brk t) st t (root t) k = Some w" "vma_result found vm xs w"
    unfolding x(2,3) by blast
  have bex: "(\<exists>kp \<in> set xs. Q (snd kp)) \<longleftrightarrow> (\<exists>i < length M. Q (moptr pid i))" for Q
    unfolding Bex_def split_paired_Ex in_xs by auto
  have len: "i < length M" if "owner M C k i j" for i j using that by (simp add: owner_def)
  have "(\<exists>kp \<in> set xs. found (snd kp) \<noteq> None \<and> w = vm (snd kp)) \<longleftrightarrow>
      (\<exists>i j. owner M C k i j \<and> w = mo_vma_id (M ! i))"
    unfolding bex [of "\<lambda>q. found q \<noteq> None \<and> w = vm q"] using found vm len by metis
  moreover have "(\<exists>kp \<in> set xs. found (snd kp) \<noteq> None) \<longleftrightarrow> (\<exists>i j. owner M C k i j)"
    unfolding bex [of "\<lambda>q. found q \<noteq> None"] using found len by metis
  ultimately show ?thesis using w unfolding vma_result_def by (auto split: if_splits)
qed

lemma find_mmapobj_from_chunkid_vinv:
  assumes p: "pinv pid (fs st) pr M C D" and v: "vinv pid st pr M C D"
  shows "owner M C k i j \<Longrightarrow>
      find_mmapobj_from_chunkid st k (pptr_of pid) = Some (st, Some (moptr pid i))"
    and "\<forall>i j. \<not> owner M C k i j \<Longrightarrow> find_mmapobj_from_chunkid st k (pptr_of pid) = Some (st, None)"
proof -
  have pr: "get_proc st (pptr_of pid) = Some pr"
    using p by (intro get_proc_file) (simp add: pinv_def)
  have t: "tree_repr st (pr_mmapobj_tree pr) (mmap_index pid M)" "pr_mmapobj_initialized pr \<noteq> 0"
    using v by (simp_all add: vinv_def)
  obtain t where t': "trees st (pr_mmapobj_tree pr) = Some t" "pr_mmapobj_tree pr \<noteq> 0"
    using t(1) by (auto simp: tree_repr_def)
  obtain w where w: "find_vmaid_from_chunk (brk t) st t (root t) k = Some w"
    "w = 0 \<and> (\<forall>i j. \<not> owner M C k i j) \<or> (\<exists>i j. owner M C k i j \<and> w = mo_vma_id (M ! i))"
    using find_vmaid_vinv [OF p v t'(1)] by blast
  have d: "uniq M C" "distinct (map mo_vma_id M)"
    using p by (simp_all add: pinv_def)
  show "find_mmapobj_from_chunkid st k (pptr_of pid) = Some (st, None)" if "\<forall>i j. \<not> owner M C k i j"
    using that w pr t t' by (auto simp: find_mmapobj_from_chunkid_def)
  assume o: "owner M C k i j"
  then have i: "i < length M" by (simp add: owner_def)
  have "w = mo_vma_id (M ! i)" using o w(2) d(1) unfolding uniq_def by metis
  moreover have "mmap_index pid M (ucast (mo_vma_id (M ! i))) = Some (moptr pid i)"
    using i by (auto simp: mmap_index_iff [OF d(2)])
  ultimately show "find_mmapobj_from_chunkid st k (pptr_of pid) = Some (st, Some (moptr pid i))"
    using w(1) pr t t' vma_id_small [OF p i] tree_lookup_repr [OF t(1)]
    by (simp add: find_mmapobj_from_chunkid_def)
qed

lemma find_chunk_vinv:
  assumes p: "pinv pid (fs st) pr M C D" and v: "vinv pid st pr M C D" and o: "owner M C k i j"
  shows "find_chunk st (moptr pid i) k = Some (Some (chptr pid (mo_vma_id (M ! i)) j))"
proof -
  have i: "i < length M" using o by (simp add: owner_def)
  show ?thesis
    using find_chunk_vmap [OF p i vinv_map [OF v], of k] chunk_index_owner [OF p i, of k] i o by auto
qed

text \<open>The id a request asks for: its own, or the one of its name.\<close>

definition rq_chunkid :: "rqst_s \<Rightarrow> UINT" where
  "rq_chunkid rq = (if rq_id rq = 0 then gen_id_from_str (rq_var_name rq) else rq_id rq)"

lemma get_chunk_vinv:
  assumes p: "pinv pid (fs st) pr M C D" and v: "vinv pid st pr M C D"
    and rq: "rq_pid rq = pid" "pid \<noteq> 0" "rq_chunkid rq \<noteq> 0"
  shows "owner M C (rq_chunkid rq) i j \<Longrightarrow>
      get_chunk st rq = Some (st, Some (chptr pid (mo_vma_id (M ! i)) j))"
    and "\<forall>i j. \<not> owner M C (rq_chunkid rq) i j \<Longrightarrow> get_chunk st rq = Some (st, None)"
proof -
  have t: "vproc pid st" "\<not> enable_trans st" using v by (simp_all add: vinv_def vproc_def)
  show "get_chunk st rq = Some (st, Some (chptr pid (mo_vma_id (M ! i)) j))"
    if "owner M C (rq_chunkid rq) i j"
    using find_mmapobj_from_chunkid_vinv(1) [OF p v that] find_chunk_vinv [OF p v that]
      find_proc_obj_vproc [OF t(1)] t(2) rq
    by (simp add: get_chunk_def rq_chunkid_def Let_def)
  show "get_chunk st rq = Some (st, None)" if "\<forall>i j. \<not> owner M C (rq_chunkid rq) i j"
    using find_mmapobj_from_chunkid_vinv(2) [OF p v that] find_proc_obj_vproc [OF t(1)] t(2) rq
    by (simp add: get_chunk_def rq_chunkid_def Let_def)
qed

end
