(* ===== verification/NvMap_Objects.thy ===== *)
theory NvMap_Objects
  imports NvMap_Find
begin

text \<open>
  Reading, committing and deleting objects. \<open>store_ok\<close> is the invariant of a running process; the
  effect of each operation is stated on the objects that the files hold.
\<close>

section \<open>The invariant of a running process\<close>

text \<open>The address ranges that \<open>nv_mmap\<close> gave out, each with the id of its mapping.\<close>

definition region_node :: "UINT \<Rightarrow> data_tabs \<Rightarrow> ULONG \<times> UINT \<Rightarrow> mmapobj_nodes" where
  "region_node pid D r = \<lparr>mn_start_addr = fst r, mn_end_addr = fst r + of_nat (length (D (snd r))),
     mn_map_id = snd r, mn_proc_id = pid\<rparr>"

definition region_ok :: "UINT \<Rightarrow> nvst \<Rightarrow> nat \<Rightarrow> mmapobj_s list \<Rightarrow> data_tabs \<Rightarrow> ULONG \<times> UINT \<Rightarrow> bool" where
  "region_ok pid st num M D r \<longleftrightarrow> 0 < unat (snd r) \<and> unat (snd r) \<le> num \<and>
     fs st (fdata pid (snd r)) = Some (DataFile (D (snd r))) \<and>
     0 < length (D (snd r)) \<and> length (D (snd r)) < 2 ^ 32 \<and>
     maps_to (mmaps st) (fst r) (length (D (snd r))) (fdata pid (snd r)) \<and>
     um_find (snd r) (proc_vmas st) = Some (of_nat (length (D (snd r)))) \<and>
     (\<forall>m \<in> set M. mo_vma_id m = snd r \<longrightarrow> mo_data_addr m = fst r)"

definition rinv ::
  "UINT \<Rightarrow> nvst \<Rightarrow> proc_s \<Rightarrow> mmapobj_s list \<Rightarrow> data_tabs \<Rightarrow> (ULONG \<times> UINT) list \<Rightarrow> bool" where
  "rinv pid st pr M D R \<longleftrightarrow> distinct (map snd R) \<and>
     (case map_tree st of None \<Rightarrow> R = []
      | Some t \<Rightarrow> rbtree_repr t (map_of (map (\<lambda>r. (fst r, region_node pid D r)) R))) \<and>
     (\<forall>r \<in> set R. region_ok pid st (unat (pr_num_mmaps pr)) M D r)"

definition store ::
  "UINT \<Rightarrow> nvst \<Rightarrow> proc_s \<Rightarrow> mmapobj_s list \<Rightarrow> chunk_tabs \<Rightarrow> data_tabs \<Rightarrow> (ULONG \<times> UINT) list \<Rightarrow> bool" where
  "store pid st pr M C D R \<longleftrightarrow> pinv pid (fs st) pr M C D \<and> vinv pid st pr M C D \<and>
     rinv pid st pr M D R \<and> (\<forall>m \<in> set M. C (mo_vma_id m) \<noteq> [])"

definition store_ok :: "UINT \<Rightarrow> nvst \<Rightarrow> bool" where
  "store_ok pid st \<longleftrightarrow> (\<exists>pr M C D R. store pid st pr M C D R)"

lemma storeD:
  assumes "store pid st pr M C D R"
  shows "pinv pid (fs st) pr M C D" and "vinv pid st pr M C D" and "rinv pid st pr M D R"
  using assms by (simp_all add: store_def)

section \<open>Reading\<close>

lemma resolve_maps_to: "maps_to ms a n f \<Longrightarrow> off < n \<Longrightarrow> resolve ms (a + of_nat off) = Some (f, off)"
  by (simp add: maps_to_def)

lemma maps_to_nonzero: "maps_to ms a n f \<Longrightarrow> off < n \<Longrightarrow> a + of_nat off \<noteq> 0"
proof -
  assume m: "maps_to ms a n f" "off < n"
  then have "unat (a + of_nat off) = unat a + off" by (intro unat_add_off) (simp add: maps_to_def)
  moreover have "unat a \<noteq> 0" using m(1) by (simp add: maps_to_def unat_eq_zero)
  ultimately show ?thesis by auto
qed

lemma mem_read_maps_to:
  assumes "maps_to (mmaps st) a (length d) f" and "fs st f = Some (DataFile d)" and "off + n \<le> length d"
    and "0 < n"
  shows "mem_read st (a + of_nat off) n = Some (take n (drop off d))"
  using assms by (simp add: mem_read_def resolve_maps_to)

lemma owner_chunk_ok:
  assumes p: "pinv pid F pr M C D" and o: "owner M C k i j"
  shows "chunk_ok pid (length (D (mo_vma_id (M ! i)))) (C (mo_vma_id (M ! i)) ! j)"
proof -
  have "M ! i \<in> set M" "C (mo_vma_id (M ! i)) ! j \<in> set (C (mo_vma_id (M ! i)))"
    "live (C (mo_vma_id (M ! i)) ! j)" using o by (simp_all add: owner_def)
  then show ?thesis using pinv_map(3) [OF p] by (simp add: map_ok_def)
qed

lemma get_chunkobj_owner:
  assumes p: "pinv pid (fs st) pr M C D" and o: "owner M C k i j"
  shows "get_chunkobj st (chptr pid (mo_vma_id (M ! i)) j) = Some (C (mo_vma_id (M ! i)) ! j)"
  using pinv_map [OF p, of "M ! i"] o by (intro get_chunkobj_file) (simp_all add: owner_def map_ok_def)

lemma length_obj_bytes:
  "chunk_ok pid (length d) c \<Longrightarrow> length (ob_bytes (obj_of d c)) = unat (ch_length c)"
  by (auto simp: chunk_ok_def obj_of_def min_def)

text \<open>What \<open>nv_map_read\<close> returns for a chunk, and that its bytes are behind the pointer.\<close>

lemma read_owner:
  assumes p: "pinv pid (fs st) pr M C D" and v: "vinv pid st pr M C D" and o: "owner M C k i j"
  defines "c \<equiv> C (mo_vma_id (M ! i)) ! j" and "d \<equiv> D (mo_vma_id (M ! i))"
  shows "ch_nv_ptr c \<noteq> 0" and "ch_valid c \<noteq> INVALID" and "ch_length c \<noteq> 0"
    and "ucast (ch_length c) = (of_nat (length (ob_bytes (obj_of d c))) :: ULONG)"
    and "mem_read st (ch_nv_ptr c) (length (ob_bytes (obj_of d c))) = Some (ob_bytes (obj_of d c))"
proof -
  have i: "M ! i \<in> set M" "c \<in> set (C (mo_vma_id (M ! i)))" "live c" using o by (simp_all add: owner_def c_def)
  have ok: "chunk_ok pid (length d) c" using owner_chunk_ok [OF p o] by (simp add: c_def d_def)
  have m: "maps_to (mmaps st) (mo_data_addr (M ! i)) (length d) (fdata pid (mo_vma_id (M ! i)))"
    and ptr: "ch_nv_ptr c = mo_data_addr (M ! i) + of_nat (unat (ch_offset c))"
    using vinv_map [OF v i(1)] i by (auto simp: vmap_def d_def)
  have f: "fs st (fdata pid (mo_vma_id (M ! i))) = Some (DataFile d)"
    using pinv_map(2) [OF p i(1)] by (simp add: d_def)
  have len: "0 < unat (ch_length c)" using ok by (simp add: chunk_ok_def unat_gt_0)
  have off: "unat (ch_offset c) + unat (ch_length c) \<le> length d" using ok by (simp add: chunk_ok_def)
  show "ch_nv_ptr c \<noteq> 0" unfolding ptr using len off by (intro maps_to_nonzero [OF m]) simp
  show "ch_valid c \<noteq> INVALID" using i(3) by (simp add: live_def)
  show "ch_length c \<noteq> 0" using len by auto
  show "ucast (ch_length c) = (of_nat (length (ob_bytes (obj_of d c))) :: ULONG)"
    using length_obj_bytes [OF ok] by simp
  show "mem_read st (ch_nv_ptr c) (length (ob_bytes (obj_of d c))) = Some (ob_bytes (obj_of d c))"
    unfolding ptr length_obj_bytes [OF ok] using mem_read_maps_to [OF m f off len]
    by (simp add: obj_of_def)
qed

lemma nv_map_read_owner:
  assumes p: "pinv pid (fs st) pr M C D" and v: "vinv pid st pr M C D" and rq: "rq_pid rq = pid"
    and o: "owner M C (rq_chunkid rq) i j"
  defines "c \<equiv> C (mo_vma_id (M ! i)) ! j"
  shows "nv_map_read os st rq = Some (st, rq\<lparr>rq_nv_ptr := ch_nv_ptr c, rq_bytes := ucast (ch_length c),
     rq_commitsz := ch_commitsz c\<rparr>, ch_nv_ptr c)"
proof -
  have i: "i < length M" using o by (simp add: owner_def)
  have vp: "vproc pid st" using v by (simp add: vinv_def)
  have "get_mmapobj st (moptr pid i) = Some (M ! i)"
    using p i by (intro get_mmapobj_file) (auto simp: pinv_def)
  moreover have "tree_lookup st (mo_chunkobj_tree (M ! i)) (ucast (rq_chunkid rq)) =
      Some (Some (chptr pid (mo_vma_id (M ! i)) j))"
    using vinv_map [OF v, of "M ! i"] tree_lookup_repr chunk_index_owner [OF p i, of "rq_chunkid rq"] o i
    by (auto simp: vmap_def)
  moreover have "(if rq_id rq \<noteq> 0 then rq_id rq else gen_id_from_str (rq_var_name rq)) = rq_chunkid rq"
    by (simp add: rq_chunkid_def)
  ultimately show ?thesis
    using find_process_vproc [OF vp] find_mmapobj_from_chunkid_vinv(1) [OF p v o]
      get_chunkobj_owner [OF p o] read_owner [OF p v o] rq
    by (simp add: nv_map_read_def Let_def c_def)
qed

lemma nv_map_read_absent:
  assumes p: "pinv pid (fs st) pr M C D" and v: "vinv pid st pr M C D" and rq: "rq_pid rq = pid"
    and o: "\<forall>i j. \<not> owner M C (rq_chunkid rq) i j"
  shows "nv_map_read os st rq = Some (st, rq\<lparr>rq_nv_ptr := 0, rq_log_ptr := 0\<rparr>, 0)"
proof -
  have vp: "vproc pid st" using v by (simp add: vinv_def)
  have "(if rq_id rq \<noteq> 0 then rq_id rq else gen_id_from_str (rq_var_name rq)) = rq_chunkid rq"
    by (simp add: rq_chunkid_def)
  then show ?thesis
    using find_process_vproc [OF vp] find_mmapobj_from_chunkid_vinv(2) [OF p v o] rq
    by (simp add: nv_map_read_def Let_def)
qed

section \<open>Changing one chunk\<close>

text \<open>
  \<open>nv_commit_len\<close> and \<open>nv_delete\<close> change the committed size and the validity of a live chunk.
\<close>

definition set_chunk :: "chunk_tabs \<Rightarrow> UINT \<Rightarrow> nat \<Rightarrow> (chunkobj_s \<Rightarrow> chunkobj_s) \<Rightarrow> chunk_tabs" where
  "set_chunk C v j f = C(v := (C v)[j := f (C v ! j)])"

definition mild :: "(chunkobj_s \<Rightarrow> chunkobj_s) \<Rightarrow> bool" where
  "mild f \<longleftrightarrow> (\<exists>g h. f = (\<lambda>c. c\<lparr>ch_commitsz := g c, ch_valid := h c\<rparr>))"

lemma mild_fields:
  assumes "mild f"
  shows "ch_pid (f c) = ch_pid c" "ch_length (f c) = ch_length c" "ch_chunkid (f c) = ch_chunkid c"
    "ch_offset (f c) = ch_offset c" "ch_objname (f c) = ch_objname c" "ch_nv_ptr (f c) = ch_nv_ptr c"
  using assms by (auto simp: mild_def)

lemma owner_set_chunk:
  assumes d: "distinct (map mo_vma_id M)" and i: "i < length M" "j < length (C (mo_vma_id (M ! i)))"
    and f: "mild f" "live (C (mo_vma_id (M ! i)) ! j)"
  shows "owner M (set_chunk C (mo_vma_id (M ! i)) j f) k i' j' \<longleftrightarrow>
    owner M C k i' j' \<and> (live (f (C (mo_vma_id (M ! i)) ! j)) \<or> (i', j') \<noteq> (i, j))"
proof -
  have "i' = i" if "i' < length M" "mo_vma_id (M ! i') = mo_vma_id (M ! i)"
    using distinct_map_nth_eq [OF d that(1) i(1) that(2)] .
  then show ?thesis using i f mild_fields [OF f(1)]
    by (auto simp: owner_def set_chunk_def nth_list_update)
qed

lemma sorted_wrt_apart_update:
  assumes "sorted_wrt apart cs" and "j < length cs" and "mild f" and "live (cs ! j)"
  shows "sorted_wrt apart (cs[j := f (cs ! j)])"
  using assms mild_fields [OF assms(3)]
  by (auto simp: sorted_wrt_iff_nth_less nth_list_update apart_def)

lemma map_ok_set_chunk:
  assumes "map_ok pid num m cs d" and "j < length cs" and "mild f" and "live (cs ! j)"
  shows "map_ok pid num m (cs[j := f (cs ! j)]) d"
proof -
  have "live c \<Longrightarrow> chunk_ok pid (length d) c" if "c \<in> set (cs[j := f (cs ! j)])" for c
  proof -
    assume "live c"
    have "c \<in> set cs \<or> c = f (cs ! j)" using that set_update_subset_insert by fastforce
    then show "chunk_ok pid (length d) c"
      using assms(1,2,4) \<open>live c\<close> mild_fields [OF assms(3)] by (auto simp: map_ok_def chunk_ok_def)
  qed
  then show ?thesis using assms sorted_wrt_apart_update by (simp add: map_ok_def)
qed

lemma pinv_set_chunk:
  assumes p: "pinv pid F pr M C D" and o: "owner M C k i j" and f: "mild f"
  defines "v \<equiv> mo_vma_id (M ! i)"
  shows "pinv pid (F(fchunks pid v \<mapsto> chunk_file (set_chunk C v j f v))) pr M (set_chunk C v j f) D"
proof -
  let ?C = "set_chunk C v j f"
  have i: "i < length M" "j < length (C v)" "live (C v ! j)" using o by (simp_all add: owner_def v_def)
  have d: "distinct (map mo_vma_id M)" and u: "uniq M C" using p by (simp_all add: pinv_def)
  have "uniq M ?C"
    using u owner_set_chunk [OF d i(1) _ f] i unfolding uniq_def v_def by blast
  moreover have "map_ok pid (unat (pr_num_mmaps pr)) m (?C (mo_vma_id m)) (D (mo_vma_id m))" if "m \<in> set M" for m
    using pinv_map(3) [OF p that] map_ok_set_chunk [OF _ i(2) f i(3)] by (auto simp: set_chunk_def)
  moreover have "(F(fchunks pid v \<mapsto> chunk_file (?C v))) (fchunks pid (mo_vma_id m)) =
      Some (chunk_file (?C (mo_vma_id m)))" if "m \<in> set M" for m
    using pinv_map(1) [OF p that] by (auto simp: set_chunk_def)
  moreover have "(F(fchunks pid v \<mapsto> chunk_file (?C v))) (fdata pid (mo_vma_id m)) =
      Some (DataFile (D (mo_vma_id m)))" if "m \<in> set M" for m
    using pinv_map(2) [OF p that] by simp
  ultimately show ?thesis using p by (simp add: pinv_def)
qed

lemma object_set_chunk:
  assumes p: "pinv pid F pr M C D" and o: "owner M C k i j" and f: "mild f"
  defines "v \<equiv> mo_vma_id (M ! i)"
  defines "c \<equiv> C v ! j"
  shows "object pid (F(fchunks pid v \<mapsto> chunk_file (set_chunk C v j f v))) =
    (object pid F)(k := (if live (f c) then Some (obj_of (D v) (f c)) else None))"
proof (rule ext)
  fix k'
  let ?F = "F(fchunks pid v \<mapsto> chunk_file (set_chunk C v j f v))" and ?C = "set_chunk C v j f"
  have i: "i < length M" "j < length (C v)" "live (C v ! j)" using o by (simp_all add: owner_def v_def)
  have d: "distinct (map mo_vma_id M)" and u: "uniq M C" using p by (simp_all add: pinv_def)
  note p' = pinv_set_chunk [OF p o f, folded v_def]
  have own: "owner M ?C k' i' j' \<longleftrightarrow> owner M C k' i' j' \<and> (live (f c) \<or> (i', j') \<noteq> (i, j))" for k' i' j'
    using owner_set_chunk [OF d i(1) _ f] i by (simp add: v_def c_def)
  have own_k: "owner M C k i' j' \<longleftrightarrow> (i', j') = (i, j)" for i' j' using u o unfolding uniq_def by blast
  show "object pid ?F k' = ((object pid F)(k := (if live (f c) then Some (obj_of (D v) (f c)) else None))) k'"
  proof (cases "k' = k")
    case True
    show ?thesis
    proof (cases "live (f c)")
      case l: True
      have "owner M ?C k i j" using own o l by simp
      moreover have "?C (mo_vma_id (M ! i)) ! j = f c" using i by (simp add: set_chunk_def v_def c_def)
      ultimately have "object pid ?F k = Some (obj_of (D v) (f c))"
        unfolding object_owner [OF p'] by (intro exI [of _ i] exI [of _ j]) (simp add: v_def)
      then show ?thesis using True l by simp
    next
      case False
      then have "\<forall>i' j'. \<not> owner M ?C k i' j'" using own own_k by blast
      then have "object pid ?F k = None" using object_None [OF p'] by blast
      then show ?thesis using True False by simp
    qed
  next
    case False
    have "object pid ?F k' = Some ob \<longleftrightarrow> object pid F k' = Some ob" for ob
    proof -
      have "(i', j') \<noteq> (i, j)" if "owner M C k' i' j'" for i' j'
        using that False o by (auto simp: owner_def)
      then have "owner M ?C k' i' j' \<longleftrightarrow> owner M C k' i' j'" for i' j' using own by blast
      moreover have "?C (mo_vma_id (M ! i')) ! j' = C (mo_vma_id (M ! i')) ! j'" if "owner M C k' i' j'" for i' j'
      proof (cases "mo_vma_id (M ! i') = v")
        case True
        then have "i' = i" using distinct_map_nth_eq [OF d _ i(1)] that by (auto simp: owner_def v_def)
        then have "j' \<noteq> j" using that False o by (auto simp: owner_def)
        then show ?thesis using True by (simp add: set_chunk_def)
      qed (simp add: set_chunk_def)
      ultimately show ?thesis unfolding object_owner [OF p'] object_owner [OF p] by metis
    qed
    then show ?thesis using False by (metis fun_upd_other option.exhaust)
  qed
qed

lemma volatile_simps [simp]:
  "tree_repr (st\<lparr>fs := F\<rparr>) = tree_repr st" "tree_repr (st\<lparr>objnamemap := N\<rparr>) = tree_repr st"
  "tree_repr (st\<lparr>chunkmap := K\<rparr>) = tree_repr st" "tree_repr (st\<lparr>proc_vmas := V\<rparr>) = tree_repr st"
  "tree_repr (st\<lparr>map_tree := T\<rparr>) = tree_repr st" "tree_repr (st\<lparr>prev_proc_id := P\<rparr>) = tree_repr st"
  "tree_repr (st\<lparr>mmaps := ms\<rparr>) = tree_repr st"
  by (simp_all add: tree_repr_def fun_eq_iff)

lemma vproc_cong:
  assumes "g_initialized st' = g_initialized st" and "enable_optimze st' = enable_optimze st"
    and "use_map_cache st' = use_map_cache st" and "enable_trans st' = enable_trans st"
    and "proc_list_init st' = proc_list_init st" and "proc_tree st' = proc_tree st"
    and "mmaps st' = mmaps st" and "proc_map_start st' = proc_map_start st"
  shows "vproc pid st' = vproc pid st"
  using assms by (simp add: vproc_def)

lemma vproc_trees [simp]: "vproc pid (st\<lparr>trees := T\<rparr>) = vproc pid st"
  by (rule vproc_cong) simp_all

lemma vinv_cong:
  assumes "g_initialized st' = g_initialized st" and "enable_optimze st' = enable_optimze st"
    and "use_map_cache st' = use_map_cache st" and "enable_trans st' = enable_trans st"
    and "proc_list_init st' = proc_list_init st" and "proc_tree st' = proc_tree st"
    and "mmaps st' = mmaps st" and "proc_map_start st' = proc_map_start st"
    and "trees st' = trees st" and "next_tree st' = next_tree st"
  shows "vinv pid st' = vinv pid st"
proof -
  have "tree_repr st' = tree_repr st" using assms(9,10) by (simp add: tree_repr_def fun_eq_iff)
  then show ?thesis
    using vproc_cong [OF assms(1-8)] assms(7) by (simp add: vinv_def vmap_def fun_eq_iff)
qed

lemma vinv_simps [simp]:
  "vinv pid (st\<lparr>fs := F\<rparr>) = vinv pid st" "vinv pid (st\<lparr>objnamemap := N\<rparr>) = vinv pid st"
  "vinv pid (st\<lparr>chunkmap := K\<rparr>) = vinv pid st" "vinv pid (st\<lparr>proc_vmas := V\<rparr>) = vinv pid st"
  "vinv pid (st\<lparr>map_tree := T\<rparr>) = vinv pid st" "vinv pid (st\<lparr>prev_proc_id := P\<rparr>) = vinv pid st"
  by (rule vinv_cong; simp)+

lemma tree_repr_upd:
  "rbtree_repr t m \<Longrightarrow> p \<noteq> 0 \<Longrightarrow> p < next_tree st \<Longrightarrow> tree_repr (st\<lparr>trees := (trees st)(p \<mapsto> t)\<rparr>) p m"
  by (simp add: tree_repr_def)

lemma tree_repr_other: "q \<noteq> p \<Longrightarrow> tree_repr (st\<lparr>trees := (trees st)(p \<mapsto> t)\<rparr>) q = tree_repr st q"
  by (simp add: tree_repr_def fun_eq_iff)

lemma vmap_tree_upd:
  assumes "vmap pid st m cs d" and "rbtree_repr t (chunk_index pid (mo_vma_id m) cs')"
    and "\<forall>c \<in> set cs'. live c \<longrightarrow> ch_nv_ptr c = mo_data_addr m + ucast (ch_offset c)" and "length d' = length d"
  shows "vmap pid (st\<lparr>trees := (trees st)(mo_chunkobj_tree m \<mapsto> t)\<rparr>) m cs' d'"
  using assms tree_repr_upd [of t _ "mo_chunkobj_tree m" st]
  by (auto simp: vmap_def) (auto simp: tree_repr_def)

lemma vmap_tree_other:
  "mo_chunkobj_tree m \<noteq> p \<Longrightarrow> vmap pid (st\<lparr>trees := (trees st)(p \<mapsto> t)\<rparr>) m = vmap pid st m"
  by (simp add: vmap_def fun_eq_iff tree_repr_other)

text \<open>The state after the tree of one mapping, and the chunks it is about, have changed.\<close>

lemma vinv_tree_upd:
  assumes v: "vinv pid st pr M C D" and d: "distinct (map mo_vma_id M)" and i: "i < length M"
    and t: "rbtree_repr t (chunk_index pid (mo_vma_id (M ! i)) cs)"
    and n: "\<forall>c \<in> set cs. live c \<longrightarrow> ch_nv_ptr c = mo_data_addr (M ! i) + ucast (ch_offset c)"
    and D: "\<forall>v. length (D' v) = length (D v)"
  shows "vinv pid (st\<lparr>trees := (trees st)(mo_chunkobj_tree (M ! i) \<mapsto> t)\<rparr>) pr M (C(mo_vma_id (M ! i) := cs)) D'"
proof -
  let ?p = "mo_chunkobj_tree (M ! i)"
  have dt: "pr_mmapobj_tree pr \<noteq> ?p" "distinct (map mo_chunkobj_tree M)"
    using v i by (auto simp: vinv_def)
  have "vmap pid (st\<lparr>trees := (trees st)(?p \<mapsto> t)\<rparr>) m ((C(mo_vma_id (M ! i) := cs)) (mo_vma_id m)) (D' (mo_vma_id m))"
    if mM: "m \<in> set M" for m
  proof -
    obtain i' where i': "i' < length M" "m = M ! i'" using mM by (auto simp: in_set_conv_nth)
    have vm: "vmap pid st m (C (mo_vma_id m)) (D (mo_vma_id m))" using vinv_map [OF v mM] .
    show ?thesis
    proof (cases "i' = i")
      case True
      then have m: "m = M ! i" using i' by simp
      have "vmap pid (st\<lparr>trees := (trees st)(?p \<mapsto> t)\<rparr>) (M ! i) cs (D' (mo_vma_id (M ! i)))"
        using D by (intro vmap_tree_upd [OF vm [unfolded m] t n]) simp
      then show ?thesis unfolding m by simp
    next
      case False
      then have ne: "mo_vma_id m \<noteq> mo_vma_id (M ! i)" "mo_chunkobj_tree m \<noteq> ?p"
        using distinct_map_nth_eq [OF d i'(1) i] distinct_map_nth_eq [OF dt(2) i'(1) i] i'(2) by blast+
      have "vmap pid st m (C (mo_vma_id m)) (D' (mo_vma_id m))" using vm D by (simp add: vmap_def)
      then show ?thesis using ne by (simp add: vmap_tree_other)
    qed
  qed
  then show ?thesis using v dt(1) by (simp add: vinv_def tree_repr_other)
qed

lemma vinv_set_chunk_live:
  assumes v: "vinv pid st pr M C D" and d: "distinct (map mo_vma_id M)" and o: "owner M C k i j"
    and f: "mild f" "live (f (C (mo_vma_id (M ! i)) ! j))"
  shows "vinv pid st pr M (set_chunk C (mo_vma_id (M ! i)) j f) D"
proof -
  let ?v = "mo_vma_id (M ! i)"
  have i: "i < length M" "j < length (C ?v)" "live (C ?v ! j)" using o by (simp_all add: owner_def)
  have "chunk_index pid ?v ((C ?v)[j := f (C ?v ! j)]) = chunk_index pid ?v (C ?v)"
    unfolding chunk_index_def length_list_update
    by (rule index_cong) (use mild_fields [OF f(1)] f(2) i in \<open>simp add: nth_list_update\<close>)
  moreover have "ch_nv_ptr c = mo_data_addr m + ucast (ch_offset c)"
    if "m \<in> set M" "mo_vma_id m = ?v" "c \<in> set ((C ?v)[j := f (C ?v ! j)])" "live c" for c m
  proof -
    have "c \<in> set (C ?v) \<or> c = f (C ?v ! j)" using that set_update_subset_insert by fastforce
    then show ?thesis
      using vinv_map [OF v that(1)] that i mild_fields [OF f(1)] by (auto simp: vmap_def)
  qed
  ultimately have "vmap pid st m (set_chunk C ?v j f (mo_vma_id m)) (D (mo_vma_id m))" if "m \<in> set M" for m
    using vinv_map [OF v that] that by (auto simp: vmap_def set_chunk_def)
  then show ?thesis using v by (simp add: vinv_def)
qed

lemma chunk_index_dead:
  assumes u: "uniq_ids cs" and j: "j < length cs" "live (cs ! j)" and f: "mild f" "\<not> live (f (cs ! j))"
  shows "chunk_index pid v (cs[j := f (cs ! j)]) = (chunk_index pid v cs)(ucast (ch_chunkid (cs ! j)) := None)"
proof -
  let ?cs = "cs[j := f (cs ! j)]"
  have nth: "live (?cs ! x) \<longleftrightarrow> x \<noteq> j \<and> live (cs ! x)" "x \<noteq> j \<Longrightarrow> ?cs ! x = cs ! x" if "x < length cs" for x
    using that f(2) j(1) by (auto simp: nth_list_update)
  have inj: "x = y" if "x < length cs" "live (cs ! x)" "y < length cs" "live (cs ! y)"
    "ch_chunkid (cs ! x) = ch_chunkid (cs ! y)" for x y
    using u that unfolding uniq_ids_def by (auto dest: inj_onD)
  have u': "uniq_ids ?cs" unfolding uniq_ids_def
    by (rule inj_onI) (use nth inj in auto)
  have "chunk_index pid v ?cs k = Some q \<longleftrightarrow>
      ((chunk_index pid v cs)(ucast (ch_chunkid (cs ! j)) := None)) k = Some q" for k q
    unfolding chunk_index_iff [OF u'] fun_upd_apply length_list_update
    using chunk_index_iff [OF u, of pid v k q] nth inj [OF j] by (auto; metis nth_list_update_neq)
  then show ?thesis by (intro ext) (metis option.exhaust)
qed

section \<open>Committing and deleting\<close>

lemma rinv_chunk_file [simp]:
  "rinv pid (st\<lparr>fs := (fs st)(fchunks pid v \<mapsto> x)\<rparr>) pr M D R = rinv pid st pr M D R"
  by (simp add: rinv_def region_ok_def)

lemma rinv_simps [simp]:
  "rinv pid (st\<lparr>trees := T\<rparr>) = rinv pid st" "rinv pid (st\<lparr>objnamemap := N\<rparr>) = rinv pid st"
  "rinv pid (st\<lparr>chunkmap := K\<rparr>) = rinv pid st" "rinv pid (st\<lparr>prev_proc_id := P\<rparr>) = rinv pid st"
  by (simp_all add: rinv_def region_ok_def fun_eq_iff)

lemma store_simps [simp]:
  "store pid (st\<lparr>objnamemap := N\<rparr>) = store pid st" "store pid (st\<lparr>chunkmap := K\<rparr>) = store pid st"
  "store pid (st\<lparr>prev_proc_id := P\<rparr>) = store pid st"
  by (simp_all add: store_def fun_eq_iff)

lemma set_chunk_nonempty: "C v \<noteq> [] \<Longrightarrow> set_chunk C w j f v \<noteq> []"
  by (auto simp: set_chunk_def)

lemma upd_chunkobj_owner:
  assumes p: "pinv pid (fs st) pr M C D" and o: "owner M C k i j"
  defines "v \<equiv> mo_vma_id (M ! i)"
  shows "upd_chunkobj st (chptr pid v j) f =
    Some (st\<lparr>fs := (fs st)(fchunks pid v \<mapsto> chunk_file (set_chunk C v j f v))\<rparr>)"
proof -
  have "fs st (fchunks pid v) = Some (chunk_file (C v))" "length (C v) \<le> MAX_CHUNKS" "j < length (C v)"
    using pinv_map [OF p, of "M ! i"] o by (simp_all add: owner_def map_ok_def v_def)
  then show ?thesis by (simp add: upd_chunkobj_file set_chunk_def)
qed

lemma store_set_chunk_live:
  assumes s: "store pid st pr M C D R" and o: "owner M C k i j" and f: "mild f"
    and l: "live (f (C (mo_vma_id (M ! i)) ! j))"
  defines "v \<equiv> mo_vma_id (M ! i)"
  shows "store pid (st\<lparr>fs := (fs st)(fchunks pid v \<mapsto> chunk_file (set_chunk C v j f v))\<rparr>) pr M
    (set_chunk C v j f) D R"
proof -
  note p = storeD(1) [OF s]
  have d: "distinct (map mo_vma_id M)" using p by (simp add: pinv_def)
  show ?thesis
    using s pinv_set_chunk [OF p o f] vinv_set_chunk_live [OF storeD(2) [OF s] d o f l]
    by (auto simp: store_def v_def set_chunk_nonempty)
qed

lemma commit_mild: "mild (\<lambda>c. c\<lparr>ch_commitsz := x\<rparr>)"
  unfolding mild_def
  by (rule exI [of _ "\<lambda>_. x"], rule exI [of _ ch_valid]) (simp add: fun_eq_iff)

lemma delete_mild: "mild (\<lambda>c. c\<lparr>ch_commitsz := x, ch_valid := y\<rparr>)"
  unfolding mild_def by (rule exI [of _ "\<lambda>_. x"], rule exI [of _ "\<lambda>_. y"]) (rule refl)

lemma nv_commit_len_store:
  fixes sz :: ULONG
  assumes s: "store pid st pr M C D R" and rq: "rq_pid rq = pid" "pid \<noteq> 0" "rq_chunkid rq \<noteq> 0"
    and o: "owner M C (rq_chunkid rq) i j"
  defines "v \<equiv> mo_vma_id (M ! i)"
  defines "C' \<equiv> set_chunk C v j (\<lambda>c. c\<lparr>ch_commitsz := ucast sz\<rparr>)"
  shows "nv_commit_len st rq sz = Some (st\<lparr>fs := (fs st)(fchunks pid v \<mapsto> chunk_file (C' v))\<rparr>)"
    and "store pid (st\<lparr>fs := (fs st)(fchunks pid v \<mapsto> chunk_file (C' v))\<rparr>) pr M C' D R"
    and "object pid ((fs st)(fchunks pid v \<mapsto> chunk_file (C' v))) =
      (object pid (fs st))(rq_chunkid rq \<mapsto> (obj_of (D v) (C v ! j))\<lparr>ob_commitsz := ucast sz\<rparr>)"
proof -
  let ?f = "\<lambda>c. c\<lparr>ch_commitsz := ucast sz\<rparr>" and ?st = "st\<lparr>fs := (fs st)(fchunks pid v \<mapsto> chunk_file (C' v))\<rparr>"
  note p = storeD(1) [OF s] and vi = storeD(2) [OF s]
  have i: "i < length M" "j < length (C v)" "live (C v ! j)" using o by (simp_all add: owner_def v_def)
  have l: "live (?f (C v ! j))" using i(3) by (simp add: live_def)
  show s': "store pid ?st pr M C' D R"
    using store_set_chunk_live [OF s o commit_mild] l by (simp add: v_def C'_def)
  show "object pid ((fs st)(fchunks pid v \<mapsto> chunk_file (C' v))) =
      (object pid (fs st))(rq_chunkid rq \<mapsto> (obj_of (D v) (C v ! j))\<lparr>ob_commitsz := ucast sz\<rparr>)"
    using object_set_chunk [OF p o commit_mild, of "ucast sz"] l by (simp add: v_def C'_def obj_of_def)
  have o': "owner M C' (rq_chunkid rq) i j"
    using o i l by (simp add: owner_def C'_def set_chunk_def v_def)
  have "get_chunkobj ?st (chptr pid v j) = Some (C' v ! j)"
    using get_chunkobj_owner [OF storeD(1) [OF s'] o'] by (simp add: v_def)
  moreover have "ch_length (C' v ! j) \<noteq> 0"
    using owner_chunk_ok [OF storeD(1) [OF s'] o'] by (simp add: chunk_ok_def v_def)
  ultimately show "nv_commit_len st rq sz = Some ?st"
    using get_chunk_vinv(1) [OF p vi rq o] upd_chunkobj_owner [OF p o, of ?f]
    by (simp add: nv_commit_len_def v_def C'_def)
qed

lemma nv_commit_store:
  assumes s: "store pid st pr M C D R" and rq: "rq_pid rq = pid" "pid \<noteq> 0" "rq_chunkid rq \<noteq> 0"
    and o: "owner M C (rq_chunkid rq) i j"
  shows "nv_commit st rq = Some st"
  using get_chunk_vinv(1) [OF storeD(1,2) [OF s] rq o] get_chunkobj_owner [OF storeD(1) [OF s] o]
    owner_chunk_ok [OF storeD(1) [OF s] o]
  by (simp add: nv_commit_def chunk_ok_def)

lemma find_vmaid_frame:
  assumes "\<And>p. get_mmapobj st' p = get_mmapobj st p" and "trees st' = trees st"
  shows "find_vmaid_from_chunk fuel st' t n k = find_vmaid_from_chunk fuel st t n k"
proof (induction fuel arbitrary: n)
  case (Suc fuel)
  have fc: "find_chunk st' p k = find_chunk st p k" for p
    unfolding find_chunk_def tree_lookup_def assms ..
  show ?case unfolding find_vmaid_from_chunk.simps Suc assms fc ..
qed simp

lemma find_mmapobj_frame:
  assumes "find_mmapobj_from_chunkid st k q = Some (st, r)" and "get_proc st q = Some pr"
    and "pr_mmapobj_initialized pr \<noteq> 0"
    and "\<And>p. get_mmapobj st' p = get_mmapobj st p" and "get_proc st' q = get_proc st q"
    and "trees st' = trees st"
  shows "find_mmapobj_from_chunkid st' k q = Some (st', r)"
  using assms by (auto simp: find_mmapobj_from_chunkid_def find_vmaid_frame [OF assms(4,6)] tree_lookup_def
      split: if_splits bind_splits)

lemma get_mmapobj_chunk_upd:
  "fs st (fchunks pid v) = Some (chunk_file cs) \<Longrightarrow>
   get_mmapobj (st\<lparr>fs := (fs st)(fchunks pid v \<mapsto> chunk_file cs')\<rparr>) p = get_mmapobj st p"
  by (cases "fst p = fchunks pid v") (simp_all add: get_mmapobj_def chunk_file_def)

lemma nv_delete_store:
  assumes s: "store pid st pr M C D R" and rq: "rq_pid rq = pid" "pid \<noteq> 0" "rq_chunkid rq \<noteq> 0"
    and o: "owner M C (rq_chunkid rq) i j"
  defines "v \<equiv> mo_vma_id (M ! i)"
  defines "C' \<equiv> set_chunk C v j (\<lambda>c. c\<lparr>ch_commitsz := 0, ch_valid := INVALID\<rparr>)"
  shows "\<exists>T. nv_delete st rq = Some (st\<lparr>fs := (fs st)(fchunks pid v \<mapsto> chunk_file (C' v)), trees := T,
        objnamemap := objnamemap_delete (rq_var_name rq) (objnamemap st)\<rparr>, 0) \<and>
      store pid (st\<lparr>fs := (fs st)(fchunks pid v \<mapsto> chunk_file (C' v)), trees := T\<rparr>) pr M C' D R"
    and "object pid ((fs st)(fchunks pid v \<mapsto> chunk_file (C' v))) = (object pid (fs st))(rq_chunkid rq := None)"
proof -
  let ?f = "\<lambda>c. c\<lparr>ch_commitsz := 0, ch_valid := INVALID\<rparr>" and ?F = "(fs st)(fchunks pid v \<mapsto> chunk_file (C' v))"
  let ?st = "st\<lparr>fs := ?F\<rparr>" and ?m = "M ! i"
  note p = storeD(1) [OF s] and vi = storeD(2) [OF s]
  have i: "i < length M" "j < length (C v)" "live (C v ! j)" "ch_chunkid (C v ! j) = rq_chunkid rq"
    using o by (simp_all add: owner_def v_def)
  have l: "\<not> live (?f (C v ! j))" by (simp add: live_def)
  have d: "distinct (map mo_vma_id M)" using p by (simp add: pinv_def)
  show "object pid ?F = (object pid (fs st))(rq_chunkid rq := None)"
    using object_set_chunk [OF p o delete_mild [of INVALID 0]] l by (simp add: v_def C'_def)
  have p': "pinv pid ?F pr M C' D"
    using pinv_set_chunk [OF p o delete_mild [of INVALID 0]] by (simp add: v_def C'_def)
  have fc: "fs st (fchunks pid v) = Some (chunk_file (C v))" "length (C v) \<le> MAX_CHUNKS"
    using pinv_map [OF p, of ?m] i(1) by (simp_all add: v_def map_ok_def)
  have pr: "get_proc st (pptr_of pid) = Some pr" "get_proc ?st (pptr_of pid) = Some pr"
    "pr_mmapobj_initialized pr \<noteq> 0"
    using p vi by (auto simp: pinv_def vinv_def intro!: get_proc_file)
  have find: "find_mmapobj_from_chunkid ?st (rq_chunkid rq) (pptr_of pid) = Some (?st, Some (moptr pid i))"
    using find_mmapobj_frame [OF find_mmapobj_from_chunkid_vinv(1) [OF p vi o] pr(1,3)]
      get_mmapobj_chunk_upd [OF fc(1)] pr by simp
  have get: "get_chunkobj ?st (chptr pid v j) = Some (?f (C v ! j))"
    using i fc by (subst get_chunkobj_file [where cs = "C' v"]) (simp_all add: C'_def set_chunk_def)
  have m: "get_mmapobj ?st (moptr pid i) = Some ?m"
    using p' i(1) by (intro get_mmapobj_file) (auto simp: pinv_def)
  have tr: "tree_repr ?st (mo_chunkobj_tree ?m) (chunk_index pid v (C v))"
    using vinv_map [OF vi, of ?m] i(1) by (simp add: vmap_def v_def)
  obtain t where t: "tree_delete ?st (mo_chunkobj_tree ?m) (ucast (rq_chunkid rq)) =
      Some (?st\<lparr>trees := (trees ?st)(mo_chunkobj_tree ?m \<mapsto> t)\<rparr>)"
    "rbtree_repr t ((chunk_index pid v (C v))(ucast (rq_chunkid rq) := None))"
    using tree_delete_repr [OF tr] by blast
  let ?T = "(trees st)(mo_chunkobj_tree ?m \<mapsto> t)"
  have idx: "rbtree_repr t (chunk_index pid v (C' v))"
    using t(2) chunk_index_dead [OF pinv_uniq_ids [OF p] _ _ delete_mild [of INVALID 0], of ?m j] i l
    by (simp add: C'_def set_chunk_def v_def)
  have "ch_nv_ptr c = mo_data_addr ?m + ucast (ch_offset c)" if "c \<in> set (C' v)" "live c" for c
  proof -
    have "c \<in> set (C v)"
      using that l set_update_subset_insert [of "C v" j "?f (C v ! j)"] by (auto simp: C'_def set_chunk_def)
    then show ?thesis using vinv_map [OF vi, of ?m] i(1) that(2) by (simp add: vmap_def v_def)
  qed
  then have "vinv pid (st\<lparr>trees := ?T\<rparr>) pr M (C(v := C' v)) D"
    using vinv_tree_upd [OF vi d i(1), of t "C' v" D] idx by (simp add: v_def)
  moreover have "C(v := C' v) = C'" by (simp add: C'_def set_chunk_def fun_eq_iff)
  moreover have "vinv pid (st\<lparr>fs := ?F, trees := ?T\<rparr>) = vinv pid (st\<lparr>trees := ?T\<rparr>)"
    by (rule vinv_cong) simp_all
  ultimately have "store pid (st\<lparr>fs := ?F, trees := ?T\<rparr>) pr M C' D R"
    using p' s by (simp add: store_def C'_def set_chunk_nonempty)
  moreover have "nv_delete st rq = Some (st\<lparr>fs := ?F, trees := ?T,
      objnamemap := objnamemap_delete (rq_var_name rq) (objnamemap st)\<rparr>, 0)"
    using get_chunk_vinv(1) [OF p vi rq o] upd_chunkobj_owner [OF p o, of ?f] get find m t(1) tr i(4) rq
      find_proc_obj_vproc [of pid st] vi
    by (simp add: nv_delete_def v_def C'_def vinv_def tree_repr_def)
  ultimately show "\<exists>T. nv_delete st rq = Some (st\<lparr>fs := ?F, trees := T,
        objnamemap := objnamemap_delete (rq_var_name rq) (objnamemap st)\<rparr>, 0) \<and>
      store pid (st\<lparr>fs := ?F, trees := T\<rparr>) pr M C' D R" by blast
qed

end
