(* ===== verification/NvMap_Record.thy ===== *)
theory NvMap_Record
  imports NvMap_Objects
begin

text \<open>
  Making objects: writes through the pointers the store hands out, new mappings by \<open>nv_mmap\<close>, and
  \<open>nv_record_chunk\<close> for a name that is not taken.
\<close>

section \<open>Writing data\<close>

definition patch :: "byte list \<Rightarrow> nat \<Rightarrow> byte list \<Rightarrow> byte list" where
  "patch d off bs = take off d @ bs @ drop (off + length bs) d"

lemma length_patch [simp]: "off + length bs \<le> length d \<Longrightarrow> length (patch d off bs) = length d"
  by (simp add: patch_def)

lemma nth_patch:
  "off + length bs \<le> length d \<Longrightarrow> x < length d \<Longrightarrow>
   patch d off bs ! x = (if off \<le> x \<and> x < off + length bs then bs ! (x - off) else d ! x)"
  by (auto simp: patch_def nth_append min_def)

lemma patch_apart:
  assumes "off + length bs \<le> length d" and "co + n \<le> length d" and "co + n \<le> off \<or> off + length bs \<le> co"
  shows "take n (drop co (patch d off bs)) = take n (drop co d)"
  by (rule nth_equalityI) (use assms in \<open>auto simp: nth_patch\<close>)

lemma patch_inside:
  assumes "co + n \<le> length d" and "x + length bs \<le> n"
  shows "take n (drop co (patch d (co + x) bs)) = patch (take n (drop co d)) x bs"
  by (rule nth_equalityI) (use assms in \<open>auto simp: nth_patch\<close>)

lemma mem_write_maps_to:
  assumes "maps_to (mmaps st) a (length d) f" and "fs st f = Some (DataFile d)"
    and "off + length bs \<le> length d"
  shows "mem_write st (a + of_nat off) bs = Some (st\<lparr>fs := (fs st)(f \<mapsto> DataFile (patch d off bs))\<rparr>)"
proof (cases "bs = []")
  case True
  then have "(fs st)(f \<mapsto> DataFile (patch d off bs)) = fs st"
    using assms(2) by (auto simp: patch_def fun_eq_iff)
  then show ?thesis using True by (simp add: mem_write_def)
next
  case False
  then have "off < length d" using assms(3) by (cases bs) auto
  then show ?thesis using False assms by (simp add: mem_write_def resolve_maps_to patch_def)
qed

text \<open>Replacing the contents of a data file by as many bytes.\<close>

lemma map_ok_data: "map_ok pid num m cs d \<Longrightarrow> length d' = length d \<Longrightarrow> map_ok pid num m cs d'"
  by (auto simp: map_ok_def)

lemma pinv_data_upd:
  assumes p: "pinv pid F pr M C D" and l: "length d = length (D v)"
  shows "pinv pid (F(fdata pid v \<mapsto> DataFile d)) pr M C (D(v := d))"
  using p l map_ok_data [of pid _ _ _ "D v" d] by (auto simp: pinv_def)

lemma vinv_data_upd:
  assumes "vinv pid st pr M C D" and "length d = length (D v)"
  shows "vinv pid st pr M C (D(v := d))"
  using assms by (auto simp: vinv_def vmap_def)

lemma rinv_data_upd:
  assumes r: "rinv pid st pr M D R" and l: "length d = length (D v)"
  shows "rinv pid (st\<lparr>fs := (fs st)(fdata pid v \<mapsto> DataFile d)\<rparr>) pr M (D(v := d)) R"
proof -
  have n: "region_node pid (D(v := d)) = region_node pid D"
    using l by (auto simp: region_node_def fun_eq_iff)
  show ?thesis using r l unfolding rinv_def n by (auto simp: region_ok_def)
qed

lemma store_data_upd:
  assumes "store pid st pr M C D R" and "length d = length (D v)"
  shows "store pid (st\<lparr>fs := (fs st)(fdata pid v \<mapsto> DataFile d)\<rparr>) pr M C (D(v := d)) R"
  using assms pinv_data_upd [of pid "fs st" pr M C D d v] vinv_data_upd [of pid st pr M C D d v]
    rinv_data_upd [of pid st pr M D R d v]
  by (simp add: store_def)

text \<open>Objects that do not lie in the written range keep their bytes.\<close>

lemma object_data_upd:
  assumes p: "pinv pid F pr M C D" and l: "length d = length (D v)"
    and same: "\<And>i j. owner M C k i j \<Longrightarrow> mo_vma_id (M ! i) = v \<Longrightarrow>
      obj_of d (C v ! j) = obj_of (D v) (C v ! j)"
  shows "object pid (F(fdata pid v \<mapsto> DataFile d)) k = object pid F k"
proof -
  note p' = pinv_data_upd [OF p l]
  have "obj_of ((D(v := d)) (mo_vma_id (M ! i))) (C (mo_vma_id (M ! i)) ! j) =
      obj_of (D (mo_vma_id (M ! i))) (C (mo_vma_id (M ! i)) ! j)" if "owner M C k i j" for i j
    using same [OF that] by auto
  then have "object pid (F(fdata pid v \<mapsto> DataFile d)) k = Some ob \<longleftrightarrow> object pid F k = Some ob" for ob
    unfolding object_owner [OF p] object_owner [OF p'] by metis
  then show ?thesis by (metis option.exhaust)
qed

lemma object_Some_owner:
  assumes "pinv pid F pr M C D" and "owner M C k i j"
  shows "object pid F k = Some (obj_of (D (mo_vma_id (M ! i))) (C (mo_vma_id (M ! i)) ! j))"
  using object_owner [OF assms(1), of k] assms(2) by blast

lemma owner_apart:
  assumes p: "pinv pid F pr M C D" and o: "owner M C k i j" "owner M C k' i j'" and ne: "k \<noteq> k'"
  defines "cs \<equiv> C (mo_vma_id (M ! i))"
  shows "unat (ch_offset (cs ! j)) + unat (ch_length (cs ! j)) \<le> unat (ch_offset (cs ! j')) \<or>
    unat (ch_offset (cs ! j')) + unat (ch_length (cs ! j')) \<le> unat (ch_offset (cs ! j))"
proof -
  have "sorted_wrt apart cs" using pinv_map(3) [OF p, of "M ! i"] o by (simp add: map_ok_def owner_def cs_def)
  moreover have "j < length cs" "j' < length cs" "live (cs ! j)" "live (cs ! j')" "j \<noteq> j'"
    using o ne by (auto simp: owner_def cs_def)
  ultimately show ?thesis
    using sorted_wrt_nth_less [of apart cs j j'] sorted_wrt_nth_less [of apart cs j' j]
    by (cases "j < j'") (auto simp: apart_def)
qed

lemma mem_write_store:
  assumes s: "store pid st pr M C D R" and o: "owner M C k i j"
  defines "v \<equiv> mo_vma_id (M ! i)"
  defines "c \<equiv> C v ! j"
  assumes x: "x + length bs \<le> unat (ch_length c)"
  shows "\<exists>st'. mem_write st (ch_nv_ptr c + of_nat x) bs = Some st' \<and> (\<exists>D'. store pid st' pr M C D' R) \<and>
    object pid (fs st') = (object pid (fs st))
      (k \<mapsto> (obj_of (D v) c)\<lparr>ob_bytes := patch (ob_bytes (obj_of (D v) c)) x bs\<rparr>)"
proof -
  note p = storeD(1) [OF s]
  let ?d = "patch (D v) (unat (ch_offset c) + x) bs"
  let ?F = "(fs st)(fdata pid v \<mapsto> DataFile ?d)"
  have i: "M ! i \<in> set M" "c \<in> set (C v)" "live c" using o by (simp_all add: owner_def v_def c_def)
  have ok: "unat (ch_offset c) + unat (ch_length c) \<le> length (D v)"
    using owner_chunk_ok [OF p o] by (simp add: chunk_ok_def v_def c_def)
  have m: "maps_to (mmaps st) (mo_data_addr (M ! i)) (length (D v)) (fdata pid v)"
    and ptr: "ch_nv_ptr c = mo_data_addr (M ! i) + of_nat (unat (ch_offset c))"
    using vinv_map [OF storeD(2) [OF s] i(1)] i(2,3) by (auto simp: vmap_def v_def)
  have f: "fs st (fdata pid v) = Some (DataFile (D v))" using pinv_map(2) [OF p i(1)] by (simp add: v_def)
  have l: "length ?d = length (D v)" using x ok by simp
  have w: "mem_write st (ch_nv_ptr c + of_nat x) bs = Some (st\<lparr>fs := ?F\<rparr>)"
    using mem_write_maps_to [OF m f, of "unat (ch_offset c) + x" bs] x ok by (simp add: ptr add.assoc)
  have s': "store pid (st\<lparr>fs := ?F\<rparr>) pr M C (D(v := ?d)) R" using store_data_upd [OF s l] .
  have own: "obj_of ?d c = (obj_of (D v) c)\<lparr>ob_bytes := patch (ob_bytes (obj_of (D v) c)) x bs\<rparr>"
    using patch_inside [OF ok x] by (simp add: obj_of_def)
  have "object pid ?F k' = object pid (fs st) k'" if "k' \<noteq> k" for k'
  proof (rule object_data_upd [OF p l])
    fix i' j' assume o': "owner M C k' i' j'" and "mo_vma_id (M ! i') = v"
    then have "i' = i" using p o distinct_map_nth_eq [of mo_vma_id M i' i] by (auto simp: owner_def pinv_def v_def)
    then have "unat (ch_offset c) + unat (ch_length c) \<le> unat (ch_offset (C v ! j')) \<or>
        unat (ch_offset (C v ! j')) + unat (ch_length (C v ! j')) \<le> unat (ch_offset c)"
      using owner_apart [OF p o o' [unfolded \<open>i' = i\<close>]] that by (simp add: v_def c_def)
    moreover have "unat (ch_offset (C v ! j')) + unat (ch_length (C v ! j')) \<le> length (D v)"
      using owner_chunk_ok [OF p o'] \<open>i' = i\<close> by (simp add: chunk_ok_def v_def)
    ultimately show "obj_of ?d (C v ! j') = obj_of (D v) (C v ! j')"
      using x ok patch_apart [of "unat (ch_offset c) + x" bs "D v" "unat (ch_offset (C v ! j'))"
          "unat (ch_length (C v ! j'))"] by (auto simp: obj_of_def)
  qed
  moreover have "object pid ?F k = Some (obj_of ?d c)"
    using object_Some_owner [OF storeD(1) [OF s'] o] by (simp add: v_def c_def)
  ultimately have "object pid ?F = (object pid (fs st))(k \<mapsto> obj_of ?d c)" by (auto simp: fun_eq_iff)
  then show ?thesis using w s' own by auto
qed

section \<open>New mappings\<close>

lemma vinv_ext:
  assumes v: "vinv pid st pr M C D" and e: "map_ext (mmaps st) ms" and wf: "maps_wf ms"
  shows "vinv pid (st\<lparr>mmaps := ms\<rparr>) pr M C D"
proof -
  have "vproc pid (st\<lparr>mmaps := ms\<rparr>)"
    using v maps_to_ext [OF _ e] wf by (simp add: vinv_def vproc_def)
  moreover have "vmap pid (st\<lparr>mmaps := ms\<rparr>) m cs d" if "vmap pid st m cs d" for m cs d
    using that maps_to_ext [OF _ e] by (simp add: vmap_def)
  ultimately show ?thesis using v by (simp add: vinv_def)
qed

lemma vinv_pr:
  "pr_mmapobj_initialized pr' = pr_mmapobj_initialized pr \<Longrightarrow> pr_mmapobj_tree pr' = pr_mmapobj_tree pr \<Longrightarrow>
   vinv pid st pr' M C D = vinv pid st pr M C D"
  by (simp add: vinv_def)

lemma vinv_data_fresh: "\<forall>m \<in> set M. mo_vma_id m \<noteq> v \<Longrightarrow> vinv pid st pr M C (D(v := d)) = vinv pid st pr M C D"
  by (simp add: vinv_def)

lemma map_ok_mono: "map_ok pid num m cs d \<Longrightarrow> num \<le> num' \<Longrightarrow> map_ok pid num' m cs d"
  by (simp add: map_ok_def)

lemma pinv_new_data:
  assumes p: "pinv pid F pr M C D" and v: "\<forall>m \<in> set M. mo_vma_id m \<noteq> v"
    and n: "unat (pr_num_mmaps pr) \<le> unat n" "unat n < MAX_IDS"
  shows "pinv pid (F(fproc pid \<mapsto> proc_file (pr\<lparr>pr_num_mmaps := n\<rparr>) M, fdata pid v \<mapsto> DataFile d))
    (pr\<lparr>pr_num_mmaps := n\<rparr>) M C (D(v := d))"
  using p v n map_ok_mono [OF _ n(1)] by (simp add: pinv_def)

lemma unat_Suc: "unat (n :: UINT) + 1 < MAX_IDS \<Longrightarrow> unat (n + 1) = unat n + 1"
  by (simp add: unat_word_ariths(1) MAX_IDS_def)

lemma objects_cong_pinv:
  assumes "pinv pid F pr M C D" and "pinv pid F' pr' M' C D'"
    and "map mo_vma_id M' = map mo_vma_id M" and "\<forall>m \<in> set M. D' (mo_vma_id m) = D (mo_vma_id m)"
  shows "objects pid F' = objects pid F"
proof -
  have e: "entries_of M C D = concat (map (\<lambda>v. chunk_objs (D v) (C v)) (map mo_vma_id M))" for M D
    by (simp add: entries_of_def o_def)
  have "entries_of M' C D' = entries_of M C D" unfolding e assms(3)
    by (intro arg_cong [of _ _ concat] map_cong) (use assms(4) in auto)
  then show ?thesis by (simp add: objects_pinv [OF assms(1)] objects_pinv [OF assms(2)])
qed

lemma insert_mmapobj_node_rinv:
  assumes r: "rinv pid st pr M D R"
  shows "\<exists>t. insert_mmapobj_node st a sz v pid = Some (st\<lparr>map_tree := Some t\<rparr>) \<and>
    rbtree_repr t ((map_of (map (\<lambda>r. (fst r, region_node pid D r)) R))
      (a \<mapsto> \<lparr>mn_start_addr = a, mn_end_addr = a + sz, mn_map_id = v, mn_proc_id = pid\<rparr>))"
proof -
  obtain t where t: "map_tree (create_map_tree st) = Some t"
      "rbtree_repr t (map_of (map (\<lambda>r. (fst r, region_node pid D r)) R))"
      "create_map_tree st = st\<lparr>map_tree := Some t\<rparr>"
  proof (cases "map_tree st")
    case None
    then show ?thesis using r rbmap.repr_create by (intro that) (auto simp: create_map_tree_def rinv_def)
  next
    case (Some t)
    then show ?thesis using r by (intro that [of t]) (auto simp: create_map_tree_def rinv_def)
  qed
  let ?n = "\<lparr>mn_start_addr = a, mn_end_addr = a + sz, mn_map_id = v, mn_proc_id = pid\<rparr>"
  obtain t' where t': "rbtree_insert t a ?n IntComp = Some t'"
    "rbtree_repr t' ((map_of (map (\<lambda>r. (fst r, region_node pid D r)) R))(a \<mapsto> ?n))"
    using rbmap.ins_repr [OF t(2)] by blast
  then have "insert_mmapobj_node st a sz v pid = Some (st\<lparr>map_tree := Some t'\<rparr>)"
    using t by (simp add: insert_mmapobj_node_def Let_def)
  then show ?thesis using t'(2) by blast
qed

lemma nv_mmap_store:
  assumes s: "store pid st pr M C D R" and os: "os_ok os" "length (mmaps st) < MAX_MAP_COUNT"
    and sz: "0 < unat sz" "unat sz < 2 ^ 32" and pid: "pid \<noteq> 0" and n: "unat (pr_num_mmaps pr) + 1 < MAX_IDS"
  defines "v \<equiv> pr_num_mmaps pr + 1"
  shows "\<exists>st' a. nv_mmap os st sz pid = Some (st', a) \<and>
    store pid st' (pr\<lparr>pr_num_mmaps := v\<rparr>) M C (D(v := replicate (unat sz) 0)) ((a, v) # R) \<and>
    objects pid (fs st') = objects pid (fs st) \<and> length (mmaps st') = Suc (length (mmaps st))"
proof -
  let ?pr = "pr\<lparr>pr_num_mmaps := v\<rparr>" and ?d = "replicate (unat sz) (0 :: byte)"
  let ?F = "(fs st)(fproc pid \<mapsto> proc_file ?pr M, fdata pid v \<mapsto> DataFile ?d)"
  note p = storeD(1) [OF s] and vi = storeD(2) [OF s] and ri = storeD(3) [OF s]
  have v: "unat v = unat (pr_num_mmaps pr) + 1" using unat_Suc [OF n] by (simp add: v_def)
  have fresh: "\<forall>m \<in> set M. mo_vma_id m \<noteq> v" "\<forall>r \<in> set R. snd r \<noteq> v"
    using p ri v by (auto simp: pinv_def map_ok_def rinv_def region_ok_def)
  have p': "pinv pid ?F ?pr M C (D(v := ?d))" using v n by (intro pinv_new_data [OF p fresh(1)]) simp_all
  have wf: "maps_wf (mmaps st)" using vi by (simp add: vinv_def vproc_def)
  have sz': "unat (ucast sz :: UINT) = unat sz" "unat sz \<le> 2 ^ 32"
    using sz(2) by (simp_all add: unsigned_ucast_eq take_bit_nat_eq_self)
  let ?st = "st\<lparr>fs := ?F\<rparr>"
  have "maps_wf (mmaps ?st)" "length (mmaps ?st) < MAX_MAP_COUNT" using wf os(2) by simp_all
  then obtain a ms where mm: "sys_mmap os ?st (unat sz) (fdata pid v) = (?st\<lparr>mmaps := ms\<rparr>, a)" "a \<noteq> 0"
    "maps_wf ms" "length ms = Suc (length (mmaps ?st))" "maps_to ms a (unat sz) (fdata pid v)"
    "map_ext (mmaps ?st) ms"
    using sys_mmap_ok [OF os(1) _ _ sz(1) sz'(2)] by metis
  let ?st1 = "?st\<lparr>mmaps := ms\<rparr>"
  have "vinv pid ?st1 ?pr M C (D(v := ?d))"
    using vinv_ext [of pid ?st pr M C D ms] vi mm(3,6) vinv_pr [of ?pr pr] vinv_data_fresh [OF fresh(1)] by simp
  have n': "map (\<lambda>r. (fst r, region_node pid (D(v := ?d)) r)) R = map (\<lambda>r. (fst r, region_node pid D r)) R"
    using fresh(2) by (simp add: region_node_def)
  have ri1: "rinv pid ?st1 ?pr M (D(v := ?d)) R"
    using ri fresh(2) v maps_to_ext [OF _ mm(6)] unfolding rinv_def n' by (auto simp: region_ok_def)
  obtain t where t: "insert_mmapobj_node ?st1 a sz v pid = Some (?st1\<lparr>map_tree := Some t\<rparr>)"
    "rbtree_repr t (map_of (map (\<lambda>r. (fst r, region_node pid (D(v := ?d)) r)) ((a, v) # R)))"
    using insert_mmapobj_node_rinv [OF ri1, of a sz v] by (auto simp: region_node_def)
  let ?st2 = "?st1\<lparr>map_tree := Some t, proc_vmas := record_vmas v sz (proc_vmas st)\<rparr>"
  have "rinv pid ?st2 ?pr M (D(v := ?d)) ((a, v) # R)"
    using ri1 t(2) fresh mm(5) sz v by (auto simp: rinv_def region_ok_def record_vmas_def)
  moreover have "vinv pid ?st2 = vinv pid ?st1" by (rule vinv_cong) simp_all
  ultimately have "store pid ?st2 ?pr M C (D(v := ?d)) ((a, v) # R)"
    using p' s \<open>vinv pid ?st1 ?pr M C (D(v := ?d))\<close> by (simp add: store_def)
  moreover have "nv_mmap os st sz pid = Some (?st2, a)"
    using find_proc_obj_vproc [of pid st] vi p mm(1,2) t(1) sz' pid upd_proc_file [of st pid pr M]
      get_proc_file [of st pid pr M]
    by (simp add: nv_mmap_def vinv_def pinv_def mmap_wrap_def setup_map_file_def Let_def v_def fdata_def)
  moreover have "objects pid ?F = objects pid (fs st)"
    using objects_cong_pinv [OF p p'] fresh(1) by simp
  ultimately show ?thesis using mm(4) by (intro exI [of _ ?st2] exI [of _ a]) simp
qed

section \<open>From an address to its mapping\<close>

text \<open>Ranges behind which different files lie do not overlap.\<close>

lemma maps_to_disjoint:
  assumes m: "maps_to ms s n f" "maps_to ms s' n' f'" and f: "f \<noteq> f'" and n: "0 < n'" and le: "s \<le> s'"
  shows "unat s + n \<le> unat s'"
proof (rule ccontr)
  assume c: "\<not> unat s + n \<le> unat s'"
  have "unat s \<le> unat s'" using le by (simp add: word_le_nat_alt)
  then have "s' = s + of_nat (unat s' - unat s)"
    by (simp add: of_nat_diff)
  then have "resolve ms s' = Some (f, unat s' - unat s)"
    using m(1) c \<open>unat s \<le> unat s'\<close> resolve_maps_to [OF m(1), of "unat s' - unat s"] by simp
  moreover have "resolve ms s' = Some (f', 0)" using resolve_maps_to [OF m(2) n] by simp
  ultimately show False using f by simp
qed

definition range_dir :: "ULONG \<Rightarrow> ULONG \<times> mmapobj_nodes \<Rightarrow> int" where
  "range_dir a kn = (if a > fst kn \<and> mn_end_addr (snd kn) > a then 0
     else if a > fst kn then 1 else if a < fst kn then - 1 else 0)"

lemma CompRange_dir: "CompRange (Some nn) a (nkey nn) = Some (range_dir a (nkey nn, nvalue nn))"
  by (simp add: CompRange_def range_dir_def)

lemma region_end:
  assumes "maps_to ms s n f"
  shows "unat (s + of_nat n) = unat s + n"
  using assms by (intro unat_add_off) (simp add: maps_to_def)

lemma region_apart:
  assumes r: "rinv pid st pr M D R" and i: "q \<in> set R" "q' \<in> set R" and lt: "fst q < fst q'"
  shows "mn_end_addr (region_node pid D q) \<le> fst q'"
proof -
  have ok: "region_ok pid st (unat (pr_num_mmaps pr)) M D q" "region_ok pid st (unat (pr_num_mmaps pr)) M D q'"
    using r i by (simp_all add: rinv_def)
  have "snd q \<noteq> snd q'" using r i lt by (auto simp: rinv_def distinct_map inj_on_def)
  then have "unat (fst q) + length (D (snd q)) \<le> unat (fst q')"
    using ok lt by (intro maps_to_disjoint [of "mmaps st" _ _ "fdata pid (snd q)" _ _ "fdata pid (snd q')"])
      (auto simp: region_ok_def)
  moreover have "unat (fst q + of_nat (length (D (snd q)))) = unat (fst q) + length (D (snd q))"
    using ok(1) by (intro region_end) (auto simp: region_ok_def)
  ultimately show ?thesis by (simp add: region_node_def word_le_nat_alt)
qed

lemma region_start_inj:
  assumes r: "rinv pid st pr M D R" and i: "q \<in> set R" "q' \<in> set R" and eq: "fst q = fst q'"
  shows "q = q'"
proof -
  have "resolve (mmaps st) (fst q) = Some (fdata pid (snd q), 0)" if "q \<in> set R" for q
    using r that resolve_maps_to [of "mmaps st" "fst q" "length (D (snd q))" "fdata pid (snd q)" 0]
    by (auto simp: rinv_def region_ok_def)
  from this [OF i(1)] this [OF i(2)] have "fdata pid (snd q) = fdata pid (snd q')" using eq by simp
  then show ?thesis using eq by (simp add: prod_eq_iff)
qed

lemma range_dir_0:
  assumes ok: "region_ok pid st num M D (s, v)"
  shows "range_dir a (s, region_node pid D (s, v)) = 0 \<longleftrightarrow> (\<exists>off < length (D v). a = s + of_nat off)"
proof
  have ue: "unat (s + of_nat (length (D v))) = unat s + length (D v)" and pos: "0 < length (D v)"
    using ok region_end by (auto simp: region_ok_def)
  have ua: "unat (s + of_nat off) = unat s + off" if "off < length (D v)" for off
    using ok that by (intro unat_add_off) (simp add: region_ok_def maps_to_def)
  show "range_dir a (s, region_node pid D (s, v)) = 0" if "\<exists>off < length (D v). a = s + of_nat off"
    using that ua ue by (auto simp: range_dir_def region_node_def word_less_nat_alt)
  assume "range_dir a (s, region_node pid D (s, v)) = 0"
  then have "unat s \<le> unat a \<and> unat a < unat s + length (D v)"
    using ue pos by (auto simp: range_dir_def region_node_def word_less_nat_alt not_less split: if_splits)
  moreover then have "a = s + of_nat (unat a - unat s)" by (simp add: of_nat_diff)
  ultimately show "\<exists>off < length (D v). a = s + of_nat off"
    by (intro exI [of _ "unat a - unat s"]) auto
qed

text \<open>What the search by ranges finds.\<close>

lemma region_lookup:
  assumes r: "rinv pid st pr M D R" and t: "map_tree st = Some t"
  shows "\<exists>x. rbtree_lookup t a CompRange = Some x \<and>
    (case x of None \<Rightarrow> \<forall>q \<in> set R. range_dir a (fst q, region_node pid D q) \<noteq> 0
     | Some n \<Rightarrow> \<exists>q \<in> set R. n = region_node pid D q \<and> range_dir a (fst q, n) = 0)"
proof -
  let ?E = "map (\<lambda>r. (fst r, region_node pid D r)) R"
  have "rbtree_repr t (map_of ?E)" using r t by (simp add: rinv_def)
  then obtain xs where xs: "rbtree_entries t xs" "map_of ?E = map_of xs" "srt xs" by (rule repr_entriesE)
  obtain x where x: "zip_at (brk t) {} t [] x" "ino x = xs" "root t = addr x" using xs(1) by (rule rbtree_entriesE)
  have keys: "\<forall>v w. (k, v) \<in> set ?E \<longrightarrow> (k, w) \<in> set ?E \<longrightarrow> v = w" for k
    using region_start_inj [OF r] by auto
  have in_xs: "(k, n) \<in> set xs \<longleftrightarrow> (\<exists>q \<in> set R. k = fst q \<and> n = region_node pid D q)" for k n
    using srt_map_of [OF xs(3), of k n] map_of_unique [OF keys, of k n] xs(2) by auto
  have "sorted_wrt (\<lambda>p q. 0 < range_dir a p \<or> range_dir a q < 0) xs"
    using xs(3) unfolding srt_def sorted_wrt_map
  proof (rule sorted_wrt_mono_rel [rotated])
    fix p q assume pq: "p \<in> set xs" "q \<in> set xs" "fst p < fst q"
    then obtain p' q' where "p' \<in> set R" "p = (fst p', region_node pid D p')" "q' \<in> set R"
      "q = (fst q', region_node pid D q')" using in_xs by (metis surj_pair)
    then have "mn_end_addr (snd p) \<le> fst q" using region_apart [OF r] pq(3) by auto
    then show "0 < range_dir a p \<or> range_dir a q < 0" using pq(3) by (auto simp: range_dir_def)
  qed
  then obtain pt where pt: "lookup_node t a CompRange = Some pt" "hits (brk t) {} t (range_dir a) x xs pt"
    using lookup_loop_dir [where dir = "range_dir a" and compare = CompRange and key = a, OF x(1) zip_fuel(1) [OF x(1)] CompRange_dir] x(2,3)
    by (auto simp: lookup_node_def)
  show ?thesis
  proof (cases "\<exists>kv \<in> set xs. range_dir a kv = 0")
    case True
    then obtain cs cl k n l rr where z: "zip_at (brk t) {} t cs (Nd pt cl k n l rr)"
      "range_dir a (k, n) = 0" "(k, n) \<in> set xs" using pt(2) by (auto simp: hits_def)
    then have "rbtree_lookup t a CompRange = Some (Some n)"
      using pt(1) deref_focus [OF z(1)] zip_focus_ne_NULL [OF z(1)] by (simp add: rbtree_lookup_def)
    then show ?thesis using z(2,3) in_xs by auto
  next
    case False
    then have "rbtree_lookup t a CompRange = Some None"
      using pt by (auto simp: hits_def rbtree_lookup_def)
    then show ?thesis using False in_xs by force
  qed
qed

lemma region_unique:
  assumes r: "rinv pid st pr M D R" and q: "q \<in> set R" "range_dir a (fst q, region_node pid D q) = 0"
    and q': "q' \<in> set R" "range_dir a (fst q', region_node pid D q') = 0"
  shows "q' = q"
proof -
  have "\<not> fst p < fst p'" if "p \<in> set R" "range_dir a (fst p, region_node pid D p) = 0"
    "p' \<in> set R" "range_dir a (fst p', region_node pid D p') = 0" for p p'
    using region_apart [OF r that(1,3)] that(2,4) by (auto simp: range_dir_def split: if_splits)
  from this [OF q q'] this [OF q' q] have "fst q = fst q'" by simp
  then show ?thesis using region_start_inj [OF r q(1) q'(1)] by simp
qed

lemma locate_region:
  assumes r: "rinv pid st pr M D R" and c: "\<not> use_map_cache st" and i: "(s, v) \<in> set R"
    and a: "a = s + of_nat off" "off < length (D v)"
  shows "locate_mmapobj_node st a = Some (v, s, None)"
proof -
  obtain t where t: "map_tree st = Some t" using r i by (cases "map_tree st") (auto simp: rinv_def)
  have "region_ok pid st (unat (pr_num_mmaps pr)) M D (s, v)" using r i by (auto simp: rinv_def)
  then have hit: "range_dir a (s, region_node pid D (s, v)) = 0" using a by (auto simp: range_dir_0)
  obtain x where x: "rbtree_lookup t a CompRange = Some x"
    "case x of None \<Rightarrow> \<forall>q \<in> set R. range_dir a (fst q, region_node pid D q) \<noteq> 0
     | Some n \<Rightarrow> \<exists>q \<in> set R. n = region_node pid D q \<and> range_dir a (fst q, n) = 0"
    using region_lookup [OF r t, of a] by blast
  have "x = Some (region_node pid D (s, v))"
  proof (cases x)
    case None
    then show ?thesis using x(2) i hit by force
  next
    case (Some n)
    then obtain q where q: "q \<in> set R" "n = region_node pid D q" "range_dir a (fst q, n) = 0" using x(2) by auto
    have "q = (s, v)" using region_unique [OF r i _ q(1)] q(2,3) hit by simp
    then show ?thesis using Some q(2) by simp
  qed
  then show ?thesis using t c x(1) by (simp add: locate_mmapobj_node_def region_node_def)
qed

lemma located_region:
  assumes r: "rinv pid st pr M D R" and c: "\<not> use_map_cache st" and l: "locate_mmapobj_node st a = Some (v, s, m)" "v \<noteq> 0"
  shows "(s, v) \<in> set R \<and> m = None \<and> (\<exists>off < length (D v). a = s + of_nat off)"
proof -
  obtain t where t: "map_tree st = Some t" using l c by (cases "map_tree st") (auto simp: locate_mmapobj_node_def)
  obtain x where x: "rbtree_lookup t a CompRange = Some x"
    "case x of None \<Rightarrow> \<forall>q \<in> set R. range_dir a (fst q, region_node pid D q) \<noteq> 0
     | Some n \<Rightarrow> \<exists>q \<in> set R. n = region_node pid D q \<and> range_dir a (fst q, n) = 0"
    using region_lookup [OF r t, of a] by blast
  then obtain q where q: "q \<in> set R" "x = Some (region_node pid D q)" "range_dir a (fst q, region_node pid D q) = 0"
    using l c t by (cases x) (auto simp: locate_mmapobj_node_def)
  then have e: "q = (s, v)" "m = None" using l c t x(1) by (auto simp: locate_mmapobj_node_def region_node_def)
  have "region_ok pid st (unat (pr_num_mmaps pr)) M D (s, v)" using r q(1) e(1) by (auto simp: rinv_def)
  from range_dir_0 [OF this, of a] show ?thesis using q e by auto
qed

end
