(* ===== verification/NvMap_Create.thy ===== *)
theory NvMap_Create
  imports NvMap_Record
begin

text \<open>
  \<open>nv_record_chunk\<close> for a name that is not taken: it makes the mapping of the address persistent when
  its first object arrives, and enters the object in the tables and trees.
\<close>

section \<open>A new mapping\<close>

lemma sizes: "MMAP_METADATA_SZ = 10485760" "PROC_METADAT_SZ = 5242880" "sizeof_mmapobj_s = 336"
  "sizeof_proc_s = 80" "sizeof_chunkobj_s = 288"
  by (simp_all add: MMAP_METADATA_SZ_def PROC_METADAT_SZ_def sizeof_mmapobj_s_def sizeof_proc_s_def
      sizeof_chunkobj_s_def)

lemma mo_off_bound: "i \<le> MAX_MMAPS \<Longrightarrow> mo_off i < PROC_METADAT_SZ"
  by (simp add: mo_off_def MAX_MMAPS_def sizes)

lemma ch_off_bound: "j \<le> MAX_CHUNKS \<Longrightarrow> ch_off j < MMAP_METADATA_SZ"
  by (simp add: ch_off_def MAX_CHUNKS_def sizes)

lemma ucast_of_nat_UINT: "n < 4294967296 \<Longrightarrow> (ucast (of_nat n :: UINT) :: ULONG) = of_nat n"
  using unat_of_nat_UINT [of n] by (metis of_nat_unat unat_ucast_UINT ucast_id)

lemma upd_twice: "p \<noteq> c \<Longrightarrow> (F(p := x, c := y))(p := z) = F(p := z, c := y)"
  by (simp add: fun_upd_twist)

lemma pinv_add_map:
  assumes p: "pinv pid F pr M C D" and v: "\<forall>m \<in> set M. mo_vma_id m \<noteq> v" "0 < unat v" "unat v \<le> unat (pr_num_mmaps pr)"
    and n: "length M < MAX_MMAPS" and d: "0 < length (D v)" "length (D v) < 2 ^ 32"
    and m: "mo_vma_id m = v" "mo_proc_id m = pid" "mo_length m = of_nat (length (D v))" "mo_numchunks m = 0"
      "mo_meta_offset m = 0"
    and pr: "pr_pid pr' = pid" "pr_pesist_mmaps pr' = pr_pesist_mmaps pr + 1"
      "pr_meta_offset pr' = pr_meta_offset pr + of_nat sizeof_mmapobj_s" "pr_num_mmaps pr' = pr_num_mmaps pr"
    and F: "F' (fproc pid) = Some (proc_file pr' (M @ [m]))" "F' (fchunks pid v) = Some (chunk_file [])"
      "F' (fdata pid v) = Some (DataFile (D v))"
      "\<And>f. f \<noteq> fproc pid \<Longrightarrow> f \<noteq> fchunks pid v \<Longrightarrow> F' f = F f"
  shows "pinv pid F' pr' (M @ [m]) (C(v := [])) D"
proof -
  have own: "owner (M @ [m]) (C(v := [])) k i j \<longleftrightarrow> owner M C k i j" for k i j
    using v(1) m(1) by (auto simp: owner_def nth_append less_Suc_eq)
  have "uniq (M @ [m]) (C(v := []))" using p unfolding pinv_def uniq_def own by blast
  moreover have "map_ok pid (unat (pr_num_mmaps pr')) m ((C(v := [])) (mo_vma_id m)) (D (mo_vma_id m))"
    using m v d pr by (simp add: map_ok_def ch_off_def)
  ultimately show ?thesis
    using p v(1) n m(1) pr F by (auto simp: pinv_def mo_off_def algebra_simps)
qed

lemma vinv_add_map:
  assumes vi: "vinv pid st pr M C D" and v: "\<forall>m \<in> set M. mo_vma_id m \<noteq> v" "mo_vma_id m = v"
    and m: "mo_chunk_tree_init m \<noteq> 0" "mo_chunkobj_tree m = next_tree st"
      "maps_to ms (mo_strt_addr m) MMAP_METADATA_SZ (fchunks pid v)"
      "maps_to ms (mo_data_addr m) (length (D v)) (fdata pid v)"
    and e: "map_ext (mmaps st) ms" "maps_wf ms"
    and t: "rbtree_repr t (mmap_index pid (M @ [m]))" "rbtree_repr u (chunk_index pid v cs)"
      "\<forall>c \<in> set cs. live c \<longrightarrow> ch_nv_ptr c = mo_data_addr m + ucast (ch_offset c)"
    and pr: "pr_mmapobj_initialized pr' = pr_mmapobj_initialized pr" "pr_mmapobj_tree pr' = pr_mmapobj_tree pr"
  shows "vinv pid (st\<lparr>mmaps := ms, trees := (trees st)(next_tree st \<mapsto> u, pr_mmapobj_tree pr \<mapsto> t),
      next_tree := Suc (next_tree st)\<rparr>) pr' (M @ [m]) (C(v := cs)) D"
    (is "vinv pid ?st _ _ _ _")
proof -
  note vi1 = vinv_ext [OF vi e]
  have "vproc pid ?st = vproc pid (st\<lparr>mmaps := ms\<rparr>)" by (rule vproc_cong) simp_all
  then have vp: "vproc pid ?st" using vi1 by (simp add: vinv_def)
  have lt: "pr_mmapobj_tree pr < next_tree st" "pr_mmapobj_tree pr \<noteq> 0" "0 < next_tree st"
    using vi by (auto simp: vinv_def tree_repr_def)
  have old: "vmap pid ?st m' cs d" if "vmap pid (st\<lparr>mmaps := ms\<rparr>) m' cs d" "mo_chunkobj_tree m' \<noteq> pr_mmapobj_tree pr"
    for m' cs d using that by (auto simp: vmap_def tree_repr_def)
  have "vmap pid ?st m' ((C(v := cs)) (mo_vma_id m')) (D (mo_vma_id m'))" if "m' \<in> set M" for m'
    using that vi1 v(1) by (intro old) (auto simp: vinv_def image_iff)
  moreover have "vmap pid ?st m cs (D v)"
    using m v(2) lt t(2,3) by (auto simp: vmap_def tree_repr_def)
  moreover have "tree_repr ?st (pr_mmapobj_tree pr) (mmap_index pid (M @ [m]))"
    using lt t(1) by (simp add: tree_repr_def)
  moreover have "mo_chunkobj_tree m' < next_tree st" if "m' \<in> set M" for m'
    using vinv_map [OF vi that] by (simp add: vmap_def tree_repr_def)
  then have "next_tree st \<notin> mo_chunkobj_tree ` set M" by fastforce
  then have "distinct (pr_mmapobj_tree pr # map mo_chunkobj_tree (M @ [m]))"
    using vi m(2) lt(1) by (auto simp: vinv_def)
  ultimately show ?thesis using vp vi v(2) pr by (auto simp: vinv_def)
qed

definition new_mmapobj :: "UINT \<Rightarrow> UINT \<Rightarrow> nat \<Rightarrow> ULONG \<Rightarrow> ULONG \<Rightarrow> tptr \<Rightarrow> mmapobj_s" where
  "new_mmapobj pid v n s a t = zero_mmapobj\<lparr>mo_vma_id := v, mo_length := of_nat n, mo_proc_id := pid,
     mo_offset := 0, mo_data_addr := s, mo_strt_addr := a, mo_mmapobjname := fchunks pid v,
     mo_chunkobj_tree := t, mo_chunk_tree_init := 1, mo_proc_obj := Some (pptr_of pid)\<rparr>"

lemma create_mmapobj_ok:
  assumes p: "pinv pid (fs st) pr M C D" and vi: "vinv pid st pr M C D" and n: "length M < MAX_MMAPS"
    and os: "os_ok os" "length (mmaps st) < MAX_MAP_COUNT"
    and rq: "rq_pid rq = pid" "rq_id rq = v" "rq_bytes rq = of_nat nd"
  defines "pr1 \<equiv> pr\<lparr>pr_meta_offset := pr_meta_offset pr + of_nat sizeof_mmapobj_s\<rparr>"
  shows "\<exists>a ms. create_mmapobj os st rq 0 (pptr_of pid) s = Some (st\<lparr>fs := (fs st)(fproc pid \<mapsto>
        proc_file pr1 (M @ [(new_mmapobj pid v nd s a (next_tree st))\<lparr>mo_proc_obj := None\<rparr>]),
        fchunks pid v \<mapsto> chunk_file []),
      mmaps := ms, trees := (trees st)(next_tree st \<mapsto> rbtree_create), next_tree := Suc (next_tree st)\<rparr>,
      rq\<lparr>rq_id := BASE_METADATA_NVID + v, rq_bytes := of_nat MMAP_METADATA_SZ\<rparr>, moptr pid (length M)) \<and>
    maps_wf ms \<and> length ms = Suc (length (mmaps st)) \<and> maps_to ms a MMAP_METADATA_SZ (fchunks pid v) \<and>
    map_ext (mmaps st) ms"
proof -
  let ?m0 = "zero_mmapobj\<lparr>mo_vma_id := v, mo_length := of_nat nd, mo_proc_id := pid, mo_offset := 0, mo_data_addr := s\<rparr>"
  let ?st1 = "st\<lparr>fs := (fs st)(fproc pid \<mapsto> proc_file pr1 M)\<rparr>"
  let ?st2 = "st\<lparr>fs := (fs st)(fproc pid \<mapsto> proc_file pr1 (M @ [?m0]))\<rparr>"
  let ?st3 = "st\<lparr>fs := (fs st)(fproc pid \<mapsto> proc_file pr1 (M @ [?m0]), fchunks pid v \<mapsto> chunk_file [])\<rparr>"
  have F: "fs st (fproc pid) = Some (proc_file pr M)" using p by (simp add: pinv_def)
  have pm: "maps_to (mmaps st) (proc_map_start st) PROC_METADAT_SZ (fproc pid)" "maps_wf (mmaps st)"
    using vi by (simp_all add: vinv_def vproc_def)
  have nz: "proc_map_start st \<noteq> 0" using pm(1) by (simp add: maps_to_def)
  have "pr_meta_offset pr = of_nat (mo_off (length M))" using p by (simp add: pinv_def)
  moreover have "mo_off (length M) < 4294967296" using mo_off_bound [of "length M"] n by (simp add: sizes)
  ultimately have res: "resolve (mmaps st) (proc_map_start st + ucast (pr_meta_offset pr)) = Some (moptr pid (length M))"
    using resolve_maps_to [OF pm(1) mo_off_bound [of "length M"]] n by (simp add: ucast_of_nat_UINT)
  have u1: "upd_proc st (pptr_of pid) (\<lambda>p. p\<lparr>pr_meta_offset := pr_meta_offset p + of_nat sizeof_mmapobj_s\<rparr>) = Some ?st1"
    using upd_proc_file [OF F] by (simp add: pr1_def)
  have u2: "upd_mmapobj ?st1 (moptr pid (length M)) (\<lambda>m. m\<lparr>mo_vma_id := v, mo_length := of_nat nd,
      mo_proc_id := pid, mo_offset := 0, mo_data_addr := s\<rparr>) = Some ?st2"
    using upd_mmapobj_new [of ?st1 pid pr1 M] n by simp
  have sz: "unat (of_nat MMAP_METADATA_SZ :: ULONG) = MMAP_METADATA_SZ" "MMAP_METADATA_SZ \<le> 2 ^ 32" "0 < MMAP_METADATA_SZ"
    by (simp_all add: sizes)
  have "maps_wf (mmaps ?st3)" "length (mmaps ?st3) < MAX_MAP_COUNT" using pm(2) os(2) by simp_all
  then obtain a ms where mm: "sys_mmap os ?st3 MMAP_METADATA_SZ (fchunks pid v) = (?st3\<lparr>mmaps := ms\<rparr>, a)"
    "a \<noteq> MAP_FAILED" "maps_wf ms" "length ms = Suc (length (mmaps ?st3))"
    "maps_to ms a MMAP_METADATA_SZ (fchunks pid v)" "map_ext (mmaps ?st3) ms"
    using sys_mmap_ok [OF os(1) _ _ sz(3,2)] by metis
  have set: "setup_map_file ?st2 (fchunks pid v) (ChunkFile (\<lambda>_. zero_chunkobj)) = ?st3"
    by (simp add: setup_map_file_def chunk_file_def)
  let ?m1 = "?m0\<lparr>mo_strt_addr := a, mo_mmapobjname := fchunks pid v\<rparr>"
  let ?m2 = "?m1\<lparr>mo_chunkobj_tree := next_tree st, mo_chunk_tree_init := 1\<rparr>"
  let ?st4 = "st\<lparr>fs := (fs st)(fproc pid \<mapsto> proc_file pr1 (M @ [?m1]), fchunks pid v \<mapsto> chunk_file []), mmaps := ms\<rparr>"
  let ?st5 = "st\<lparr>fs := (fs st)(fproc pid \<mapsto> proc_file pr1 (M @ [?m2]), fchunks pid v \<mapsto> chunk_file []),
    mmaps := ms, trees := (trees st)(next_tree st \<mapsto> rbtree_create), next_tree := Suc (next_tree st)\<rparr>"
  have u3: "upd_mmapobj (?st3\<lparr>mmaps := ms\<rparr>) (moptr pid (length M))
      (\<lambda>m. m\<lparr>mo_strt_addr := a, mo_mmapobjname := fchunks pid v\<rparr>) = Some ?st4"
    using n by (subst upd_mmapobj_file [where pr = pr1 and M = "M @ [?m0]"]) (simp_all add: upd_twice)
  have u4: "init_chunk_tree ?st4 (moptr pid (length M)) = Some ?st5"
    using n unfolding init_chunk_tree_def new_tree_def Let_def prod.case
    by (subst upd_mmapobj_file [where pr = pr1 and M = "M @ [?m1]"]) (simp_all add: upd_twice)
  have "create_mmapobj os st rq 0 (pptr_of pid) s = Some (?st5,
      rq\<lparr>rq_id := BASE_METADATA_NVID + v, rq_bytes := of_nat MMAP_METADATA_SZ\<rparr>, moptr pid (length M))"
    using F nz res u1 u2 mm(1,2) set sz rq u3 u4
    by (simp add: create_mmapobj_def get_proc_file [OF F] Let_def fchunks_def [symmetric])
  moreover have "?m2 = (new_mmapobj pid v nd s a (next_tree st))\<lparr>mo_proc_obj := None\<rparr>"
    by (simp add: new_mmapobj_def zero_mmapobj_def)
  ultimately show ?thesis using mm(3-6) by (intro exI [of _ a] exI [of _ ms]) simp
qed

lemma rinv_add_map:
  assumes r: "rinv pid st pr M D R" and q: "(mo_data_addr m, mo_vma_id m) \<in> set R"
    and st: "map_tree st' = map_tree st" "proc_vmas st' = proc_vmas st" "map_ext (mmaps st) (mmaps st')"
      "\<And>v. fs st' (fdata pid v) = fs st (fdata pid v)" "pr_num_mmaps pr' = pr_num_mmaps pr"
  shows "rinv pid st' pr' (M @ [m]) D R"
proof -
  have "fst r = mo_data_addr m" if "r \<in> set R" "snd r = mo_vma_id m" for r
    using r q that by (force simp: rinv_def distinct_map inj_on_def)
  then have "region_ok pid st' (unat (pr_num_mmaps pr')) (M @ [m]) D r" if "r \<in> set R" for r
    using r that st maps_to_ext [OF _ st(3)] by (auto simp: rinv_def region_ok_def)
  then show ?thesis using r st(1) by (simp add: rinv_def)
qed

lemma tree_repr_new:
  assumes "tree_repr st p m"
  shows "tree_repr (st\<lparr>trees := (trees st)(next_tree st \<mapsto> t), next_tree := Suc (next_tree st)\<rparr>) p m"
  using assms by (auto simp: tree_repr_def)

lemma add_mmapobj_to_proc_ok:
  assumes p: "pinv pid (fs st) pr M C D" and vi: "vinv pid st pr M C D" and ri: "rinv pid st pr M D R"
    and n: "length M < MAX_MMAPS" and os: "os_ok os" "length (mmaps st) < MAX_MAP_COUNT"
    and q: "(s, v) \<in> set R" and fresh: "\<forall>m \<in> set M. mo_vma_id m \<noteq> v"
    and rq: "rq_pid rq = pid" "rq_id rq = v" "rq_bytes rq = of_nat (length (D v))"
  shows "\<exists>st' pr' m. add_mmapobj_to_proc os st (pptr_of pid) rq 0 s = Some (st', moptr pid (length M)) \<and>
    pinv pid (fs st') pr' (M @ [m]) (C(v := [])) D \<and> vinv pid st' pr' (M @ [m]) (C(v := [])) D \<and>
    rinv pid st' pr' (M @ [m]) D R \<and> mo_vma_id m = v \<and> mo_data_addr m = s \<and>
    length (mmaps st') = Suc (length (mmaps st)) \<and> pr_num_mmaps pr' = pr_num_mmaps pr"
proof -
  let ?nd = "length (D v)" and ?nt = "next_tree st"
  define pr1 where "pr1 = pr\<lparr>pr_meta_offset := pr_meta_offset pr + of_nat sizeof_mmapobj_s\<rparr>"
  define pr2 where "pr2 = pr1\<lparr>pr_pesist_mmaps := pr_pesist_mmaps pr1 + 1\<rparr>"
  obtain a ms where cr: "create_mmapobj os st rq 0 (pptr_of pid) s = Some (st\<lparr>fs := (fs st)(fproc pid \<mapsto>
        proc_file pr1 (M @ [(new_mmapobj pid v ?nd s a ?nt)\<lparr>mo_proc_obj := None\<rparr>]),
        fchunks pid v \<mapsto> chunk_file []),
      mmaps := ms, trees := (trees st)(?nt \<mapsto> rbtree_create), next_tree := Suc ?nt\<rparr>,
      rq\<lparr>rq_id := BASE_METADATA_NVID + v, rq_bytes := of_nat MMAP_METADATA_SZ\<rparr>, moptr pid (length M))"
    and ms: "maps_wf ms" "length ms = Suc (length (mmaps st))" "maps_to ms a MMAP_METADATA_SZ (fchunks pid v)"
      "map_ext (mmaps st) ms"
    using create_mmapobj_ok [OF p vi n os rq, of s] unfolding pr1_def by blast
  define m where "m = new_mmapobj pid v ?nd s a ?nt"
  have mf: "mo_vma_id m = v" "mo_proc_id m = pid" "mo_length m = of_nat ?nd" "mo_numchunks m = 0"
    "mo_meta_offset m = 0" "mo_chunk_tree_init m = 1" "mo_chunkobj_tree m = ?nt" "mo_strt_addr m = a"
    "mo_data_addr m = s" "m\<lparr>mo_proc_obj := Some (pptr_of pid)\<rparr> = m"
    by (simp_all add: m_def new_mmapobj_def zero_mmapobj_def)
  let ?m0 = "m\<lparr>mo_proc_obj := None\<rparr>"
  let ?F = "\<lambda>pr m. (fs st)(fproc pid \<mapsto> proc_file pr (M @ [m]), fchunks pid v \<mapsto> chunk_file [])"
  let ?T = "(trees st)(?nt \<mapsto> rbtree_create)"
  let ?st1 = "st\<lparr>fs := ?F pr1 ?m0, mmaps := ms, trees := ?T, next_tree := Suc ?nt\<rparr>"
  have tree: "pr_mmapobj_initialized pr \<noteq> 0" "tree_repr st (pr_mmapobj_tree pr) (mmap_index pid M)"
    using vi by (simp_all add: vinv_def)
  have tr1: "tree_repr ?st1 (pr_mmapobj_tree pr) (mmap_index pid M)"
    using tree(2) by (auto simp: tree_repr_def)
  obtain t where t: "tree_insert ?st1 (pr_mmapobj_tree pr) (ucast v) (moptr pid (length M)) =
      Some (?st1\<lparr>trees := (trees ?st1)(pr_mmapobj_tree pr \<mapsto> t)\<rparr>)"
    "rbtree_repr t ((mmap_index pid M)(ucast v \<mapsto> moptr pid (length M)))"
    using tree_insert_repr [OF tr1] by blast
  let ?T2 = "?T(pr_mmapobj_tree pr \<mapsto> t)"
  let ?st2 = "st\<lparr>fs := ?F pr1 m, mmaps := ms, trees := ?T2, next_tree := Suc ?nt\<rparr>"
  let ?st3 = "st\<lparr>fs := ?F pr2 m, mmaps := ms, trees := ?T2, next_tree := Suc ?nt\<rparr>"
  have nocache: "\<not> use_map_cache st" using vi by (simp add: vinv_def vproc_def)
  have g1: "get_proc ?st1 (pptr_of pid) = Some pr1" by (rule get_proc_file) simp
  have g2: "get_mmapobj ?st1 (moptr pid (length M)) = Some ?m0"
    using n by (subst get_mmapobj_file [where pr = pr1 and M = "M @ [?m0]"]) simp_all
  have u: "upd_mmapobj (?st1\<lparr>trees := ?T2\<rparr>) (moptr pid (length M)) (\<lambda>m. m\<lparr>mo_proc_obj := Some (pptr_of pid)\<rparr>) =
      Some ?st2"
    using n mf(10) by (subst upd_mmapobj_file [where pr = pr1 and M = "M @ [?m0]"]) (simp_all add: upd_twice)
  have "add_mmapobj ?st1 (moptr pid (length M)) (pptr_of pid) = Some ?st2"
    using g1 g2 t(1) u tree tr1 nocache mf(1) by (simp add: add_mmapobj_def pr1_def tree_repr_def)
  moreover have "upd_proc ?st2 (pptr_of pid) (\<lambda>p. p\<lparr>pr_pesist_mmaps := pr_pesist_mmaps p + 1\<rparr>) = Some ?st3"
    by (subst upd_proc_file [where pr = pr1 and M = "M @ [m]"]) (simp_all add: upd_twice pr2_def)
  ultimately have add: "add_mmapobj_to_proc os st (pptr_of pid) rq 0 s = Some (?st3, moptr pid (length M))"
    using cr by (simp add: add_mmapobj_to_proc_def m_def)
  have ok: "region_ok pid st (unat (pr_num_mmaps pr)) M D (s, v)" using ri q by (auto simp: rinv_def)
  have "pinv pid (?F pr2 m) pr2 (M @ [m]) (C(v := [])) D"
    using ok mf p by (intro pinv_add_map [OF p fresh _ _ n])
      (auto simp: region_ok_def pr2_def pr1_def pinv_def)
  moreover have "vinv pid (st\<lparr>mmaps := ms, trees := ?T2, next_tree := Suc ?nt\<rparr>) pr2 (M @ [m]) (C(v := [])) D"
    using mf ms ok t(2) maps_to_ext [OF _ ms(4)] rbmap.repr_create
    by (intro vinv_add_map [OF vi fresh]) (auto simp: region_ok_def mmap_index_snoc pr2_def pr1_def)
  moreover have "vinv pid ?st3 = vinv pid (st\<lparr>mmaps := ms, trees := ?T2, next_tree := Suc ?nt\<rparr>)"
    by (rule vinv_cong) simp_all
  moreover have "rinv pid ?st3 pr2 (M @ [m]) D R"
    using q mf ms(4) by (intro rinv_add_map [OF ri]) (simp_all add: pr2_def pr1_def)
  ultimately show ?thesis using add mf ms(2)
    by (intro exI [of _ ?st3] exI [of _ pr2] exI [of _ m]) (simp add: pr2_def pr1_def)
qed

end
