(* ===== verification/NvMap_Chunk.thy ===== *)
theory NvMap_Chunk
  imports NvMap_Create
begin

text \<open>
  A new entry in the table of chunks of a mapping, and \<open>nv_record_chunk\<close> as a whole.
\<close>

section \<open>A new chunk\<close>

text \<open>Updates of a mapping that leave its identity alone.\<close>

definition same_map :: "mmapobj_s \<Rightarrow> mmapobj_s \<Rightarrow> bool" where
  "same_map m m' \<longleftrightarrow> mo_vma_id m' = mo_vma_id m \<and> mo_chunk_tree_init m' = mo_chunk_tree_init m \<and>
     mo_chunkobj_tree m' = mo_chunkobj_tree m \<and> mo_strt_addr m' = mo_strt_addr m \<and>
     mo_data_addr m' = mo_data_addr m"

lemma map_list_update_same: "i < length xs \<Longrightarrow> f y = f (xs ! i) \<Longrightarrow> map f (xs[i := y]) = map f xs"
  by (simp add: map_update) (metis list_update_id nth_map)

lemma vinv_same_map:
  assumes v: "vinv pid st pr M C D" and i: "i < length M" and m: "same_map (M ! i) m'"
  shows "vinv pid st pr (M[i := m']) C D"
proof -
  have "map mo_vma_id (M[i := m']) = map mo_vma_id M" "map mo_chunkobj_tree (M[i := m']) = map mo_chunkobj_tree M"
    using i m by (auto intro!: map_list_update_same simp: same_map_def)
  moreover have "vmap pid st m (C (mo_vma_id m)) (D (mo_vma_id m))" if "m \<in> set (M[i := m'])" for m
  proof -
    have "m \<in> set M \<or> m = m'" using that set_update_subset_insert by fastforce
    then show ?thesis using vinv_map [OF v] m i nth_mem [OF i] by (auto simp: vmap_def same_map_def)
  qed
  ultimately show ?thesis
    using v mmap_index_cong [of "M[i := m']" M] by (simp add: vinv_def)
qed

lemma rinv_same_map:
  assumes r: "rinv pid st pr M D R" and i: "i < length M" and m: "same_map (M ! i) m'"
  shows "rinv pid st pr (M[i := m']) D R"
proof -
  have "mo_data_addr m = fst r" if "r \<in> set R" "m \<in> set (M[i := m'])" "mo_vma_id m = snd r" for m r
  proof -
    have "m \<in> set M \<or> m = m'" using that set_update_subset_insert by fastforce
    then show ?thesis using r that m nth_mem [OF i] by (auto simp: rinv_def region_ok_def same_map_def)
  qed
  then show ?thesis using r by (auto simp: rinv_def region_ok_def)
qed

lemma rinv_cong:
  assumes "map_tree st' = map_tree st" and "mmaps st' = mmaps st" and "proc_vmas st' = proc_vmas st"
    and "\<And>v. fs st' (fdata pid v) = fs st (fdata pid v)"
  shows "rinv pid st' = rinv pid st"
  using assms by (simp add: rinv_def region_ok_def fun_eq_iff)

lemma owner_add_chunk:
  assumes d: "distinct (map mo_vma_id M)" and i: "i < length M" and c: "live c"
  defines "v \<equiv> mo_vma_id (M ! i)"
  shows "owner M (C(v := C v @ [c])) k i' j' \<longleftrightarrow>
    owner M C k i' j' \<or> k = ch_chunkid c \<and> i' = i \<and> j' = length (C v)"
proof -
  have "i' = i" if "i' < length M" "mo_vma_id (M ! i') = v"
    using distinct_map_nth_eq [OF d that(1) i] that(2) by (simp add: v_def)
  then show ?thesis using i c by (auto simp: owner_def nth_append less_Suc_eq v_def)
qed

lemma owner_same_vmas: "map mo_vma_id M' = map mo_vma_id M \<Longrightarrow> owner M' C k i j = owner M C k i j"
proof -
  assume e: "map mo_vma_id M' = map mo_vma_id M"
  then have l: "length M' = length M" by (rule map_eq_imp_length_eq)
  have "mo_vma_id (M' ! i) = mo_vma_id (M ! i)" if "i < length M" using e l that by (metis nth_map)
  then show ?thesis using l by (auto simp: owner_def)
qed

lemma pinv_add_chunk:
  assumes p: "pinv pid F pr M C D" and i: "i < length M"
  defines "v \<equiv> mo_vma_id (M ! i)"
  assumes c: "live c" "chunk_ok pid (length (D v)) c" and fresh: "\<forall>i j. \<not> owner M C (ch_chunkid c) i j"
    and ap: "\<forall>c' \<in> set (C v). apart c' c" and n: "length (C v) < MAX_CHUNKS"
    and m': "m' = (M ! i)\<lparr>mo_meta_offset := mo_meta_offset (M ! i) + of_nat sizeof_chunkobj_s,
      mo_numchunks := mo_numchunks (M ! i) + 1\<rparr>"
    and F: "F' (fproc pid) = Some (proc_file pr (M[i := m']))" "F' (fchunks pid v) = Some (chunk_file (C v @ [c]))"
      "\<And>f. f \<noteq> fproc pid \<Longrightarrow> f \<noteq> fchunks pid v \<Longrightarrow> F' f = F f"
  shows "pinv pid F' pr (M[i := m']) (C(v := C v @ [c])) D"
proof -
  let ?C = "C(v := C v @ [c])" and ?M = "M[i := m']"
  have d: "distinct (map mo_vma_id M)" and u: "uniq M C" using p by (simp_all add: pinv_def)
  have vm: "map mo_vma_id ?M = map mo_vma_id M" using i m' by (intro map_list_update_same) simp_all
  have own: "owner ?M ?C k i' j' \<longleftrightarrow> owner M C k i' j' \<or> k = ch_chunkid c \<and> i' = i \<and> j' = length (C v)" for k i' j'
    unfolding owner_same_vmas [OF vm] v_def by (rule owner_add_chunk [OF d i c(1)])
  have "uniq ?M ?C" using u fresh unfolding uniq_def own by blast
  moreover have "map_ok pid (unat (pr_num_mmaps pr)) m' (C v @ [c]) (D v)"
  proof -
    have "map_ok pid (unat (pr_num_mmaps pr)) (M ! i) (C v) (D v)"
      using pinv_map(3) [OF p, of "M ! i"] i by (simp add: v_def)
    then show ?thesis using c ap n m' by (auto simp: map_ok_def ch_off_def algebra_simps sorted_wrt_append)
  qed
  moreover have "F' (fchunks pid (mo_vma_id m)) = Some (chunk_file (?C (mo_vma_id m))) \<and>
      F' (fdata pid (mo_vma_id m)) = Some (DataFile (D (mo_vma_id m))) \<and>
      map_ok pid (unat (pr_num_mmaps pr)) m (?C (mo_vma_id m)) (D (mo_vma_id m))" if mM: "m \<in> set ?M" for m
  proof -
    obtain i' where i': "i' < length M" "m = ?M ! i'" using mM by (auto simp: in_set_conv_nth)
    show ?thesis
    proof (cases "i' = i")
      case True
      then have "m = m'" "mo_vma_id m' = v" using i' m' by (simp_all add: v_def)
      then show ?thesis
        using calculation(2) F pinv_map(2) [OF p, of "M ! i"] i by (simp add: v_def)
    next
      case False
      then have "m = M ! i'" "mo_vma_id m \<noteq> v"
        using i' distinct_map_nth_eq [OF d i'(1) i] by (auto simp: v_def)
      then show ?thesis using F(3) pinv_map [OF p, of m] i' by simp
    qed
  qed
  ultimately show ?thesis using p F(1) vm by (simp add: pinv_def)
qed

definition new_chunk :: "UINT \<Rightarrow> UINT \<Rightarrow> rqst_s \<Rightarrow> chunkobj_s" where
  "new_chunk pid v rq = \<lparr>ch_length = ucast (rq_bytes rq), ch_offset = ucast (rq_offset rq), ch_chunkid = rq_id rq,
     ch_pid = pid, ch_vma_id = v, ch_commitsz = 0, ch_nv_ptr = rq_nv_ptr rq, ch_valid = VALID,
     ch_objname = rq_var_name rq\<rparr>"

text \<open>A request to enter a chunk at offset \<open>off\<close> of a mapping whose data are at \<open>s\<close>.\<close>

definition chunk_rqst :: "UINT \<Rightarrow> rqst_s \<Rightarrow> ULONG \<Rightarrow> nat \<Rightarrow> bool" where
  "chunk_rqst pid rq s off \<longleftrightarrow> rq_pid rq = pid \<and> rq_id rq \<noteq> 0 \<and> rq_id rq = gen_id_from_str (rq_var_name rq) \<and>
     rq_var_name rq \<noteq> [] \<and> length (rq_var_name rq) < MAXOBJNAMELEN \<and>
     rq_nv_ptr rq = s + of_nat off \<and> rq_offset rq = of_nat off \<and> off < 2 ^ 32 \<and>
     0 < unat (rq_bytes rq) \<and> unat (rq_bytes rq) < 2 ^ 32"

lemma chunk_rqst_sizes:
  assumes "chunk_rqst pid rq s off"
  shows "unat (ucast (rq_bytes rq) :: UINT) = unat (rq_bytes rq)" and "unat (ucast (rq_offset rq) :: UINT) = off"
    and "(ucast (ucast (rq_offset rq) :: UINT) :: ULONG) = of_nat off"
proof -
  have o: "off < 4294967296" "rq_offset rq = of_nat off" "unat (rq_bytes rq) < 4294967296"
    using assms by (simp_all add: chunk_rqst_def)
  show "unat (ucast (rq_bytes rq) :: UINT) = unat (rq_bytes rq)"
    using o(3) by (simp add: unsigned_ucast_eq take_bit_nat_eq_self)
  have "unat (of_nat off :: ULONG) = off" using o(1) unfolding unat_of_nat by simp
  then have u: "unat (ucast (rq_offset rq) :: UINT) = off" using o by (simp add: unsigned_ucast_eq take_bit_nat_eq_self)
  then show "unat (ucast (rq_offset rq) :: UINT) = off" .
  then have "(ucast (rq_offset rq) :: UINT) = of_nat off" by (metis of_nat_unat ucast_id)
  then show "(ucast (ucast (rq_offset rq) :: UINT) :: ULONG) = of_nat off"
    using o(1) by (simp add: ucast_of_nat_UINT)
qed

lemma create_chunkobj_ok:
  assumes p: "pinv pid (fs st) pr M C D" and vi: "vinv pid st pr M C D" and i: "i < length M"
  defines "v \<equiv> mo_vma_id (M ! i)"
  assumes n: "length (C v) < MAX_CHUNKS" and rq: "chunk_rqst pid rq (mo_data_addr (M ! i)) off"
    and off: "off + unat (rq_bytes rq) \<le> length (D v)"
  shows "create_chunkobj st rq (moptr pid i) = Some (st\<lparr>fs := (fs st)(
      fproc pid \<mapsto> proc_file pr (M[i := (M ! i)\<lparr>mo_meta_offset := mo_meta_offset (M ! i) + of_nat sizeof_chunkobj_s\<rparr>]),
      fchunks pid v \<mapsto> chunk_file (C v @ [new_chunk pid v rq]),
      fdata pid v \<mapsto> DataFile (patch (D v) off (replicate (unat (rq_bytes rq)) 0)))\<rparr>,
    chptr pid v (length (C v)))"
proof -
  let ?m = "(M ! i)\<lparr>mo_meta_offset := mo_meta_offset (M ! i) + of_nat sizeof_chunkobj_s\<rparr>"
  let ?c = "(new_chunk pid v rq)\<lparr>ch_objname := []\<rparr>" and ?z = "replicate (unat (rq_bytes rq)) (0 :: byte)"
  let ?F1 = "(fs st)(fproc pid \<mapsto> proc_file pr (M[i := ?m]))"
  let ?F2 = "?F1(fchunks pid v \<mapsto> chunk_file (C v @ [?c]))"
  let ?F3 = "?F2(fdata pid v \<mapsto> DataFile (patch (D v) off ?z))"
  have F: "fs st (fproc pid) = Some (proc_file pr M)" and l: "length M \<le> MAX_MMAPS" using p by (simp_all add: pinv_def)
  have Fc: "fs st (fchunks pid v) = Some (chunk_file (C v))" and Fd: "fs st (fdata pid v) = Some (DataFile (D v))"
    and mo: "mo_meta_offset (M ! i) = of_nat (ch_off (length (C v)))"
    using pinv_map [OF p, of "M ! i"] i by (simp_all add: v_def map_ok_def)
  have ma: "maps_to (mmaps st) (mo_strt_addr (M ! i)) MMAP_METADATA_SZ (fchunks pid v)"
    "maps_to (mmaps st) (mo_data_addr (M ! i)) (length (D v)) (fdata pid v)"
    using vinv_map [OF vi, of "M ! i"] i by (simp_all add: vmap_def v_def)
  have cb: "ch_off (length (C v)) < MMAP_METADATA_SZ" using ch_off_bound n by simp
  then have res: "resolve (mmaps st) (mo_strt_addr (M ! i) + ucast (mo_meta_offset (M ! i))) = Some (chptr pid v (length (C v)))"
    unfolding mo using resolve_maps_to [OF ma(1) cb] by (simp add: ucast_of_nat_UINT sizes)
  have nz: "mo_strt_addr (M ! i) \<noteq> 0" using ma(1) by (simp add: maps_to_def)
  have u1: "upd_mmapobj st (moptr pid i) (\<lambda>m. m\<lparr>mo_meta_offset := mo_meta_offset m + of_nat sizeof_chunkobj_s\<rparr>) =
      Some (st\<lparr>fs := ?F1\<rparr>)" using upd_mmapobj_file [OF F i l] by simp
  have g1: "get_mmapobj (st\<lparr>fs := ?F1\<rparr>) (moptr pid i) = Some ?m"
    using i l by (subst get_mmapobj_file [where pr = pr and M = "M[i := ?m]"]) simp_all
  have u2: "upd_chunkobj (st\<lparr>fs := ?F1\<rparr>) (chptr pid v (length (C v))) (\<lambda>c. c\<lparr>ch_pid := rq_pid rq, ch_chunkid := rq_id rq,
      ch_length := ucast (rq_bytes rq), ch_vma_id := v, ch_offset := ucast (rq_offset rq), ch_commitsz := 0,
      ch_valid := VALID, ch_nv_ptr := rq_nv_ptr rq\<rparr>) = Some (st\<lparr>fs := ?F2\<rparr>)"
    using Fc n rq by (subst upd_chunkobj_new [where cs = "C v"])
      (simp_all add: new_chunk_def zero_chunkobj_def chunk_rqst_def)
  have w: "mem_set (st\<lparr>fs := ?F2\<rparr>) (rq_nv_ptr rq) 0 (unat (rq_bytes rq)) = Some (st\<lparr>fs := ?F3\<rparr>)"
    using mem_write_maps_to [of "st\<lparr>fs := ?F2\<rparr>" "mo_data_addr (M ! i)" "D v" "fdata pid v" off ?z] ma(2) Fd off rq
    by (simp add: mem_set_def chunk_rqst_def)
  have u3: "upd_chunkobj (st\<lparr>fs := ?F3\<rparr>) (chptr pid v (length (C v))) (\<lambda>c. c\<lparr>ch_objname := rq_var_name rq\<rparr>) =
      Some (st\<lparr>fs := ?F1(fchunks pid v \<mapsto> chunk_file (C v @ [new_chunk pid v rq]),
        fdata pid v \<mapsto> DataFile (patch (D v) off ?z))\<rparr>)"
    using n by (subst upd_chunkobj_file [where cs = "C v @ [?c]"]) (simp_all add: upd_twice new_chunk_def)
  have vm: "mo_vma_id ?m = v" by (simp add: v_def)
  show ?thesis
    using u1 u2 g1 w u3 res nz rq chunk_rqst_sizes(1) [OF rq] vm get_mmapobj_file [OF F i l]
    by (simp add: create_chunkobj_def update_chunkobj_def chunk_rqst_def)
qed

lemma live_new_chunk [simp]: "live (new_chunk pid v rq)"
  by (simp add: live_def new_chunk_def VALID_def INVALID_def)

lemma add_chunk_ok:
  assumes p: "pinv pid (fs st) pr M C D" and vi: "vinv pid st pr M C D" and i: "i < length M"
  defines "v \<equiv> mo_vma_id (M ! i)"
  assumes n: "length (C v) < MAX_CHUNKS" and rq: "chunk_rqst pid rq (mo_data_addr (M ! i)) off"
    and off: "off + unat (rq_bytes rq) \<le> length (D v)"
  defines "m' \<equiv> (M ! i)\<lparr>mo_meta_offset := mo_meta_offset (M ! i) + of_nat sizeof_chunkobj_s,
      mo_numchunks := mo_numchunks (M ! i) + 1\<rparr>"
  shows "\<exists>t N st1. add_chunk_to_mmapobj st (moptr pid i) rq = Some (st1, chptr pid v (length (C v))) \<and>
    upd_mmapobj st1 (moptr pid i) (\<lambda>m. m\<lparr>mo_numchunks := mo_numchunks m + 1\<rparr>) = Some (st\<lparr>fs := (fs st)(
        fproc pid \<mapsto> proc_file pr (M[i := m']), fchunks pid v \<mapsto> chunk_file (C v @ [new_chunk pid v rq]),
        fdata pid v \<mapsto> DataFile (patch (D v) off (replicate (unat (rq_bytes rq)) 0))),
      trees := (trees st)(mo_chunkobj_tree (M ! i) \<mapsto> t), objnamemap := N\<rparr>) \<and>
    rbtree_repr t (chunk_index pid v (C v @ [new_chunk pid v rq]))"
proof -
  let ?m = "(M ! i)\<lparr>mo_meta_offset := mo_meta_offset (M ! i) + of_nat sizeof_chunkobj_s\<rparr>"
  let ?c = "new_chunk pid v rq" and ?d = "patch (D v) off (replicate (unat (rq_bytes rq)) (0 :: byte))"
  let ?G = "\<lambda>m. (fs st)(fproc pid \<mapsto> proc_file pr (M[i := m]), fchunks pid v \<mapsto> chunk_file (C v @ [?c]),
    fdata pid v \<mapsto> DataFile ?d)"
  let ?st1 = "st\<lparr>fs := ?G ?m\<rparr>"
  have l: "length M \<le> MAX_MMAPS" using p by (simp add: pinv_def)
  have g: "get_mmapobj ?st1 (moptr pid i) = Some ?m"
    using i l by (subst get_mmapobj_file [where pr = pr and M = "M[i := ?m]"]) simp_all
  have gc: "get_chunkobj ?st1 (chptr pid v (length (C v))) = Some ?c"
    using n by (subst get_chunkobj_file [where cs = "C v @ [?c]"]) simp_all
  have tr: "tree_repr ?st1 (mo_chunkobj_tree (M ! i)) (chunk_index pid v (C v))"
    using vinv_map [OF vi, of "M ! i"] i by (simp add: vmap_def v_def)
  obtain t where t: "tree_insert ?st1 (mo_chunkobj_tree (M ! i)) (ucast (rq_id rq)) (chptr pid v (length (C v))) =
      Some (?st1\<lparr>trees := (trees ?st1)(mo_chunkobj_tree (M ! i) \<mapsto> t)\<rparr>)"
    "rbtree_repr t ((chunk_index pid v (C v))(ucast (rq_id rq) \<mapsto> chptr pid v (length (C v))))"
    using tree_insert_repr [OF tr] by blast
  have len: "ch_length ?c \<noteq> 0" "ch_chunkid ?c = rq_id rq"
    using rq chunk_rqst_sizes(1) [OF rq] by (auto simp: new_chunk_def chunk_rqst_def)
  let ?st2 = "?st1\<lparr>trees := (trees st)(mo_chunkobj_tree (M ! i) \<mapsto> t),
    objnamemap := objnamemap_insert (ch_objname ?c) 0 (objnamemap st)\<rparr>"
  have "add_chunkobj ?st1 (moptr pid i) (chptr pid v (length (C v))) = Some ?st2"
    using g gc t(1) tr len by (simp add: add_chunkobj_def tree_repr_def)
  then have "add_chunk_to_mmapobj st (moptr pid i) rq = Some (?st2, chptr pid v (length (C v)))"
    using create_chunkobj_ok [OF p vi i n [unfolded v_def] rq off [unfolded v_def]]
    by (simp add: add_chunk_to_mmapobj_def v_def)
  moreover have "upd_mmapobj ?st2 (moptr pid i) (\<lambda>m. m\<lparr>mo_numchunks := mo_numchunks m + 1\<rparr>) =
      Some (?st2\<lparr>fs := ?G m'\<rparr>)"
    using i l by (subst upd_mmapobj_file [where pr = pr and M = "M[i := ?m]"])
      (simp_all add: upd_twice m'_def fun_upd_twist [of "fproc pid"])
  moreover have "rbtree_repr t (chunk_index pid v (C v @ [?c]))"
    using t(2) len(2) by (simp add: chunk_index_snoc)
  ultimately show ?thesis by (intro exI [of _ t] exI [of _ "objnamemap_insert (ch_objname ?c) 0 (objnamemap st)"] exI [of _ ?st2]) simp
qed

text \<open>The effect on the objects: one more, with bytes zero.\<close>

lemma object_add_chunk:
  assumes p: "pinv pid F pr M C D" and i: "i < length M"
  defines "v \<equiv> mo_vma_id (M ! i)"
  assumes p': "pinv pid F' pr' M' (C(v := C v @ [c])) (D(v := patch (D v) off bs))"
    and M': "map mo_vma_id M' = map mo_vma_id M" and c: "live c" and fresh: "\<forall>i j. \<not> owner M C (ch_chunkid c) i j"
    and off: "unat (ch_offset c) = off" "unat (ch_length c) = length bs" "off + length bs \<le> length (D v)"
    and ap: "\<forall>c' \<in> set (C v). apart c' c"
  shows "object pid F' = (object pid F)(ch_chunkid c \<mapsto>
    \<lparr>ob_name = ch_objname c, ob_commitsz = ch_commitsz c, ob_bytes = bs\<rparr>)"
proof (rule ext)
  fix k
  let ?C = "C(v := C v @ [c])" and ?D = "D(v := patch (D v) off bs)"
  have d: "distinct (map mo_vma_id M)" using p by (simp add: pinv_def)
  have own: "owner M' ?C k i' j' \<longleftrightarrow> owner M C k i' j' \<or> k = ch_chunkid c \<and> i' = i \<and> j' = length (C v)" for k i' j'
    unfolding owner_same_vmas [OF M'] v_def by (rule owner_add_chunk [OF d i c])
  have vm: "mo_vma_id (M' ! i') = mo_vma_id (M ! i')" if "i' < length M" for i'
    using M' that by (metis map_eq_imp_length_eq nth_map)
  show "object pid F' k = ((object pid F)(ch_chunkid c \<mapsto>
    \<lparr>ob_name = ch_objname c, ob_commitsz = ch_commitsz c, ob_bytes = bs\<rparr>)) k"
  proof (cases "k = ch_chunkid c")
    case True
    then have "object pid F' k = Some (obj_of (patch (D v) off bs) c)"
      using object_Some_owner [OF p', of k i "length (C v)"] own vm [OF i] by (simp add: v_def)
    then show ?thesis using True off patch_inside [of off "length bs" "D v" 0 bs]
      by (simp add: obj_of_def patch_def)
  next
    case False
    have "object pid F' k = Some ob \<longleftrightarrow> object pid F k = Some ob" for ob
    proof -
      have "obj_of (?D (mo_vma_id (M' ! i'))) (?C (mo_vma_id (M' ! i')) ! j') =
          obj_of (D (mo_vma_id (M ! i'))) (C (mo_vma_id (M ! i')) ! j')" if o: "owner M C k i' j'" for i' j'
      proof -
        have j: "i' < length M" "j' < length (C (mo_vma_id (M ! i')))" "live (C (mo_vma_id (M ! i')) ! j')"
          using o by (simp_all add: owner_def)
        show ?thesis
        proof (cases "mo_vma_id (M ! i') = v")
          case True
          let ?c = "C v ! j'"
          have "apart ?c c" "live ?c" using ap j True by simp_all
          then have "unat (ch_offset ?c) + unat (ch_length ?c) \<le> off \<or> off + length bs \<le> unat (ch_offset ?c)"
            using c off by (simp add: apart_def)
          moreover have "unat (ch_offset ?c) + unat (ch_length ?c) \<le> length (D v)"
            using owner_chunk_ok [OF p o] True by (simp add: chunk_ok_def)
          ultimately show ?thesis using True j vm [OF j(1)] off(3)
              patch_apart [of off bs "D v" "unat (ch_offset ?c)" "unat (ch_length ?c)"]
            by (simp add: obj_of_def nth_append)
        qed (use vm [OF j(1)] in simp)
      qed
      then show ?thesis unfolding object_owner [OF p] object_owner [OF p'] own using False by metis
    qed
    then show ?thesis using False by (metis fun_upd_other option.exhaust)
  qed
qed

section \<open>Recording an object\<close>

lemma get_vma_size_found: "um_find v m = Some x \<Longrightarrow> get_vma_size v m = (x, m)"
  by (simp add: get_vma_size_def um_at_def)

text \<open>The mapping of a range, made persistent when it has no object yet.\<close>

definition need_mmapobj :: "os_mmap \<Rightarrow> nvst \<Rightarrow> rqst_s \<Rightarrow> UINT \<Rightarrow> ULONG \<Rightarrow> pptr \<Rightarrow> (nvst \<times> pptr \<times> ULONG) option" where
  "need_mmapobj os st rq vma_id start_addr proc_obj = do {
     (st, mmapobj) \<leftarrow> find_mmapobj st vma_id proc_obj;
     (case mmapobj of
        None \<Rightarrow> do {
          let (sz, vmas) = get_vma_size vma_id (proc_vmas st);
          let st = st\<lparr>proc_vmas := vmas\<rparr>;
          (st, mmapobj) \<leftarrow> add_mmapobj_to_proc os st proc_obj (rq\<lparr>rq_id := vma_id, rq_bytes := sz\<rparr>) 0 start_addr;
          Some (st, mmapobj, of_nat MMAP_METADATA_SZ) }
      | Some mmapobj \<Rightarrow> do { m \<leftarrow> get_mmapobj st mmapobj; Some (st, mmapobj, mo_length m) }) }"

text \<open>What holds afterwards: entry \<open>i\<close> is the mapping, and no object has changed.\<close>

definition mapping_ready ::
  "UINT \<Rightarrow> nvst \<Rightarrow> proc_s \<Rightarrow> mmapobj_s list \<Rightarrow> chunk_tabs \<Rightarrow> data_tabs \<Rightarrow> (ULONG \<times> UINT) list \<Rightarrow> ULONG \<times> UINT \<Rightarrow>
   nvst \<Rightarrow> nat \<Rightarrow> proc_s \<Rightarrow> mmapobj_s list \<Rightarrow> chunk_tabs \<Rightarrow> bool" where
  "mapping_ready pid st pr M C D R r st' i pr' M' C' \<longleftrightarrow>
     pinv pid (fs st') pr' M' C' D \<and> vinv pid st' pr' M' C' D \<and> rinv pid st' pr' M' D R \<and>
     i < length M' \<and> mo_vma_id (M' ! i) = snd r \<and> mo_data_addr (M' ! i) = fst r \<and>
     (\<forall>k i j. owner M' C' k i j = owner M C k i j) \<and> objects pid (fs st') = objects pid (fs st) \<and>
     (\<forall>m \<in> set M'. mo_vma_id m \<noteq> snd r \<longrightarrow> C' (mo_vma_id m) \<noteq> []) \<and>
     C' (snd r) = (if snd r \<in> mo_vma_id ` set M then C (snd r) else []) \<and>
     length (mmaps st') \<le> Suc (length (mmaps st)) \<and> length M' \<le> Suc (length M) \<and>
     pr_num_mmaps pr' = pr_num_mmaps pr"

lemma need_mmapobj_old:
  assumes s: "store pid st pr M C D R" and q: "(s, v) \<in> set R" and i: "i < length M" "mo_vma_id (M ! i) = v"
  shows "need_mmapobj os st rq v s (pptr_of pid) = Some (st, moptr pid i, mo_length (M ! i)) \<and>
    mo_length (M ! i) \<noteq> 0 \<and> mapping_ready pid st pr M C D R (s, v) st i pr M C"
proof -
  note p = storeD(1) [OF s] and vi = storeD(2) [OF s] and ri = storeD(3) [OF s]
  have F: "fs st (fproc pid) = Some (proc_file pr M)" and d: "distinct (map mo_vma_id M)"
    and l: "length M \<le> MAX_MMAPS" using p by (simp_all add: pinv_def)
  have "find_mmapobj st v (pptr_of pid) = Some (st, mmap_index pid M (ucast v))"
    using vi get_proc_file [OF F] tree_lookup_repr by (auto simp: find_mmapobj_def vinv_def)
  moreover have "mmap_index pid M (ucast v) = Some (moptr pid i)" using i by (auto simp: mmap_index_iff [OF d])
  ultimately have need: "need_mmapobj os st rq v s (pptr_of pid) = Some (st, moptr pid i, mo_length (M ! i))"
    using get_mmapobj_file [OF F i(1) l] by (simp add: need_mmapobj_def)
  have "mo_length (M ! i) = of_nat (length (D v))" "0 < length (D v)" "length (D v) < 2 ^ 32"
    using pinv_map(3) [OF p, of "M ! i"] i by (auto simp: map_ok_def)
  moreover have "unat (of_nat (length (D v)) :: ULONG) = length (D v)"
    using calculation(3) unfolding unat_of_nat by simp
  ultimately have "mo_length (M ! i) \<noteq> 0" by (metis less_numeral_extra(3) unsigned_0)
  moreover have "mo_data_addr (M ! i) = s" using ri q i by (auto simp: rinv_def region_ok_def)
  moreover have "\<forall>m \<in> set M. C (mo_vma_id m) \<noteq> []" using s by (simp add: store_def)
  moreover have "v \<in> mo_vma_id ` set M" using i by auto
  ultimately show ?thesis using need p vi ri i by (simp add: mapping_ready_def)
qed

lemma need_mmapobj_new:
  assumes s: "store pid st pr M C D R" and os: "os_ok os" "length (mmaps st) < MAX_MAP_COUNT"
    and n: "length M < MAX_MMAPS" and q: "(s, v) \<in> set R" and rq: "rq_pid rq = pid"
    and fresh: "\<forall>m \<in> set M. mo_vma_id m \<noteq> v"
  shows "\<exists>st' pr' m. need_mmapobj os st rq v s (pptr_of pid) = Some (st', moptr pid (length M), of_nat MMAP_METADATA_SZ) \<and>
    mapping_ready pid st pr M C D R (s, v) st' (length M) pr' (M @ [m]) (C(v := []))"
proof -
  note p = storeD(1) [OF s] and vi = storeD(2) [OF s] and ri = storeD(3) [OF s]
  let ?rq = "rq\<lparr>rq_id := v, rq_bytes := of_nat (length (D v))\<rparr>"
  have F: "fs st (fproc pid) = Some (proc_file pr M)" and d: "distinct (map mo_vma_id M)"
    using p by (simp_all add: pinv_def)
  have fm: "find_mmapobj st v (pptr_of pid) = Some (st, mmap_index pid M (ucast v))"
    using vi get_proc_file [OF F] tree_lookup_repr by (auto simp: find_mmapobj_def vinv_def)
  have no: "mmap_index pid M (ucast v) = None"
    using fresh by (cases "mmap_index pid M (ucast v)") (auto simp: mmap_index_iff [OF d])
  have sz: "get_vma_size v (proc_vmas st) = (of_nat (length (D v)), proc_vmas st)"
    using ri q by (intro get_vma_size_found) (auto simp: rinv_def region_ok_def)
  obtain st' pr' m where a: "add_mmapobj_to_proc os st (pptr_of pid) ?rq 0 s = Some (st', moptr pid (length M))"
    and inv: "pinv pid (fs st') pr' (M @ [m]) (C(v := [])) D" "vinv pid st' pr' (M @ [m]) (C(v := [])) D"
      "rinv pid st' pr' (M @ [m]) D R" and m: "mo_vma_id m = v" "mo_data_addr m = s"
    and k: "length (mmaps st') = Suc (length (mmaps st))" "pr_num_mmaps pr' = pr_num_mmaps pr"
    using add_mmapobj_to_proc_ok [OF p vi ri n os q fresh, of ?rq] rq by auto
  have "need_mmapobj os st rq v s (pptr_of pid) = Some (st', moptr pid (length M), of_nat MMAP_METADATA_SZ)"
    using fm no sz a by (simp add: need_mmapobj_def)
  moreover have "owner (M @ [m]) (C(v := [])) k i j \<longleftrightarrow> owner M C k i j" for k i j
    using fresh m(1) by (auto simp: owner_def nth_append less_Suc_eq)
  moreover have "entries_of M (C(v := [])) D = entries_of M C D"
    using fresh unfolding entries_of_def by (intro arg_cong [of _ _ concat] map_cong) simp_all
  then have "entries_of (M @ [m]) (C(v := [])) D = entries_of M C D"
    using m(1) by (simp add: entries_of_def chunk_objs_def)
  then have "objects pid (fs st') = objects pid (fs st)"
    by (simp add: objects_pinv [OF p] objects_pinv [OF inv(1)])
  moreover have "\<forall>m \<in> set M. C (mo_vma_id m) \<noteq> []" using s by (simp add: store_def)
  moreover have "v \<notin> mo_vma_id ` set M" using fresh by auto
  ultimately show ?thesis using inv m k by (intro exI [of _ st'] exI [of _ pr'] exI [of _ m]) (simp add: mapping_ready_def)
qed

lemma need_mmapobj_ok:
  assumes s: "store pid st pr M C D R" and os: "os_ok os" "length (mmaps st) < MAX_MAP_COUNT"
    and n: "length M < MAX_MMAPS" and q: "(s, v) \<in> set R" and rq: "rq_pid rq = pid"
  obtains st' i b pr' M' C' where "need_mmapobj os st rq v s (pptr_of pid) = Some (st', moptr pid i, b)" and "b \<noteq> 0"
    and "mapping_ready pid st pr M C D R (s, v) st' i pr' M' C'"
proof (cases "\<exists>m \<in> set M. mo_vma_id m = v")
  case True
  then obtain i where "i < length M" "mo_vma_id (M ! i) = v" by (auto simp: in_set_conv_nth)
  then show ?thesis using need_mmapobj_old [OF s q, of i os rq] that by blast
next
  case False
  moreover have "(of_nat MMAP_METADATA_SZ :: ULONG) \<noteq> 0" by (simp add: sizes)
  ultimately show ?thesis using need_mmapobj_new [OF s os n q rq] that by blast
qed

text \<open>The bytes \<open>off\<close> to \<open>off + n\<close> of mapping \<open>v\<close> are part of no object.\<close>

definition unused :: "mmapobj_s list \<Rightarrow> chunk_tabs \<Rightarrow> UINT \<Rightarrow> nat \<Rightarrow> nat \<Rightarrow> bool" where
  "unused M C v off n \<longleftrightarrow> (\<forall>m \<in> set M. mo_vma_id m = v \<longrightarrow> (\<forall>c \<in> set (C v). live c \<longrightarrow>
     unat (ch_offset c) + unat (ch_length c) \<le> off \<or> off + n \<le> unat (ch_offset c)))"

lemma add_chunk_store:
  assumes r: "mapping_ready pid st0 pr0 M0 C0 D R (s, v) st i pr M C" and rq: "chunk_rqst pid rq s off"
    and off: "off + unat (rq_bytes rq) \<le> length (D v)" and n: "length (C v) < MAX_CHUNKS"
    and fresh: "\<forall>i j. \<not> owner M0 C0 (rq_id rq) i j" and un: "unused M0 C0 v off (unat (rq_bytes rq))"
  shows "\<exists>st1 st2 M2 C2 D2. add_chunk_to_mmapobj st (moptr pid i) rq = Some (st1, chptr pid v (length (C v))) \<and>
    upd_mmapobj st1 (moptr pid i) (\<lambda>m. m\<lparr>mo_numchunks := mo_numchunks m + 1\<rparr>) = Some st2 \<and>
    store pid st2 pr M2 C2 D2 R \<and> object pid (fs st2) = (object pid (fs st0))(rq_id rq \<mapsto>
      \<lparr>ob_name = rq_var_name rq, ob_commitsz = 0, ob_bytes = replicate (unat (rq_bytes rq)) 0\<rparr>) \<and>
    get_chunkobj st2 (chptr pid v (length (C v))) = Some (new_chunk pid v rq) \<and>
    mmaps st2 = mmaps st \<and> length M2 = length M"
proof -
  let ?z = "replicate (unat (rq_bytes rq)) (0 :: byte)"
  let ?c = "new_chunk pid v rq" and ?d = "patch (D v) off ?z"
  let ?C = "C(v := C v @ [?c])" and ?D = "D(v := ?d)"
  have p: "pinv pid (fs st) pr M C D" and vi: "vinv pid st pr M C D" and ri: "rinv pid st pr M D R"
    and i: "i < length M" "mo_vma_id (M ! i) = v" "mo_data_addr (M ! i) = s"
    and own: "\<And>k i j. owner M C k i j = owner M0 C0 k i j" and ob: "objects pid (fs st) = objects pid (fs st0)"
    and ne: "\<forall>m \<in> set M. mo_vma_id m \<noteq> v \<longrightarrow> C (mo_vma_id m) \<noteq> []"
    and Cv: "C v = (if v \<in> mo_vma_id ` set M0 then C0 v else [])"
    using r by (simp_all add: mapping_ready_def)
  define m' where "m' = (M ! i)\<lparr>mo_meta_offset := mo_meta_offset (M ! i) + of_nat sizeof_chunkobj_s,
      mo_numchunks := mo_numchunks (M ! i) + 1\<rparr>"
  let ?F = "(fs st)(fproc pid \<mapsto> proc_file pr (M[i := m']), fchunks pid v \<mapsto> chunk_file (C v @ [?c]), fdata pid v \<mapsto> DataFile ?d)"
  obtain t N st1 where add: "add_chunk_to_mmapobj st (moptr pid i) rq = Some (st1, chptr pid v (length (C v)))"
    "upd_mmapobj st1 (moptr pid i) (\<lambda>m. m\<lparr>mo_numchunks := mo_numchunks m + 1\<rparr>) =
      Some (st\<lparr>fs := ?F, trees := (trees st)(mo_chunkobj_tree (M ! i) \<mapsto> t), objnamemap := N\<rparr>)"
    and t: "rbtree_repr t (chunk_index pid v (C v @ [?c]))"
    using add_chunk_ok [OF p vi i(1), of rq off] n rq off unfolding i(2,3) m'_def by blast
  let ?st2 = "st\<lparr>fs := ?F, trees := (trees st)(mo_chunkobj_tree (M ! i) \<mapsto> t), objnamemap := N\<rparr>"
  have l: "length ?d = length (D v)" using off by simp
  have sz: "unat (ch_length ?c) = unat (rq_bytes rq)" "unat (ch_offset ?c) = off"
    using chunk_rqst_sizes [OF rq] by (simp_all add: new_chunk_def)
  have ap: "\<forall>c' \<in> set (C v). apart c' ?c"
    using un sz unfolding unused_def apart_def Cv by auto
  have fr: "\<forall>i j. \<not> owner M C (ch_chunkid ?c) i j" using fresh own by (simp add: new_chunk_def)
  have ok: "chunk_ok pid (length (?D v)) ?c"
    using rq sz off unat_gt_0 [of "ch_length ?c"] by (auto simp: chunk_ok_def chunk_rqst_def new_chunk_def)
  have sm: "same_map (M ! i) m'" by (simp add: same_map_def m'_def)
  have p1: "pinv pid ((fs st)(fdata pid v \<mapsto> DataFile ?d)) pr M C ?D" by (rule pinv_data_upd [OF p l])
  have p2: "pinv pid ?F pr (M[i := m']) ?C ?D"
    using pinv_add_chunk [OF p1 i(1), of ?c m' ?F] ok fr ap n i(2) by (simp add: m'_def)
  have d: "distinct (map mo_vma_id M)" using p by (simp add: pinv_def)
  have ptr: "ch_nv_ptr c = s + ucast (ch_offset c)" if "c \<in> set (C v @ [?c])" "live c" for c
    using that vinv_map [OF vi, of "M ! i"] i rq chunk_rqst_sizes(3) [OF rq]
    by (auto simp: vmap_def new_chunk_def chunk_rqst_def)
  have "vinv pid (st\<lparr>trees := (trees st)(mo_chunkobj_tree (M ! i) \<mapsto> t)\<rparr>) pr M ?C ?D"
    using vinv_tree_upd [OF vi d i(1), of t "C v @ [?c]" ?D] t ptr l unfolding i(2,3) by simp
  then have v2: "vinv pid ?st2 pr (M[i := m']) ?C ?D"
    using vinv_same_map [OF _ i(1) sm] vinv_cong [of ?st2 "st\<lparr>trees := (trees st)(mo_chunkobj_tree (M ! i) \<mapsto> t)\<rparr>"] by simp
  have "rinv pid ?st2 = rinv pid (st\<lparr>fs := (fs st)(fdata pid v \<mapsto> DataFile ?d)\<rparr>)" by (rule rinv_cong) simp_all
  then have r2: "rinv pid ?st2 pr (M[i := m']) ?D R"
    using rinv_same_map [OF rinv_data_upd [OF ri l] i(1) sm] by simp
  have "\<forall>m \<in> set (M[i := m']). ?C (mo_vma_id m) \<noteq> []"
    using ne set_update_subset_insert [of M i m'] by (auto simp: m'_def i(2))
  then have s2: "store pid ?st2 pr (M[i := m']) ?C ?D R" using p2 v2 r2 by (simp add: store_def)
  have vm: "map mo_vma_id (M[i := m']) = map mo_vma_id M"
    using i(1) sm by (intro map_list_update_same) (simp_all add: same_map_def)
  have "object pid ?F = (object pid (fs st))(ch_chunkid ?c \<mapsto>
      \<lparr>ob_name = ch_objname ?c, ob_commitsz = ch_commitsz ?c, ob_bytes = ?z\<rparr>)"
    using object_add_chunk [OF p i(1), of ?F pr "M[i := m']" ?c off ?z] p2 vm fr sz off ap i(2) by simp
  then have o2: "object pid ?F = (object pid (fs st0))(rq_id rq \<mapsto>
      \<lparr>ob_name = rq_var_name rq, ob_commitsz = 0, ob_bytes = ?z\<rparr>)"
    using ob by (simp add: new_chunk_def object_def fun_eq_iff)
  have "get_chunkobj ?st2 (chptr pid v (length (C v))) = Some ?c"
    using n by (subst get_chunkobj_file [where cs = "C v @ [?c]"]) simp_all
  then show ?thesis using add s2 o2
    by (intro exI [of _ st1] exI [of _ ?st2] exI [of _ "M[i := m']"] exI [of _ ?C] exI [of _ ?D]) simp
qed

lemma unat_diff_off:
  assumes "maps_to ms s n f" and "off < n" and "n < 2 ^ 32"
  shows "unat (ucast (ucast (s + of_nat off - s) :: UINT) :: ULONG) = off"
proof -
  have "unat (of_nat off :: ULONG) = off" using assms(2,3) unfolding unat_of_nat by simp
  then have "unat (ucast (of_nat off :: ULONG) :: UINT) = off"
    using assms(2,3) by (simp add: unsigned_ucast_eq take_bit_nat_eq_self)
  then show ?thesis unfolding unat_ucast_UINT by simp
qed

text \<open>\<open>nv_record_chunk\<close> for a name that is not taken, step by step.\<close>

lemma nv_record_chunk_fresh:
  assumes "g_initialized st" and "find_proc_obj st (rq_pid rq) = Some (st, Some proc_obj)"
    and "check_if_chunk_exists st rq = Some (st, None)" and "locate_mmapobj_node st a = Some (v, s, None)"
    and "v \<noteq> 0" and "s \<noteq> 0" and need: "need_mmapobj os st rq v s proc_obj = Some (st1, mo, b)" and "b \<noteq> 0"
    and "gen_id_from_str (rq_var_name rq) \<noteq> 0"
    and "add_chunk_to_mmapobj (st1\<lparr>prev_proc_id := rq_pid rq\<rparr>) mo (rq\<lparr>rq_id := gen_id_from_str (rq_var_name rq),
      rq_nv_ptr := a, rq_offset := ucast (ucast (a - s) :: UINT)\<rparr>) = Some (st2, ch)"
    and "upd_mmapobj st2 mo (\<lambda>m. m\<lparr>mo_numchunks := mo_numchunks m + 1\<rparr>) = Some st3"
    and "get_chunkobj st3 ch = Some c"
  shows "nv_record_chunk os st rq a = Some (st3\<lparr>chunkmap := record_chunks (ch_nv_ptr c) ch (chunkmap st3)\<rparr>,
    rq\<lparr>rq_id := gen_id_from_str (rq_var_name rq)\<rparr>)"
proof -
  obtain st0 r where f: "find_mmapobj st v proc_obj = Some (st0, r)"
    using need by (auto simp: need_mmapobj_def split: bind_splits)
  show ?thesis
  proof (cases r)
    case None
    obtain sz vmas where g: "get_vma_size v (proc_vmas st0) = (sz, vmas)" by fastforce
    then have "add_mmapobj_to_proc os (st0\<lparr>proc_vmas := vmas\<rparr>) proc_obj (rq\<lparr>rq_id := v, rq_bytes := sz\<rparr>) 0 s = Some (st1, mo)"
      "b = of_nat MMAP_METADATA_SZ"
      using need f None by (auto simp: need_mmapobj_def split: bind_splits)
    then show ?thesis using assms f None g by (simp add: nv_record_chunk_def Let_def)
  next
    case (Some mo')
    then show ?thesis using assms f by (auto simp: need_mmapobj_def nv_record_chunk_def Let_def split: bind_splits)
  qed
qed

lemma nv_record_chunk_store:
  assumes s: "store pid st pr M C D R" and os: "os_ok os" "length (mmaps st) < MAX_MAP_COUNT"
    and room: "length M < MAX_MMAPS" "v \<in> mo_vma_id ` set M \<Longrightarrow> length (C v) < MAX_CHUNKS"
    and q: "(s, v) \<in> set R" and off: "off + unat (rq_bytes rq) \<le> length (D v)"
    and rq: "rq_pid rq = pid" "pid \<noteq> 0" "rq_chunkid rq = gen_id_from_str (rq_var_name rq)" "rq_chunkid rq \<noteq> 0"
      "rq_var_name rq \<noteq> []" "length (rq_var_name rq) < MAXOBJNAMELEN" "0 < unat (rq_bytes rq)" 
    and fresh: "object pid (fs st) (rq_chunkid rq) = None" and un: "unused M C v off (unat (rq_bytes rq))"
  shows "\<exists>st' pr' M' C' D'. nv_record_chunk os st rq (s + of_nat off) = Some (st', rq\<lparr>rq_id := rq_chunkid rq\<rparr>) \<and>
    store pid st' pr' M' C' D' R \<and> object pid (fs st') = (object pid (fs st))(rq_chunkid rq \<mapsto>
      \<lparr>ob_name = rq_var_name rq, ob_commitsz = 0, ob_bytes = replicate (unat (rq_bytes rq)) 0\<rparr>) \<and>
    length (mmaps st') \<le> Suc (length (mmaps st)) \<and> length M' \<le> Suc (length M) \<and>
    pr_num_mmaps pr' = pr_num_mmaps pr"
proof -
  note p = storeD(1) [OF s] and vi = storeD(2) [OF s] and ri = storeD(3) [OF s]
  have vp: "vproc pid st" "g_initialized st" "\<not> use_map_cache st" using vi by (simp_all add: vinv_def vproc_def)
  have no: "\<forall>i j. \<not> owner M C (rq_chunkid rq) i j" using fresh object_None [OF p] by blast
  have ok: "region_ok pid st (unat (pr_num_mmaps pr)) M D (s, v)" using ri q by (auto simp: rinv_def)
  have o: "off < length (D v)" using off rq(7) by simp
  have map: "maps_to (mmaps st) s (length (D v)) (fdata pid v)" "length (D v) < 2 ^ 32" "v \<noteq> 0"
    using ok by (auto simp: region_ok_def)
  have nz: "s \<noteq> 0" using map(1) by (simp add: maps_to_def)
  have loc: "locate_mmapobj_node st (s + of_nat off) = Some (v, s, None)"
    using locate_region [OF ri vp(3) q _ o] by simp
  have old: "check_if_chunk_exists st rq = Some (st, None)"
    using get_chunk_vinv(2) [OF p vi rq(1,2,4) no] by (simp add: check_if_chunk_exists_def)
  obtain st1 i b pr1 M1 C1 where need: "need_mmapobj os st rq v s (pptr_of pid) = Some (st1, moptr pid i, b)"
    and b: "b \<noteq> 0" and ready: "mapping_ready pid st pr M C D R (s, v) st1 i pr1 M1 C1"
    by (rule need_mmapobj_ok [OF s os room(1) q rq(1)])
  let ?st1 = "st1\<lparr>prev_proc_id := pid\<rparr>"
  let ?rq = "rq\<lparr>rq_id := rq_chunkid rq, rq_nv_ptr := s + of_nat off,
    rq_offset := ucast (ucast (s + of_nat off - s) :: UINT)\<rparr>"
  have ready1: "mapping_ready pid st pr M C D R (s, v) ?st1 i pr1 M1 C1"
    using ready by (simp add: mapping_ready_def)
  have "(ucast (ucast (s + of_nat off - s) :: UINT) :: ULONG) = of_nat off"
    using unat_diff_off [OF map(1) o map(2)] by (metis of_nat_unat ucast_id)
  then have crq: "chunk_rqst pid ?rq s off" using rq off map(2) by (simp add: chunk_rqst_def)
  have "length (C1 v) < MAX_CHUNKS" using ready room(2) by (simp add: mapping_ready_def MAX_CHUNKS_def)
  then obtain st2 st3 M3 C3 D3 where add: "add_chunk_to_mmapobj ?st1 (moptr pid i) ?rq = Some (st2, chptr pid v (length (C1 v)))"
    "upd_mmapobj st2 (moptr pid i) (\<lambda>m. m\<lparr>mo_numchunks := mo_numchunks m + 1\<rparr>) = Some st3"
    and s3: "store pid st3 pr1 M3 C3 D3 R" and o3: "object pid (fs st3) = (object pid (fs st))(rq_chunkid rq \<mapsto>
      \<lparr>ob_name = rq_var_name rq, ob_commitsz = 0, ob_bytes = replicate (unat (rq_bytes rq)) 0\<rparr>)"
    and g3: "get_chunkobj st3 (chptr pid v (length (C1 v))) = Some (new_chunk pid v ?rq)"
    and k3: "mmaps st3 = mmaps st1" "length M3 = length M1"
    using add_chunk_store [OF ready1 crq] off no un by auto
  let ?st4 = "st3\<lparr>chunkmap := record_chunks (s + of_nat off) (chptr pid v (length (C1 v))) (chunkmap st3)\<rparr>"
  have "nv_record_chunk os st rq (s + of_nat off) = Some (?st4, rq\<lparr>rq_id := rq_chunkid rq\<rparr>)"
    using nv_record_chunk_fresh [OF vp(2) _ old loc map(3) nz need b _ _ add(2) g3] add(1)
      find_proc_obj_vproc [OF vp(1)] rq by (simp add: new_chunk_def)
  then show ?thesis using s3 o3 ready k3
    by (intro exI [of _ ?st4] exI [of _ pr1] exI [of _ M3] exI [of _ C3] exI [of _ D3]) (simp add: mapping_ready_def)
qed

end
