(* ===== verification/NvMap_Load.thy ===== *)
theory NvMap_Load
  imports NvMap_Chunk
begin

text \<open>
  Loading the store of a process from its files: on the first start, and after a restart, when the
  volatile fields of the tables and all trees are made anew.
\<close>

section \<open>Tables that differ in volatile fields\<close>

definition same_pmap :: "mmapobj_s \<Rightarrow> mmapobj_s \<Rightarrow> bool" where
  "same_pmap m m' \<longleftrightarrow> mo_vma_id m' = mo_vma_id m \<and> mo_proc_id m' = mo_proc_id m \<and>
     mo_numchunks m' = mo_numchunks m \<and> mo_meta_offset m' = mo_meta_offset m \<and> mo_length m' = mo_length m"

definition relocate :: "ULONG \<Rightarrow> chunkobj_s \<Rightarrow> chunkobj_s" where
  "relocate s c = (if live c then c\<lparr>ch_nv_ptr := s + ucast (ch_offset c)\<rparr> else c)"

lemma relocate_simps [simp]:
  "ch_length (relocate s c) = ch_length c" "ch_offset (relocate s c) = ch_offset c"
  "ch_chunkid (relocate s c) = ch_chunkid c" "ch_pid (relocate s c) = ch_pid c"
  "ch_commitsz (relocate s c) = ch_commitsz c" "ch_objname (relocate s c) = ch_objname c"
  "live (relocate s c) = live c"
  by (simp_all add: relocate_def live_def)

lemma relocate_preserves [simp]:
  "chunk_ok pid n (relocate s c) = chunk_ok pid n c" "apart (relocate s c) (relocate s c') = apart c c'"
  "obj_of d (relocate s c) = obj_of d c"
  by (simp_all add: chunk_ok_def apart_def obj_of_def)

lemma chunk_objs_relocate [simp]: "chunk_objs d (map (relocate s) cs) = chunk_objs d cs"
  by (simp add: chunk_objs_def filter_map o_def)

lemma map_ok_relocate:
  "map_ok pid num m cs d \<Longrightarrow> same_pmap m m' \<Longrightarrow> map_ok pid num m' (map (relocate s) cs) d"
  by (simp add: map_ok_def same_pmap_def sorted_wrt_map)

lemma owner_relocate:
  "owner M (C(v := map (relocate s) (C v))) k i j = owner M C k i j"
  by (auto simp: owner_def)

lemma pinv_relocate:
  assumes p: "pinv pid F pr M C D" and i: "i < length M" and m: "same_pmap (M ! i) m'"
  defines "v \<equiv> mo_vma_id (M ! i)"
  assumes F: "F' (fproc pid) = Some (proc_file pr (M[i := m']))"
      "F' (fchunks pid v) = Some (chunk_file (map (relocate s) (C v)))"
      "\<And>f. f \<noteq> fproc pid \<Longrightarrow> f \<noteq> fchunks pid v \<Longrightarrow> F' f = F f"
  shows "pinv pid F' pr (M[i := m']) (C(v := map (relocate s) (C v))) D"
    and "entries_of (M[i := m']) (C(v := map (relocate s) (C v))) D = entries_of M C D"
proof -
  let ?C = "C(v := map (relocate s) (C v))" and ?M = "M[i := m']"
  have d: "distinct (map mo_vma_id M)" and u: "uniq M C" using p by (simp_all add: pinv_def)
  have vm: "map mo_vma_id ?M = map mo_vma_id M"
    using i m by (intro map_list_update_same) (simp_all add: same_pmap_def)
  have "uniq ?M ?C" using u unfolding uniq_def owner_same_vmas [OF vm] owner_relocate .
  moreover have "F' (fchunks pid (mo_vma_id m)) = Some (chunk_file (?C (mo_vma_id m))) \<and>
      F' (fdata pid (mo_vma_id m)) = Some (DataFile (D (mo_vma_id m))) \<and>
      map_ok pid (unat (pr_num_mmaps pr)) m (?C (mo_vma_id m)) (D (mo_vma_id m))" if mM: "m \<in> set ?M" for m
  proof -
    obtain i' where i': "i' < length M" "m = ?M ! i'" using mM by (auto simp: in_set_conv_nth)
    show ?thesis
    proof (cases "i' = i")
      case True
      then have "m = m'" "mo_vma_id m' = v" using i' m by (simp_all add: v_def same_pmap_def)
      then show ?thesis using F pinv_map(2) [OF p, of "M ! i"] i map_ok_relocate [OF pinv_map(3) [OF p, of "M ! i"] m]
        by (simp add: v_def)
    next
      case False
      then have "m = M ! i'" "mo_vma_id m \<noteq> v"
        using i' distinct_map_nth_eq [OF d i'(1) i] by (auto simp: v_def)
      then show ?thesis using F(3) pinv_map [OF p, of m] i' by simp
    qed
  qed
  ultimately show "pinv pid F' pr ?M ?C D" using p F(1) vm by (simp add: pinv_def)
  have e: "entries_of M C D = concat (map (\<lambda>v. chunk_objs (D v) (C v)) (map mo_vma_id M))" for M C
    by (simp add: entries_of_def o_def)
  show "entries_of ?M ?C D = entries_of M C D"
    unfolding e vm by (intro arg_cong [of _ _ concat] map_cong) simp_all
qed

section \<open>The chunks of a mapping\<close>

lemma nat_sint_small: "unat (x :: UINT) < 2 ^ 31 \<Longrightarrow> nat (sint x) = unat x"
proof -
  assume x: "unat x < 2 ^ 31"
  have "uint x < int (2 ^ 31)" using x by (metis of_nat_less_iff uint_nat)
  then have "uint x < 2 ^ 31" by simp
  moreover have "- (2 ^ 31) \<le> uint x" by (rule order_trans [OF _ uint_ge_0]) simp
  ultimately have "sint x = uint x" unfolding sint_uint by (intro signed_take_bit_int_eq_self) simp_all
  then show ?thesis by (simp only: unat_eq_nat_uint)
qed

lemma fold_option_snoc:
  "fold_option f s (xs @ [x]) = do { s \<leftarrow> fold_option f s xs; f s x }"
  by (induction xs arbitrary: s) (auto simp: Option.bind_assoc)

text \<open>The state after \<open>n\<close> rounds of the loop over the chunks of entry \<open>i\<close>.\<close>

definition restored :: "UINT \<Rightarrow> nvst \<Rightarrow> proc_s \<Rightarrow> mmapobj_s list \<Rightarrow> nat \<Rightarrow> chunkobj_s list \<Rightarrow> nat \<Rightarrow>
    UINT \<Rightarrow> pptr rbtree \<Rightarrow> name_map \<Rightarrow> nvst" where
  "restored pid st pr M i cs n x t N =
     (let m = M ! i; v = mo_vma_id m in
      st\<lparr>fs := (fs st)(fproc pid \<mapsto> proc_file pr (M[i := m\<lparr>mo_mmap_offset := x\<rparr>]),
           fchunks pid v \<mapsto> chunk_file (map (relocate (mo_data_addr m)) (take n cs) @ drop n cs)),
         trees := (trees st)(mo_chunkobj_tree m \<mapsto> t), objnamemap := N\<rparr>)"

lemma update_step:
  "n < length xs \<Longrightarrow> (map f (take n xs) @ drop n xs)[n := f (xs ! n)] = map f (take (Suc n) xs) @ drop (Suc n) xs"
  by (rule nth_equalityI) (auto simp: nth_append nth_list_update less_Suc_eq min_def)

lemma nth_step: "n < length xs \<Longrightarrow> (map f (take n xs) @ drop n xs) ! n = xs ! n"
  by (simp add: nth_append)

lemma chunk_index_take_Suc:
  "n < length cs \<Longrightarrow> chunk_index pid v (take (Suc n) cs) =
    (if live (cs ! n) then (chunk_index pid v (take n cs))(ucast (ch_chunkid (cs ! n)) \<mapsto> chptr pid v n)
     else chunk_index pid v (take n cs))"
  by (simp add: take_Suc_conv_app_nth chunk_index_snoc min_def)

text \<open>What the loop needs of the state it starts from.\<close>

definition restorable :: "UINT \<Rightarrow> nvst \<Rightarrow> mmapobj_s list \<Rightarrow> nat \<Rightarrow> chunkobj_s list \<Rightarrow> bool" where
  "restorable pid st M i cs \<longleftrightarrow> i < length M \<and> length M \<le> MAX_MMAPS \<and> length cs \<le> MAX_CHUNKS \<and>
     mo_chunkobj_tree (M ! i) \<noteq> 0 \<and> mo_chunkobj_tree (M ! i) < next_tree st \<and>
     maps_to (mmaps st) (mo_strt_addr (M ! i)) MMAP_METADATA_SZ (fchunks pid (mo_vma_id (M ! i))) \<and>
     (\<forall>c \<in> set cs. live c \<longrightarrow> ch_length c \<noteq> 0)"

lemma restored_get:
  assumes "restorable pid st M i cs"
  shows "get_mmapobj (restored pid st pr M i cs n x t N) (moptr pid i) = Some ((M ! i)\<lparr>mo_mmap_offset := x\<rparr>)"
  using assms unfolding restored_def Let_def restorable_def
  by (subst get_mmapobj_file [where pr = pr and M = "M[i := (M ! i)\<lparr>mo_mmap_offset := x\<rparr>]"]) simp_all

lemma restore_chunk_step:
  assumes r: "restorable pid st M i cs" and n: "n < length cs"
    and t: "rbtree_repr t (chunk_index pid (mo_vma_id (M ! i)) (take n cs))"
  shows "\<exists>x' t' N'. restore_chunk (moptr pid i) (restored pid st pr M i cs n x t N) n =
      Some (restored pid st pr M i cs (Suc n) x' t' N') \<and>
    rbtree_repr t' (chunk_index pid (mo_vma_id (M ! i)) (take (Suc n) cs))"
proof -
  let ?v = "mo_vma_id (M ! i)" and ?s = "mo_data_addr (M ! i)" and ?T = "mo_chunkobj_tree (M ! i)"
  let ?m = "(M ! i)\<lparr>mo_mmap_offset := x\<rparr>" and ?S = "\<lambda>n x t N. restored pid st pr M i cs n x t N"
  let ?L = "\<lambda>n. map (relocate ?s) (take n cs) @ drop n cs"
  have b: "i < length M" "length M \<le> MAX_MMAPS" "length cs \<le> MAX_CHUNKS" "?T \<noteq> 0" "?T < next_tree st"
    and ma: "maps_to (mmaps st) (mo_strt_addr (M ! i)) MMAP_METADATA_SZ (fchunks pid ?v)"
    using r by (simp_all add: restorable_def)
  have off: "of_nat (n * sizeof_chunkobj_s) = (of_nat (ch_off n) :: ULONG)" by (simp add: ch_off_def mult.commute)
  have "ch_off n < MMAP_METADATA_SZ" using ch_off_bound n b(3) by simp
  then have res: "resolve (mmaps st) (mo_strt_addr (M ! i) + of_nat (n * sizeof_chunkobj_s)) = Some (chptr pid ?v n)"
    unfolding off by (rule resolve_maps_to [OF ma])
  have Fc: "fs (?S k y t N) (fchunks pid ?v) = Some (chunk_file (?L k))" for k y t N
    by (simp add: restored_def Let_def)
  have gc: "get_chunkobj (?S k y t N) (chptr pid ?v n) = Some (?L k ! n)" for k y t N
    using n b(3) Fc by (intro get_chunkobj_file) simp_all
  have L: "?L n ! n = cs ! n" by (rule nth_step [OF n])
  have fin: "upd_mmapobj (?S k y t N) (moptr pid i) (\<lambda>m. m\<lparr>mo_mmap_offset := mo_mmap_offset m + of_nat sizeof_chunkobj_s\<rparr>) =
      Some (?S k (y + of_nat sizeof_chunkobj_s) t N)" for k y t N
    unfolding restored_def Let_def using b
    by (subst upd_mmapobj_file [where pr = pr and M = "M[i := (M ! i)\<lparr>mo_mmap_offset := y\<rparr>]"]) (simp_all add: upd_twice)
  have sm: "mmaps (?S n x t N) = mmaps st" by (simp add: restored_def Let_def)
  show ?thesis
  proof (cases "live (cs ! n)")
    case False
    then have "?L (Suc n) = ?L n" using update_step [OF n, of "relocate ?s"] L
      by (metis relocate_def list_update_id)
    then have "?S (Suc n) y t N = ?S n y t N" for y t N by (simp add: restored_def)
    moreover have "ch_valid (cs ! n) = INVALID" using False by (simp add: live_def)
    ultimately have "restore_chunk (moptr pid i) (?S n x t N) n = Some (?S (Suc n) (x + of_nat sizeof_chunkobj_s) t N)"
      using restored_get [OF r] gc L res sm fin by (simp add: restore_chunk_def)
    then show ?thesis using t False chunk_index_take_Suc [OF n, of pid ?v] by auto
  next
    case True
    have up: "upd_chunkobj (?S n x t N) (chptr pid ?v n) (\<lambda>c. c\<lparr>ch_nv_ptr := ?s + ucast (ch_offset c)\<rparr>) =
        Some (?S (Suc n) x t N)"
      using n b(3) Fc [of n x t N] True L update_step [OF n, of "relocate ?s"]
      by (subst upd_chunkobj_file [where cs = "?L n"]) (simp_all add: restored_def Let_def relocate_def)
    have tr: "tree_repr (?S (Suc n) x t N) ?T (chunk_index pid ?v (take n cs))"
      using t b by (simp add: tree_repr_def restored_def Let_def)
    obtain t' where t': "tree_insert (?S (Suc n) x t N) ?T (ucast (ch_chunkid (cs ! n))) (chptr pid ?v n) =
        Some ((?S (Suc n) x t N)\<lparr>trees := (trees (?S (Suc n) x t N))(?T \<mapsto> t')\<rparr>)"
      "rbtree_repr t' ((chunk_index pid ?v (take n cs))(ucast (ch_chunkid (cs ! n)) \<mapsto> chptr pid ?v n))"
      using tree_insert_repr [OF tr] by blast
    have Ln: "?L (Suc n) ! n = relocate ?s (cs ! n)" using n by (simp add: nth_append)
    let ?N = "objnamemap_insert (ch_objname (cs ! n)) 0 N"
    have len: "ch_length (cs ! n) \<noteq> 0" using r True n by (simp add: restorable_def)
    have "add_chunkobj (?S (Suc n) x t N) (moptr pid i) (chptr pid ?v n) = Some (?S (Suc n) x t' ?N)"
      using restored_get [OF r] gc Ln len b(4) t'(1)
      by (simp add: add_chunkobj_def) (simp add: restored_def Let_def)
    then have "restore_chunk (moptr pid i) (?S n x t N) n = Some (?S (Suc n) (x + of_nat sizeof_chunkobj_s) t' ?N)"
      using restored_get [OF r] gc L res sm up fin True by (simp add: restore_chunk_def live_def)
    then show ?thesis using t'(2) True chunk_index_take_Suc [OF n, of pid ?v] by auto
  qed
qed

lemma restore_chunks:
  assumes r: "restorable pid st M i cs" and F: "fs st (fproc pid) = Some (proc_file pr M)"
      "fs st (fchunks pid (mo_vma_id (M ! i))) = Some (chunk_file cs)"
    and t: "trees st (mo_chunkobj_tree (M ! i)) = Some rbtree_create" and n: "n \<le> length cs"
  shows "\<exists>x t N. fold_option (restore_chunk (moptr pid i)) st [0..<n] = Some (restored pid st pr M i cs n x t N) \<and>
    rbtree_repr t (chunk_index pid (mo_vma_id (M ! i)) (take n cs))"
  using n
proof (induction n)
  case 0
  have "(fs st)(fproc pid \<mapsto> proc_file pr M, fchunks pid (mo_vma_id (M ! i)) \<mapsto> chunk_file cs) = fs st"
    using F by (auto simp: fun_eq_iff)
  moreover have "(M ! i)\<lparr>mo_mmap_offset := mo_mmap_offset (M ! i)\<rparr> = M ! i" by simp
  moreover have "(trees st)(mo_chunkobj_tree (M ! i) \<mapsto> rbtree_create) = trees st" using t by auto
  ultimately have "restored pid st pr M i cs 0 (mo_mmap_offset (M ! i)) rbtree_create (objnamemap st) = st"
    by (simp add: restored_def Let_def)
  then show ?case using rbmap.repr_create
    by (intro exI [of _ "mo_mmap_offset (M ! i)"] exI [of _ rbtree_create] exI [of _ "objnamemap st"]) simp
next
  case (Suc n)
  then obtain x t N where s: "fold_option (restore_chunk (moptr pid i)) st [0..<n] = Some (restored pid st pr M i cs n x t N)"
    "rbtree_repr t (chunk_index pid (mo_vma_id (M ! i)) (take n cs))" by auto
  then show ?case using restore_chunk_step [OF r _ s(2), of pr x N] Suc.prems by (auto simp: fold_option_snoc)
qed

section \<open>One mapping\<close>

lemma restore_chunk_objs_ok:
  assumes F: "fs st (fproc pid) = Some (proc_file pr M)" "fs st (fchunks pid v) = Some (chunk_file cs)"
      "fs st (fdata pid v) = Some (DataFile d)"
    and i: "i < length M" "length M \<le> MAX_MMAPS" "mo_vma_id (M ! i) = v" and ok: "map_ok pid num (M ! i) cs d" "cs \<noteq> []"
    and os: "os_ok os" "maps_wf (mmaps st)" "Suc (length (mmaps st)) < MAX_MAP_COUNT" and nt: "0 < next_tree st"
  shows "\<exists>m' ms t N. restore_chunk_objs os st (moptr pid i) = Some (st\<lparr>fs := (fs st)(fproc pid \<mapsto> proc_file pr (M[i := m']),
        fchunks pid v \<mapsto> chunk_file (map (relocate (mo_data_addr m')) cs)), mmaps := ms,
      trees := (trees st)(next_tree st \<mapsto> t), next_tree := Suc (next_tree st), objnamemap := N\<rparr>) \<and>
    same_pmap (M ! i) m' \<and> mo_chunk_tree_init m' \<noteq> 0 \<and> mo_chunkobj_tree m' = next_tree st \<and>
    maps_to ms (mo_strt_addr m') MMAP_METADATA_SZ (fchunks pid v) \<and> maps_to ms (mo_data_addr m') (length d) (fdata pid v) \<and>
    rbtree_repr t (chunk_index pid v cs) \<and> maps_wf ms \<and> map_ext (mmaps st) ms \<and>
    length ms = Suc (Suc (length (mmaps st)))"
proof -
  let ?nt = "next_tree st"
  let ?w = "\<lambda>ms m. st\<lparr>fs := (fs st)(fproc pid \<mapsto> proc_file pr (M[i := m])), mmaps := ms\<rparr>"
  define m1 where "m1 = (M ! i)\<lparr>mo_chunk_tree_init := 0\<rparr>"
  have md: "mo_proc_id (M ! i) = pid" "unat (mo_numchunks (M ! i)) = length cs" "length cs \<le> MAX_CHUNKS"
    "unat (mo_length (M ! i)) = length d" "0 < length d" "length d \<le> 2 ^ 32"
    "\<forall>c \<in> set cs. live c \<longrightarrow> ch_length c \<noteq> 0"
    using ok(1) map_ok_count [OF ok(1)] by (auto simp: map_ok_def chunk_ok_def unat_of_nat)
  have nc: "nat (sint (mo_numchunks (M ! i))) = length cs"
    using md(2,3) nat_sint_small [of "mo_numchunks (M ! i)"] by (simp add: MAX_CHUNKS_def)
  have nc0: "mo_numchunks (M ! i) \<noteq> 0" using md(2) ok(2) by auto
  have sz: "unat (of_nat MMAP_METADATA_SZ :: ULONG) = MMAP_METADATA_SZ" "MMAP_METADATA_SZ \<le> 2 ^ 32" "0 < MMAP_METADATA_SZ"
    by (simp_all add: sizes)
  have get: "get_mmapobj (?w ms m) (moptr pid i) = Some m" for ms m
    using i by (subst get_mmapobj_file [where pr = pr and M = "M[i := m]"]) simp_all
  have upd: "upd_mmapobj (?w ms m) (moptr pid i) f = Some (?w ms (f m))" for ms m f
    using i by (subst upd_mmapobj_file [where pr = pr and M = "M[i := m]"]) simp_all
  have u1: "upd_mmapobj st (moptr pid i) (\<lambda>m. m\<lparr>mo_chunk_tree_init := 0\<rparr>) = Some (?w (mmaps st) m1)"
    using upd_mmapobj_file [OF F(1) i(1,2)] by (simp add: m1_def)
  have g0: "get_mmapobj st (moptr pid i) = Some (M ! i)" using get_mmapobj_file [OF F(1) i(1,2)] .
  have "maps_wf (mmaps (?w (mmaps st) m1))" "length (mmaps (?w (mmaps st) m1)) < MAX_MAP_COUNT" using os by simp_all
  then obtain a ms where mm: "sys_mmap os (?w (mmaps st) m1) MMAP_METADATA_SZ (fchunks pid v) = ((?w (mmaps st) m1)\<lparr>mmaps := ms\<rparr>, a)"
    "a \<noteq> 0" "a \<noteq> MAP_FAILED" "maps_wf ms" "length ms = Suc (length (mmaps (?w (mmaps st) m1)))"
    "maps_to ms a MMAP_METADATA_SZ (fchunks pid v)" "map_ext (mmaps (?w (mmaps st) m1)) ms"
    using sys_mmap_ok [OF os(1) _ _ sz(3,2)] by metis
  define m2 where "m2 = m1\<lparr>mo_strt_addr := a, mo_mmap_offset := 0\<rparr>"
  have "maps_wf (mmaps (?w ms m2))" "length (mmaps (?w ms m2)) < MAX_MAP_COUNT" using os mm(4,5) by simp_all
  then obtain b ms' where mm': "sys_mmap os (?w ms m2) (length d) (fdata pid v) = ((?w ms m2)\<lparr>mmaps := ms'\<rparr>, b)"
    "b \<noteq> 0" "maps_wf ms'" "length ms' = Suc (length (mmaps (?w ms m2)))"
    "maps_to ms' b (length d) (fdata pid v)" "map_ext (mmaps (?w ms m2)) ms'"
    using sys_mmap_ok [OF os(1) _ _ md(5,6)] by metis
  define m3 where "m3 = m2\<lparr>mo_data_addr := b, mo_chunkobj_tree := ?nt, mo_chunk_tree_init := 1\<rparr>"
  let ?st3 = "(?w ms' m3)\<lparr>trees := (trees st)(?nt \<mapsto> rbtree_create), next_tree := Suc ?nt\<rparr>"
  have m3: "same_pmap (M ! i) m3" "mo_chunkobj_tree m3 = ?nt" "mo_data_addr m3 = b" "mo_strt_addr m3 = a" "mo_vma_id m3 = v"
    using i by (simp_all add: m3_def m2_def m1_def same_pmap_def)
  have tr: "init_chunk_tree (?w ms' (m2\<lparr>mo_data_addr := b\<rparr>)) (moptr pid i) = Some ?st3"
    unfolding init_chunk_tree_def new_tree_def Let_def prod.case
    using i by (subst upd_mmapobj_file [where pr = pr and M = "M[i := m2\<lparr>mo_data_addr := b\<rparr>]"]) (simp_all add: m3_def)
  have r: "restorable pid ?st3 (M[i := m3]) i cs"
    using i md m3 nt mm(6) mm'(6) maps_to_ext by (auto simp: restorable_def)
  obtain x t N where lp: "fold_option (restore_chunk (moptr pid i)) ?st3 [0..<length cs] =
      Some (restored pid ?st3 pr (M[i := m3]) i cs (length cs) x t N)"
    and t: "rbtree_repr t (chunk_index pid v cs)"
    using restore_chunks [OF r, of pr "length cs"] F i m3 by auto
  let ?m = "m3\<lparr>mo_mmap_offset := x\<rparr>"
  have res: "restore_chunk_objs os st (moptr pid i) = Some (restored pid ?st3 pr (M[i := m3]) i cs (length cs) x t N)"
    using g0 u1 mm(1,2,3) mm'(1,2) tr lp md(1,4) nc nc0 sz(1) i(3) F get upd
    by (simp add: restore_chunk_objs_def map_to_get_chunk_list_def Let_def fchunks_def [symmetric] fdata_def [symmetric]
        m1_def m2_def)
  have eq: "restored pid ?st3 pr (M[i := m3]) i cs (length cs) x t N =
     st\<lparr>fs := (fs st)(fproc pid \<mapsto> proc_file pr (M[i := ?m]),
        fchunks pid v \<mapsto> chunk_file (map (relocate (mo_data_addr ?m)) cs)), mmaps := ms',
      trees := (trees st)(?nt \<mapsto> t), next_tree := Suc ?nt, objnamemap := N\<rparr>"
    using i m3 by (simp add: restored_def Let_def)
  have "map_ext (mmaps st) ms'" using mm(7) mm'(6) map_ext_trans by auto
  moreover have "maps_to ms' a MMAP_METADATA_SZ (fchunks pid v)" using mm(6) mm'(6) maps_to_ext by auto
  ultimately show ?thesis using res [unfolded eq] m3 mm(5) mm'(3-5) t
    by (intro exI [of _ ?m] exI [of _ ms'] exI [of _ t] exI [of _ N])
      (simp add: same_pmap_def m3_def)
qed

lemma load_mmapobj_ok:
  assumes p: "pinv pid (fs st) pr M C D" and vi: "vinv pid st pr (take i M) C D" and i: "i < length M"
    and ne: "C (mo_vma_id (M ! i)) \<noteq> []" and os: "os_ok os" "Suc (length (mmaps st)) < MAX_MAP_COUNT"
  shows "\<exists>st' M' C'. load_mmapobj os (pptr_of pid) st i = Some st' \<and> pinv pid (fs st') pr M' C' D \<and>
    vinv pid st' pr (take (Suc i) M') C' D \<and> map mo_vma_id M' = map mo_vma_id M \<and>
    objects pid (fs st') = objects pid (fs st) \<and> (\<forall>v. length (C' v) = length (C v)) \<and>
    length (mmaps st') = Suc (Suc (length (mmaps st))) \<and> map_tree st' = map_tree st"
proof -
  let ?v = "mo_vma_id (M ! i)" and ?T = "pr_mmapobj_tree pr"
  have F: "fs st (fproc pid) = Some (proc_file pr M)" and l: "length M \<le> MAX_MMAPS" and d: "distinct (map mo_vma_id M)"
    using p by (simp_all add: pinv_def)
  note f = pinv_map [OF p nth_mem [OF i]]
  have wf: "maps_wf (mmaps st)" "\<not> use_map_cache st" and tr: "tree_repr st ?T (mmap_index pid (take i M))" "pr_mmapobj_initialized pr \<noteq> 0"
    using vi by (simp_all add: vinv_def vproc_def)
  obtain t where t: "tree_insert st ?T (ucast ?v) (moptr pid i) = Some (st\<lparr>trees := (trees st)(?T \<mapsto> t)\<rparr>)"
    "rbtree_repr t ((mmap_index pid (take i M))(ucast ?v \<mapsto> moptr pid i))"
    using tree_insert_repr [OF tr(1)] by blast
  let ?m1 = "(M ! i)\<lparr>mo_proc_obj := Some (pptr_of pid)\<rparr>"
  let ?M1 = "M[i := ?m1]"
  let ?st1 = "st\<lparr>fs := (fs st)(fproc pid \<mapsto> proc_file pr ?M1), trees := (trees st)(?T \<mapsto> t)\<rparr>"
  have u: "upd_mmapobj (st\<lparr>trees := (trees st)(?T \<mapsto> t)\<rparr>) (moptr pid i) (\<lambda>m. m\<lparr>mo_proc_obj := Some (pptr_of pid)\<rparr>) = Some ?st1"
    using F i l by (subst upd_mmapobj_file [where pr = pr and M = M]) simp_all
  have add: "add_mmapobj st (moptr pid i) (pptr_of pid) = Some ?st1"
    using get_proc_file [OF F] get_mmapobj_file [OF F i l] t(1) u tr wf(2)
    by (simp add: add_mmapobj_def tree_repr_def)
  have nt: "0 < next_tree st" "?T < next_tree st" using tr(1) by (auto simp: tree_repr_def)
  have pm: "same_pmap (M ! i) ?m1" by (simp add: same_pmap_def)
  have mok: "map_ok pid (unat (pr_num_mmaps pr)) (?M1 ! i) (C ?v) (D ?v)" using f(3) i by (simp add: map_ok_def)
  obtain m' ms u N where r: "restore_chunk_objs os ?st1 (moptr pid i) = Some (?st1\<lparr>fs := (fs ?st1)(fproc pid \<mapsto> proc_file pr (?M1[i := m']),
        fchunks pid ?v \<mapsto> chunk_file (map (relocate (mo_data_addr m')) (C ?v))), mmaps := ms,
      trees := (trees ?st1)(next_tree ?st1 \<mapsto> u), next_tree := Suc (next_tree ?st1), objnamemap := N\<rparr>)"
    and m': "same_pmap (?M1 ! i) m'" "mo_chunk_tree_init m' \<noteq> 0" "mo_chunkobj_tree m' = next_tree ?st1"
      "maps_to ms (mo_strt_addr m') MMAP_METADATA_SZ (fchunks pid ?v)" "maps_to ms (mo_data_addr m') (length (D ?v)) (fdata pid ?v)"
    and u: "rbtree_repr u (chunk_index pid ?v (C ?v))"
    and ms: "maps_wf ms" "map_ext (mmaps ?st1) ms" "length ms = Suc (Suc (length (mmaps ?st1)))"
    using restore_chunk_objs_ok [of ?st1 pid pr ?M1 ?v "C ?v" "D ?v" i _ os] f(1,2) mok ne os wf(1) nt i l by fastforce
  let ?s = "mo_data_addr m'"
  let ?C = "C(?v := map (relocate ?s) (C ?v))" and ?F = "(fs st)(fproc pid \<mapsto> proc_file pr (M[i := m']),
    fchunks pid ?v \<mapsto> chunk_file (map (relocate ?s) (C ?v)))"
  let ?st2 = "st\<lparr>fs := ?F, mmaps := ms, trees := (trees st)(next_tree st \<mapsto> u, ?T \<mapsto> t), next_tree := Suc (next_tree st), objnamemap := N\<rparr>"
  have ld: "load_mmapobj os (pptr_of pid) st i = Some ?st2"
    using add r nt(2) by (simp add: load_mmapobj_def mo_off_def mult.commute fun_upd_twist)
  have pm': "same_pmap (M ! i) m'" using m'(1) i by (simp add: same_pmap_def)
  have p2: "pinv pid ?F pr (M[i := m']) ?C D" and e2: "entries_of (M[i := m']) ?C D = entries_of M C D"
    using pinv_relocate [OF p i pm', of ?F ?s] by simp_all
  have vm: "map mo_vma_id (M[i := m']) = map mo_vma_id M" 
    using i pm' by (intro map_list_update_same) (simp_all add: same_pmap_def)
  have tk: "take (Suc i) (M[i := m']) = take i M @ [m']" using i by (simp add: take_Suc_conv_app_nth)
  have fr: "\<forall>m \<in> set (take i M). mo_vma_id m \<noteq> ?v"
  proof
    fix m assume "m \<in> set (take i M)"
    then obtain j where "j < i" "m = M ! j" using i by (auto simp: in_set_conv_nth)
    then show "mo_vma_id m \<noteq> ?v" using distinct_map_nth_eq [OF d, of j i] i by auto
  qed
  have v': "mo_vma_id m' = ?v" using pm' by (simp add: same_pmap_def)
  have ci: "chunk_index pid ?v (map (relocate ?s) (C ?v)) = chunk_index pid ?v (C ?v)"
    unfolding chunk_index_def length_map by (rule index_cong) simp
  have mi: "mmap_index pid (take i M @ [m']) = (mmap_index pid (take i M))(ucast ?v \<mapsto> moptr pid i)"
    using i v' by (simp add: mmap_index_snoc min_def)
  have "vinv pid (st\<lparr>mmaps := ms, trees := (trees st)(next_tree st \<mapsto> u, ?T \<mapsto> t), next_tree := Suc (next_tree st)\<rparr>)
      pr (take i M @ [m']) ?C D"
    using m' v' ms u t(2) ci mi by (intro vinv_add_map [OF vi fr]) (auto simp: relocate_def live_def)
  moreover have "vinv pid ?st2 = vinv pid (st\<lparr>mmaps := ms, trees := (trees st)(next_tree st \<mapsto> u, ?T \<mapsto> t), next_tree := Suc (next_tree st)\<rparr>)"
    by (rule vinv_cong) simp_all
  ultimately have v2: "vinv pid ?st2 pr (take (Suc i) (M[i := m'])) ?C D" unfolding tk by simp
  have "objects pid ?F = objects pid (fs st)" using e2 by (simp add: objects_pinv [OF p] objects_pinv [OF p2])
  then show ?thesis using ld p2 v2 vm ms(3)
    by (intro exI [of _ ?st2] exI [of _ "M[i := m']"] exI [of _ ?C]) simp
qed

section \<open>The process\<close>

lemma load_mmapobjs:
  assumes p: "pinv pid (fs st) pr M C D" and vi: "vinv pid st pr [] C D"
    and ne: "\<forall>m \<in> set M. C (mo_vma_id m) \<noteq> []" and os: "os_ok os" "length (mmaps st) + 2 * length M < MAX_MAP_COUNT"
    and n: "n \<le> length M"
  shows "\<exists>st' M' C'. fold_option (load_mmapobj os (pptr_of pid)) st [0..<n] = Some st' \<and> pinv pid (fs st') pr M' C' D \<and>
    vinv pid st' pr (take n M') C' D \<and> map mo_vma_id M' = map mo_vma_id M \<and>
    objects pid (fs st') = objects pid (fs st) \<and> (\<forall>v. length (C' v) = length (C v)) \<and>
    length (mmaps st') = length (mmaps st) + 2 * n \<and> map_tree st' = map_tree st"
  using n
proof (induction n)
  case 0
  show ?case using p vi by (intro exI [of _ st] exI [of _ M] exI [of _ C]) simp
next
  case (Suc n)
  then obtain st' M' C' where IH: "fold_option (load_mmapobj os (pptr_of pid)) st [0..<n] = Some st'"
    "pinv pid (fs st') pr M' C' D" "vinv pid st' pr (take n M') C' D" and M': "map mo_vma_id M' = map mo_vma_id M"
    and s': "objects pid (fs st') = objects pid (fs st)" "\<forall>v. length (C' v) = length (C v)"
      "length (mmaps st') = length (mmaps st) + 2 * n" "map_tree st' = map_tree st" by auto
  have n: "n < length M'" "n < length M" using Suc.prems map_eq_imp_length_eq [OF M'] by simp_all
  have "mo_vma_id (M' ! n) = mo_vma_id (M ! n)" using M' n by (metis nth_map)
  then have "C (mo_vma_id (M' ! n)) \<noteq> []" using ne n(2) by simp
  then have "C' (mo_vma_id (M' ! n)) \<noteq> []" using s'(2) by (metis length_0_conv)
  moreover have "Suc (length (mmaps st')) < MAX_MAP_COUNT" using s'(3) os(2) n(2) by simp
  ultimately obtain st'' M'' C'' where "load_mmapobj os (pptr_of pid) st' n = Some st''" "pinv pid (fs st'') pr M'' C'' D"
    "vinv pid st'' pr (take (Suc n) M'') C'' D" "map mo_vma_id M'' = map mo_vma_id M'"
    "objects pid (fs st'') = objects pid (fs st')" "\<forall>v. length (C'' v) = length (C' v)"
    "length (mmaps st'') = Suc (Suc (length (mmaps st')))" "map_tree st'' = map_tree st'"
    using load_mmapobj_ok [OF IH(2,3) n(1) _ os(1)] by auto
  then show ?case using IH(1) M' s' by (intro exI [of _ st''] exI [of _ M''] exI [of _ C'']) (simp add: fold_option_snoc)
qed

lemma pinv_pr:
  assumes "pinv pid F pr M C D" and "pr' = pr\<lparr>pr_mmapobj_tree := t, pr_mmapobj_initialized := b\<rparr>"
  shows "pinv pid (F(fproc pid \<mapsto> proc_file pr' M)) pr' M C D"
  using assms by (simp add: pinv_def)

text \<open>The state of a process that has not loaded anything.\<close>

definition unloaded :: "nvst \<Rightarrow> bool" where
  "unloaded st \<longleftrightarrow> mmaps st = [] \<and> \<not> proc_list_init st \<and> 0 < next_tree st \<and> map_tree st = None \<and>
     \<not> enable_optimze st \<and> \<not> use_map_cache st \<and> \<not> enable_trans st"

definition proc_files :: "nvst \<Rightarrow> UINT \<Rightarrow> (string \<rightharpoonup> nvfile)" where
  "proc_files st pid = (if fs st (fproc pid) = None
     then (fs st)(fproc pid \<mapsto> proc_file (intialize_proc_obj pid zero_proc) []) else fs st)"

lemma load_process_ok:
  assumes st: "unloaded st" "g_initialized st" and p: "pinv pid (proc_files st pid) pr M C D"
    and ne: "\<forall>m \<in> set M. C (mo_vma_id m) \<noteq> []" and os: "os_ok os"
  shows "\<exists>st' pr' M' C'. load_process os st pid = Some (st', pptr_of pid) \<and> store pid st' pr' M' C' D [] \<and>
    objects pid (fs st') = objects pid (proc_files st pid) \<and> pr_num_mmaps pr' = pr_num_mmaps pr \<and>
    length M' = length M \<and> length (mmaps st') = Suc (2 * length M)"
proof -
  let ?F = "proc_files st pid" and ?nt = "next_tree st"
  have F: "?F (fproc pid) = Some (proc_file pr M)" and l: "length M \<le> MAX_MMAPS" and pid: "pr_pid pr = pid"
    using p by (simp_all add: pinv_def)
  have fl: "(if check_existing_map_file st (fproc pid) then st else setup_map_file st (fproc pid)
      (ProcFile (intialize_proc_obj pid zero_proc) (\<lambda>_. zero_mmapobj))) = st\<lparr>fs := ?F\<rparr>"
    by (simp add: check_existing_map_file_def setup_map_file_def proc_files_def proc_file_def)
  have sz: "0 < PROC_METADAT_SZ" "PROC_METADAT_SZ \<le> 2 ^ 32" by (simp_all add: sizes)
  have "maps_wf (mmaps (st\<lparr>fs := ?F\<rparr>))" "length (mmaps (st\<lparr>fs := ?F\<rparr>)) < MAX_MAP_COUNT"
    using st(1) by (simp_all add: unloaded_def maps_wf_def MAX_MAP_COUNT_def)
  then obtain a ms where mm: "sys_mmap os (st\<lparr>fs := ?F\<rparr>) PROC_METADAT_SZ (fproc pid) = (st\<lparr>fs := ?F, mmaps := ms\<rparr>, a)"
    "a \<noteq> MAP_FAILED" "maps_wf ms" "length ms = Suc (length (mmaps (st\<lparr>fs := ?F\<rparr>)))" "maps_to ms a PROC_METADAT_SZ (fproc pid)"
    using sys_mmap_ok [OF os _ _ sz] by metis
  define pr1 where "pr1 = pr\<lparr>pr_mmapobj_initialized := 0, pr_mmapobj_tree := 0\<rparr>"
  define pr2 where "pr2 = pr\<lparr>pr_mmapobj_tree := ?nt, pr_mmapobj_initialized := 1\<rparr>"
  let ?st1 = "st\<lparr>fs := ?F, mmaps := ms, proc_map_start := a\<rparr>"
  let ?st2 = "?st1\<lparr>fs := ?F(fproc pid \<mapsto> proc_file pr1 M)\<rparr>"
  have cr: "create_or_load_proc_obj os st pid = Some (?st1, pptr_of pid)"
    using st(1) mm(1,2) fl unfolding create_or_load_proc_obj_def find_process_def fproc_def [symmetric]
    by (simp add: unloaded_def Let_def)
  have u: "upd_proc ?st1 (pptr_of pid) (\<lambda>p. p\<lparr>pr_mmapobj_initialized := 0, pr_mmapobj_tree := 0\<rparr>) = Some ?st2"
    using F by (subst upd_proc_file [where pr = pr and M = M]) (simp_all add: pr1_def)
  obtain t where t: "rbtree_insert rbtree_create (scast pid) (pptr_of pid) IntComp = Some t"
    "rbtree_repr t [scast pid \<mapsto> pptr_of pid]"
    using rbmap.ins_repr [OF rbmap.repr_create, of "scast pid" "pptr_of pid"] by metis
  let ?st3 = "?st2\<lparr>proc_tree := t, proc_list_init := True\<rparr>"
  have g2: "get_proc ?st2 (pptr_of pid) = Some pr1" "get_proc ?st3 (pptr_of pid) = Some pr1"
    by (rule get_proc_file, simp)+
  have g2': "get_proc (?st2\<lparr>proc_tree := rbtree_create, proc_list_init := True\<rparr>) (pptr_of pid) = Some pr1"
    by (rule get_proc_file) simp
  have ap: "add_proc_obj ?st2 (pptr_of pid) = Some ?st3"
    using st(1) g2' t(1) pid by (simp add: add_proc_obj_def unloaded_def pr1_def)
  let ?st4 = "?st3\<lparr>fs := ?F(fproc pid \<mapsto> proc_file pr2 M), trees := (trees st)(?nt \<mapsto> rbtree_create), next_tree := Suc ?nt\<rparr>"
  have it: "initialize_mmapobj_tree ?st3 (pptr_of pid) = Some ?st4"
    using g2(2) st(1) unfolding initialize_mmapobj_tree_def new_tree_def Let_def prod.case
    by (simp add: unloaded_def pr1_def upd_proc_file pr2_def)
  have g4: "get_proc ?st4 (pptr_of pid) = Some pr2" by (rule get_proc_file) simp
  have p4: "pinv pid (fs ?st4) pr2 M C D" using pinv_pr [OF p pr2_def] by simp
  have v4: "vinv pid ?st4 pr2 [] C D"
  proof -
    have fl: "enable_optimze st = False" "use_map_cache st = False" "enable_trans st = False"
      using st(1) unfolding unloaded_def by simp_all
    have vp: "vproc pid ?st4" using fl st(2) t(2) mm(3,5) unfolding vproc_def by simp
    have "0 < ?nt" using st(1) unfolding unloaded_def by simp
    then have tr: "tree_repr ?st4 ?nt (mmap_index pid [])" by (simp add: tree_repr_def rbmap.repr_create)
    have pr2: "pr_mmapobj_initialized pr2 = 1" "pr_mmapobj_tree pr2 = ?nt" by (simp_all add: pr2_def)
    show ?thesis unfolding vinv_def pr2 by (intro conjI vp tr) simp_all
  qed
  have "length (mmaps ?st4) + 2 * length M < MAX_MAP_COUNT"
    using mm(4) l st(1) by (simp add: unloaded_def MAX_MMAPS_def MAX_MAP_COUNT_def)
  then obtain st' M' C' where lp: "fold_option (load_mmapobj os (pptr_of pid)) ?st4 [0..<length M] = Some st'"
    and p': "pinv pid (fs st') pr2 M' C' D" and v': "vinv pid st' pr2 (take (length M) M') C' D"
    and M': "map mo_vma_id M' = map mo_vma_id M" and s': "objects pid (fs st') = objects pid (fs ?st4)"
      "\<forall>v. length (C' v) = length (C v)" "length (mmaps st') = length (mmaps ?st4) + 2 * length M" "map_tree st' = map_tree ?st4"
    using load_mmapobjs [OF p4 v4 ne os _ order.refl] by blast
  have n: "nat (sint (pr_pesist_mmaps pr2)) = length M"
    using pinv_count [OF p4] l nat_sint_small [of "pr_pesist_mmaps pr2"] by (simp add: MAX_MMAPS_def)
  have "load_process os st pid = Some (st', pptr_of pid)"
    using st(2) cr u ap it g4 lp n by (simp add: load_process_def)
  moreover have lM: "length M' = length M" using M' by (rule map_eq_imp_length_eq)
  moreover have "rinv pid st' pr2 M' D []" using s'(4) st(1) by (simp add: rinv_def unloaded_def)
  moreover have "\<forall>m \<in> set M'. C' (mo_vma_id m) \<noteq> []"
  proof
    fix m assume "m \<in> set M'"
    then have "mo_vma_id m \<in> set (map mo_vma_id M)" unfolding M' [symmetric] by simp
    then have "C (mo_vma_id m) \<noteq> []" using ne by auto
    then show "C' (mo_vma_id m) \<noteq> []" using s'(2) by (metis length_0_conv)
  qed
  moreover have "objects pid (fs ?st4) = objects pid ?F" using objects_pinv [OF p] objects_pinv [OF p4] by simp
  ultimately show ?thesis using p' v' s' mm(4) st(1)
    by (intro exI [of _ st'] exI [of _ pr2] exI [of _ M'] exI [of _ C']) (simp add: store_def unloaded_def pr2_def)
qed

text \<open>A restart with the files of a store.\<close>

lemma nv_initialize_files:
  assumes p: "pinv pid (proc_files st pid) pr M C D" and ne: "\<forall>m \<in> set M. C (mo_vma_id m) \<noteq> []" and os: "os_ok os"
    and st: "unloaded st" "\<not> g_initialized st"
  shows "\<exists>st' pr' M' C'. nv_initialize os st pid = Some st' \<and> store pid st' pr' M' C' D [] \<and>
    objects pid (fs st') = objects pid (proc_files st pid) \<and> pr_num_mmaps pr' = pr_num_mmaps pr \<and>
    length M' = length M \<and> length (mmaps st') = Suc (2 * length M)"
proof -
  let ?st = "st\<lparr>useCacheFlush := False, enable_optimze := False, use_map_cache := False, enable_trans := False,
    g_initialized := True\<rparr>"
  have "unloaded ?st" using st(1) by (simp add: unloaded_def)
  moreover have "proc_files ?st pid = proc_files st pid" by (simp add: proc_files_def)
  ultimately obtain st' pr' M' C' where "load_process os ?st pid = Some (st', pptr_of pid)" "store pid st' pr' M' C' D []"
    "objects pid (fs st') = objects pid (proc_files st pid)" "pr_num_mmaps pr' = pr_num_mmaps pr"
    "length M' = length M" "length (mmaps st') = Suc (2 * length M)"
    using load_process_ok [of ?st pid pr M C D os] p ne os by auto
  then show ?thesis using st(2)
    by (intro exI [of _ st'] exI [of _ pr'] exI [of _ M'] exI [of _ C']) (simp add: nv_initialize_def)
qed

lemma unloaded_restart [simp]: "unloaded (restart st)" "\<not> g_initialized (restart st)"
  by (simp_all add: unloaded_def restart_def)

lemma restart_store:
  assumes s: "store pid st pr M C D R" and os: "os_ok os"
  shows "\<exists>st' pr' M' C'. nv_initialize os (restart st) pid = Some st' \<and> store pid st' pr' M' C' D [] \<and>
    objects pid (fs st') = objects pid (fs st) \<and> pr_num_mmaps pr' = pr_num_mmaps pr \<and>
    length M' = length M \<and> length (mmaps st') = Suc (2 * length M)"
proof -
  have "fs st (fproc pid) \<noteq> None" using storeD(1) [OF s] by (simp add: pinv_def)
  then have F: "proc_files (restart st) pid = fs st" by (auto simp: proc_files_def restart_def)
  then show ?thesis using nv_initialize_files [of pid "restart st" pr M C D os] s os by (simp add: store_def)
qed

lemma pinv_first:
  assumes "F (fproc pid) = Some (proc_file (intialize_proc_obj pid zero_proc) [])"
  shows "pinv pid F (intialize_proc_obj pid zero_proc) [] C D"
  using assms by (simp add: pinv_def intialize_proc_obj_def uniq_def owner_def mo_off_def MAX_IDS_def)

text \<open>The first start of a process.\<close>

lemma first_start_store:
  assumes "unloaded st" and "\<not> g_initialized st" and "fs st (fproc pid) = None" and "os_ok os"
  shows "\<exists>st' pr'. nv_initialize os st pid = Some st' \<and> store pid st' pr' [] (\<lambda>_. []) (\<lambda>_. []) [] \<and>
    objects pid (fs st') = [] \<and> pr_num_mmaps pr' = 0 \<and> length (mmaps st') = 1"
proof -
  let ?pr = "intialize_proc_obj pid zero_proc"
  have p: "pinv pid (proc_files st pid) ?pr [] (\<lambda>_. []) (\<lambda>_. [])"
    using assms(3) by (intro pinv_first) (simp add: proc_files_def)
  obtain st' pr' M' C' where "nv_initialize os st pid = Some st'" "store pid st' pr' M' C' (\<lambda>_. []) []"
    "objects pid (fs st') = objects pid (proc_files st pid)" "pr_num_mmaps pr' = pr_num_mmaps ?pr" "M' = []"
    "length (mmaps st') = 1"
    using nv_initialize_files [OF p _ assms(4,1,2)] by auto
  moreover have "store pid st' pr' [] (\<lambda>_. []) (\<lambda>_. []) []" if "store pid st' pr' [] C' (\<lambda>_. []) []"
    using that by (simp add: store_def pinv_def vinv_def uniq_def owner_def)
  ultimately show ?thesis using objects_pinv [OF p] by (auto simp: entries_of_def intialize_proc_obj_def)
qed

end
