(* ===== verification/Simulation.thy ===== *)
theory Simulation
  imports Nv_Prelude
begin

text \<open>
  Runs of a step relation, and the contract under which they refine a specification: each step keeps
  the invariant and changes the abstraction of the state as the specification says.
\<close>

inductive runs :: "('s \<Rightarrow> 'e \<Rightarrow> 's \<Rightarrow> bool) \<Rightarrow> 's \<Rightarrow> 'e list \<Rightarrow> 's \<Rightarrow> bool" for step where
  runs_Nil: "runs step s [] s"
| runs_Cons: "step s e s' \<Longrightarrow> runs step s' es s'' \<Longrightarrow> runs step s (e # es) s''"

inductive_simps runs_Nil_iff [simp]: "runs step s [] s'"
inductive_simps runs_Cons_iff: "runs step s (e # es) s'"

lemma runs_append: "runs step s es s' \<Longrightarrow> runs step s' es' s'' \<Longrightarrow> runs step s (es @ es') s''"
  by (induction rule: runs.induct) (auto intro: runs_Cons)

lemma runs_single: "step s e s' \<Longrightarrow> runs step s [e] s'"
  by (simp add: runs_Cons_iff)

locale simulation =
  fixes step :: "'s \<Rightarrow> 'e \<Rightarrow> 's \<Rightarrow> bool" and inv :: "'s \<Rightarrow> bool" and abst :: "'s \<Rightarrow> 'a"
    and spec :: "'a \<Rightarrow> 'e \<Rightarrow> 'a"
  assumes step_inv: "inv s \<Longrightarrow> step s e s' \<Longrightarrow> inv s'"
    and step_abst: "inv s \<Longrightarrow> step s e s' \<Longrightarrow> abst s' = spec (abst s) e"
begin

lemma runs_inv: "runs step s es s' \<Longrightarrow> inv s \<Longrightarrow> inv s'"
  by (induction rule: runs.induct) (auto dest: step_inv)

lemma runs_abst: "runs step s es s' \<Longrightarrow> inv s \<Longrightarrow> abst s' = foldl spec (abst s) es"
  by (induction rule: runs.induct) (simp_all, metis step_inv step_abst)

end

end
