(* ===== verification/NvMap_Spec.thy ===== *)
theory NvMap_Spec
  imports NvMap_Load Simulation
begin

text \<open>
  The object store as its clients see it: a map from ids to objects, changed by the operations and
  not by a restart. The steps are the calls of the library with the conditions a client respects.
\<close>

section \<open>What a client can check\<close>

text \<open>The entries of the table of mappings, and the live chunks with the id of their mapping.\<close>

definition proc_entries :: "UINT \<Rightarrow> (string \<rightharpoonup> nvfile) \<Rightarrow> mmapobj_s list" where
  "proc_entries pid F = (case F (fproc pid) of
     Some (ProcFile pr ms) \<Rightarrow> map (\<lambda>i. ms (mo_off i)) [0..<unat (pr_pesist_mmaps pr)]
   | _ \<Rightarrow> [])"

definition map_chunks :: "UINT \<Rightarrow> (string \<rightharpoonup> nvfile) \<Rightarrow> mmapobj_s \<Rightarrow> chunkobj_s list" where
  "map_chunks pid F m = (case F (fchunks pid (mo_vma_id m)) of
     Some (ChunkFile g) \<Rightarrow> filter live (map (\<lambda>j. g (ch_off j)) [0..<unat (mo_numchunks m)])
   | _ \<Rightarrow> [])"

definition free_range :: "UINT \<Rightarrow> (string \<rightharpoonup> nvfile) \<Rightarrow> UINT \<Rightarrow> nat \<Rightarrow> nat \<Rightarrow> bool" where
  "free_range pid F v off n \<longleftrightarrow> (\<forall>m \<in> set (proc_entries pid F). mo_vma_id m = v \<longrightarrow>
     unat (mo_numchunks m) < MAX_CHUNKS \<and>
     (\<forall>c \<in> set (map_chunks pid F m). unat (ch_offset c) + unat (ch_length c) \<le> off \<or> off + n \<le> unat (ch_offset c)))"

definition data_size :: "UINT \<Rightarrow> (string \<rightharpoonup> nvfile) \<Rightarrow> UINT \<Rightarrow> nat" where
  "data_size pid F v = (case F (fdata pid v) of Some (DataFile d) \<Rightarrow> length d | _ \<Rightarrow> 0)"

text \<open>Addresses \<open>a\<close> to \<open>a + n\<close> were given out by \<open>nv_mmap\<close> and belong to no object.\<close>

definition placeable :: "UINT \<Rightarrow> nvst \<Rightarrow> ULONG \<Rightarrow> nat \<Rightarrow> bool" where
  "placeable pid st a n \<longleftrightarrow> (case locate_mmapobj_node st a of
     Some (v, s, _) \<Rightarrow> v \<noteq> 0 \<and> unat (a - s) + n \<le> data_size pid (fs st) v \<and>
       free_range pid (fs st) v (unat (a - s)) n
   | None \<Rightarrow> False)"

definition rq_ok :: "UINT \<Rightarrow> rqst_s \<Rightarrow> bool" where
  "rq_ok pid rq \<longleftrightarrow> rq_pid rq = pid \<and> pid \<noteq> 0 \<and> rq_chunkid rq \<noteq> 0"

definition rq_new :: "UINT \<Rightarrow> rqst_s \<Rightarrow> bool" where
  "rq_new pid rq \<longleftrightarrow> rq_ok pid rq \<and> rq_chunkid rq = gen_id_from_str (rq_var_name rq) \<and>
     rq_var_name rq \<noteq> [] \<and> length (rq_var_name rq) < MAXOBJNAMELEN \<and> 0 < unat (rq_bytes rq)"

definition num_ids :: "UINT \<Rightarrow> (string \<rightharpoonup> nvfile) \<Rightarrow> nat" where
  "num_ids pid F = (case F (fproc pid) of Some (ProcFile pr ms) \<Rightarrow> unat (pr_num_mmaps pr) | _ \<Rightarrow> 0)"

text \<open>Room for one more mapping, and for one more entry in the table of mappings.\<close>

definition map_room :: "UINT \<Rightarrow> nvst \<Rightarrow> bool" where
  "map_room pid st \<longleftrightarrow> length (mmaps st) < MAX_MAP_COUNT \<and> num_ids pid (fs st) + 1 < MAX_IDS"

definition tab_room :: "UINT \<Rightarrow> nvst \<Rightarrow> bool" where
  "tab_room pid st \<longleftrightarrow> length (mmaps st) < MAX_MAP_COUNT \<and> length (proc_entries pid (fs st)) < MAX_MMAPS"

section \<open>Under the invariant\<close>

lemma proc_entries_pinv: "pinv pid F pr M C D \<Longrightarrow> proc_entries pid F = M"
proof -
  assume p: "pinv pid F pr M C D"
  have "F (fproc pid) = Some (ProcFile pr (tab sizeof_proc_s sizeof_mmapobj_s zero_mmapobj M))"
    using p by (simp add: pinv_def proc_file_def)
  then show ?thesis
    using pinv_count [OF p] map_tab_upt [of sizeof_mmapobj_s sizeof_proc_s zero_mmapobj M]
    by (simp add: proc_entries_def mo_off_def)
qed

lemma map_chunks_pinv: "pinv pid F pr M C D \<Longrightarrow> m \<in> set M \<Longrightarrow> map_chunks pid F m = filter live (C (mo_vma_id m))"
  using pinv_map [of pid F pr M C D m] map_ok_count map_tab_upt [of sizeof_chunkobj_s 0 zero_chunkobj "C (mo_vma_id m)"]
  by (simp add: map_chunks_def chunk_file_def ch_off_def)

lemma num_ids_pinv: "pinv pid F pr M C D \<Longrightarrow> num_ids pid F = unat (pr_num_mmaps pr)"
  by (simp add: num_ids_def pinv_def proc_file_def)

lemma free_range_pinv:
  assumes p: "pinv pid F pr M C D" and f: "free_range pid F v off n"
  shows "unused M C v off n" and "v \<in> mo_vma_id ` set M \<Longrightarrow> length (C v) < MAX_CHUNKS"
proof -
  show "unused M C v off n"
    using f map_chunks_pinv [OF p] unfolding free_range_def unused_def proc_entries_pinv [OF p] by fastforce
  show "length (C v) < MAX_CHUNKS" if "v \<in> mo_vma_id ` set M"
    using f that map_ok_count [OF pinv_map(3) [OF p]] unfolding free_range_def proc_entries_pinv [OF p] by fastforce
qed

lemma placeable_store:
  assumes s: "store pid st pr M C D R" and a: "placeable pid st a n"
  obtains s v off where "(s, v) \<in> set R" and "a = s + of_nat off" and "off + n \<le> length (D v)"
    and "unused M C v off n" and "v \<in> mo_vma_id ` set M \<longrightarrow> length (C v) < MAX_CHUNKS"
proof -
  note p = storeD(1) [OF s] and ri = storeD(3) [OF s]
  have c: "\<not> use_map_cache st" using storeD(2) [OF s] by (simp add: vinv_def vproc_def)
  obtain v b m where l: "locate_mmapobj_node st a = Some (v, b, m)" "v \<noteq> 0" "unat (a - b) + n \<le> data_size pid (fs st) v"
    "free_range pid (fs st) v (unat (a - b)) n"
    using a by (auto simp: placeable_def split: option.splits)
  obtain off where o: "(b, v) \<in> set R" "off < length (D v)" "a = b + of_nat off"
    using located_region [OF ri c l(1,2)] by blast
  have ok: "region_ok pid st (unat (pr_num_mmaps pr)) M D (b, v)" using ri o(1) by (auto simp: rinv_def)
  then have d: "data_size pid (fs st) v = length (D v)" "length (D v) < 2 ^ 32" by (simp_all add: region_ok_def data_size_def)
  have "unat (of_nat off :: ULONG) = off" using o(2) d(2) unfolding unat_of_nat by simp
  then have "unat (a - b) = off" using o(3) by simp
  then show ?thesis using that [OF o(1,3)] l(3,4) d(1) free_range_pinv [OF p] by metis
qed

section \<open>The operations on objects\<close>

lemma object_ownerE:
  assumes "pinv pid F pr M C D" and "object pid F k = Some ob"
  obtains i j where "owner M C k i j" and "ob = obj_of (D (mo_vma_id (M ! i))) (C (mo_vma_id (M ! i)) ! j)"
  using assms object_owner by blast

lemma read_store:
  assumes s: "store pid st pr M C D R" and rq: "rq_pid rq = pid" and o: "object pid (fs st) (rq_chunkid rq) = Some ob"
  shows "\<exists>p. nv_map_read os st rq = Some (st, rq\<lparr>rq_nv_ptr := p, rq_bytes := of_nat (length (ob_bytes ob)),
      rq_commitsz := ob_commitsz ob\<rparr>, p) \<and> p \<noteq> 0 \<and> mem_read st p (length (ob_bytes ob)) = Some (ob_bytes ob)"
proof -
  note p = storeD(1) [OF s] and v = storeD(2) [OF s]
  obtain i j where i: "owner M C (rq_chunkid rq) i j" "ob = obj_of (D (mo_vma_id (M ! i))) (C (mo_vma_id (M ! i)) ! j)"
    by (rule object_ownerE [OF p o])
  show ?thesis using nv_map_read_owner [OF p v rq i(1), of os] read_owner [OF p v i(1)] i(2)
    by (intro exI [of _ "ch_nv_ptr (C (mo_vma_id (M ! i)) ! j)"]) (simp add: obj_of_def)
qed

lemma read_absent:
  assumes s: "store pid st pr M C D R" and rq: "rq_pid rq = pid" and o: "object pid (fs st) (rq_chunkid rq) = None"
  shows "nv_map_read os st rq = Some (st, rq\<lparr>rq_nv_ptr := 0, rq_log_ptr := 0\<rparr>, 0)"
  using nv_map_read_absent [OF storeD(1,2) [OF s] rq] object_None [OF storeD(1) [OF s]] o by blast

lemma write_store:
  assumes s: "store pid st pr M C D R" and rq: "rq_pid rq = pid" and o: "object pid (fs st) (rq_chunkid rq) = Some ob"
    and r: "nv_map_read os st rq = Some (st', rq', p)" and x: "x + length bs \<le> length (ob_bytes ob)"
  shows "\<exists>st' D'. mem_write st (p + of_nat x) bs = Some st' \<and> store pid st' pr M C D' R \<and>
    object pid (fs st') = (object pid (fs st))(rq_chunkid rq \<mapsto> ob\<lparr>ob_bytes := patch (ob_bytes ob) x bs\<rparr>)"
proof -
  note p = storeD(1) [OF s]
  obtain i j where i: "owner M C (rq_chunkid rq) i j" "ob = obj_of (D (mo_vma_id (M ! i))) (C (mo_vma_id (M ! i)) ! j)"
    by (rule object_ownerE [OF p o])
  have "p = ch_nv_ptr (C (mo_vma_id (M ! i)) ! j)" using nv_map_read_owner [OF p storeD(2) [OF s] rq i(1), of os] r by simp
  moreover have "x + length bs \<le> unat (ch_length (C (mo_vma_id (M ! i)) ! j))"
    using x length_obj_bytes [OF owner_chunk_ok [OF p i(1)]] i(2) by simp
  ultimately show ?thesis using mem_write_store [OF s i(1), of x bs] i(2) by auto
qed

lemma commit_store:
  assumes s: "store pid st pr M C D R" and rq: "rq_ok pid rq" and o: "object pid (fs st) (rq_chunkid rq) = Some ob"
  shows "\<exists>st' C'. nv_commit_len st rq sz = Some st' \<and> store pid st' pr M C' D R \<and>
    object pid (fs st') = (object pid (fs st))(rq_chunkid rq \<mapsto> ob\<lparr>ob_commitsz := ucast sz\<rparr>)"
proof -
  obtain i j where i: "owner M C (rq_chunkid rq) i j" "ob = obj_of (D (mo_vma_id (M ! i))) (C (mo_vma_id (M ! i)) ! j)"
    by (rule object_ownerE [OF storeD(1) [OF s] o])
  have "rq_pid rq = pid" "pid \<noteq> 0" "rq_chunkid rq \<noteq> 0" using rq by (simp_all add: rq_ok_def)
  from nv_commit_len_store [OF s this i(1), of sz] show ?thesis unfolding i(2)
    by (intro exI conjI) (assumption, assumption, simp)
qed

lemma delete_store:
  assumes s: "store pid st pr M C D R" and rq: "rq_ok pid rq" and o: "object pid (fs st) (rq_chunkid rq) = Some ob"
  shows "\<exists>st' C'. nv_delete st rq = Some (st', 0) \<and> store pid st' pr M C' D R \<and>
    object pid (fs st') = (object pid (fs st))(rq_chunkid rq := None)"
proof -
  obtain i j where i: "owner M C (rq_chunkid rq) i j" by (rule object_ownerE [OF storeD(1) [OF s] o])
  have r: "rq_pid rq = pid" "pid \<noteq> 0" "rq_chunkid rq \<noteq> 0" using rq by (simp_all add: rq_ok_def)
  let ?v = "mo_vma_id (M ! i)" and ?N = "objnamemap_delete (rq_var_name rq) (objnamemap st)"
  let ?C = "set_chunk C ?v j (\<lambda>c. c\<lparr>ch_commitsz := 0, ch_valid := INVALID\<rparr>)"
  let ?F = "(fs st)(fchunks pid ?v \<mapsto> chunk_file (?C ?v))"
  obtain T where T: "nv_delete st rq = Some (st\<lparr>fs := ?F, trees := T, objnamemap := ?N\<rparr>, 0)"
    "store pid (st\<lparr>fs := ?F, trees := T\<rparr>) pr M ?C D R"
    using nv_delete_store(1) [OF s r i] by blast
  moreover have "store pid (st\<lparr>fs := ?F, trees := T, objnamemap := ?N\<rparr>) pr M ?C D R"
    using T(2) by simp
  ultimately show ?thesis using nv_delete_store(2) [OF s r i]
    by (intro exI [of _ "st\<lparr>fs := ?F, trees := T, objnamemap := ?N\<rparr>"] exI [of _ ?C]) simp
qed

lemma delete_absent:
  assumes s: "store pid st pr M C D R" and rq: "rq_ok pid rq" and o: "object pid (fs st) (rq_chunkid rq) = None"
  shows "nv_delete st rq = Some (st, - 1)"
proof -
  have v: "vproc pid st" using storeD(2) [OF s] by (simp add: vinv_def)
  have "\<forall>i j. \<not> owner M C (rq_chunkid rq) i j" using object_None [OF storeD(1) [OF s]] o by blast
  then show ?thesis using get_chunk_vinv(2) [OF storeD(1,2) [OF s]] find_proc_obj_vproc [OF v] rq
    by (simp add: nv_delete_def rq_ok_def)
qed

lemma record_store:
  assumes s: "store pid st pr M C D R" and os: "os_ok os" and room: "tab_room pid st"
    and rq: "rq_new pid rq" and a: "placeable pid st a (unat (rq_bytes rq))"
    and o: "object pid (fs st) (rq_chunkid rq) = None"
  shows "\<exists>st' pr' M' C' D'. nv_record_chunk os st rq a = Some (st', rq\<lparr>rq_id := rq_chunkid rq\<rparr>) \<and>
    store pid st' pr' M' C' D' R \<and> object pid (fs st') = (object pid (fs st))(rq_chunkid rq \<mapsto>
      \<lparr>ob_name = rq_var_name rq, ob_commitsz = 0, ob_bytes = replicate (unat (rq_bytes rq)) 0\<rparr>) \<and>
    length (mmaps st') \<le> Suc (length (mmaps st)) \<and> length M' \<le> Suc (length M) \<and> pr_num_mmaps pr' = pr_num_mmaps pr"
proof -
  obtain b v off where b: "(b, v) \<in> set R" "a = b + of_nat off" "off + unat (rq_bytes rq) \<le> length (D v)"
    "unused M C v off (unat (rq_bytes rq))" "v \<in> mo_vma_id ` set M \<longrightarrow> length (C v) < MAX_CHUNKS"
    by (rule placeable_store [OF s a])
  have r: "length (mmaps st) < MAX_MAP_COUNT" "length M < MAX_MMAPS"
    using room proc_entries_pinv [OF storeD(1) [OF s]] by (simp_all add: tab_room_def)
  have q: "rq_pid rq = pid" "pid \<noteq> 0" "rq_chunkid rq = gen_id_from_str (rq_var_name rq)" "rq_chunkid rq \<noteq> 0"
    "rq_var_name rq \<noteq> []" "length (rq_var_name rq) < MAXOBJNAMELEN" "0 < unat (rq_bytes rq)"
    using rq unfolding rq_new_def rq_ok_def by blast+
  show ?thesis unfolding b(2)
    by (rule nv_record_chunk_store [OF s os r b(5) [rule_format] b(1,3) q o b(4)])
qed

lemma mmap_store:
  assumes s: "store pid st pr M C D R" and os: "os_ok os" and room: "map_room pid st" and pid: "pid \<noteq> 0"
    and sz: "0 < unat sz" "unat sz < 2 ^ 32"
  shows "\<exists>st' a v pr' D'. nv_mmap os st sz pid = Some (st', a) \<and> store pid st' pr' M C D' ((a, v) # R) \<and>
    length (D' v) = unat sz \<and> (\<forall>m \<in> set M. mo_vma_id m \<noteq> v) \<and> pr_num_mmaps pr' = pr_num_mmaps pr + 1 \<and>
    objects pid (fs st') = objects pid (fs st) \<and> length (mmaps st') = Suc (length (mmaps st))"
proof -
  have n: "unat (pr_num_mmaps pr) + 1 < MAX_IDS" "length (mmaps st) < MAX_MAP_COUNT"
    using room num_ids_pinv [OF storeD(1) [OF s]] by (simp_all add: map_room_def)
  have "mo_vma_id m \<noteq> pr_num_mmaps pr + 1" if "m \<in> set M" for m
    using pinv_map(3) [OF storeD(1) [OF s] that] unat_Suc [OF n(1)] by (auto simp: map_ok_def)
  then show ?thesis using nv_mmap_store [OF s os n(2) sz pid n(1)] by fastforce
qed

section \<open>Steps\<close>

datatype nv_event =
    Mapped
  | Recorded UINT string nat
  | Written UINT nat "byte list"
  | Committed UINT UINT
  | Deleted UINT
  | Restarted

fun spec_step :: "(UINT \<rightharpoonup> nvobj) \<Rightarrow> nv_event \<Rightarrow> (UINT \<rightharpoonup> nvobj)" where
  "spec_step ob Mapped = ob"
| "spec_step ob (Recorded k name n) = ob(k \<mapsto> \<lparr>ob_name = name, ob_commitsz = 0, ob_bytes = replicate n 0\<rparr>)"
| "spec_step ob (Written k x bs) = ob(k := map_option (\<lambda>v. v\<lparr>ob_bytes := patch (ob_bytes v) x bs\<rparr>) (ob k))"
| "spec_step ob (Committed k sz) = ob(k := map_option (\<lambda>v. v\<lparr>ob_commitsz := sz\<rparr>) (ob k))"
| "spec_step ob (Deleted k) = ob(k := None)"
| "spec_step ob Restarted = ob"

inductive nv_step :: "os_mmap \<Rightarrow> UINT \<Rightarrow> nvst \<Rightarrow> nv_event \<Rightarrow> nvst \<Rightarrow> bool" for os pid where
  step_mmap: "map_room pid st \<Longrightarrow> pid \<noteq> 0 \<Longrightarrow> 0 < unat sz \<Longrightarrow> unat sz < 2 ^ 32 \<Longrightarrow>
    nv_mmap os st sz pid = Some (st', a) \<Longrightarrow> nv_step os pid st Mapped st'"
| step_record: "tab_room pid st \<Longrightarrow> rq_new pid rq \<Longrightarrow> placeable pid st a (unat (rq_bytes rq)) \<Longrightarrow>
    nv_map_read os st rq = Some (st, rq0, 0) \<Longrightarrow> nv_record_chunk os st rq a = Some (st', rq') \<Longrightarrow>
    nv_step os pid st (Recorded (rq_chunkid rq) (rq_var_name rq) (unat (rq_bytes rq))) st'"
| step_write: "rq_ok pid rq \<Longrightarrow> nv_map_read os st rq = Some (st, rq', p) \<Longrightarrow> p \<noteq> 0 \<Longrightarrow>
    x + length bs \<le> unat (rq_bytes rq') \<Longrightarrow> mem_write st (p + of_nat x) bs = Some st' \<Longrightarrow>
    nv_step os pid st (Written (rq_chunkid rq) x bs) st'"
| step_commit: "rq_ok pid rq \<Longrightarrow> nv_map_read os st rq = Some (st, rq', p) \<Longrightarrow> p \<noteq> 0 \<Longrightarrow>
    nv_commit_len st rq sz = Some st' \<Longrightarrow> nv_step os pid st (Committed (rq_chunkid rq) (ucast sz)) st'"
| step_delete: "rq_ok pid rq \<Longrightarrow> nv_delete st rq = Some (st', r) \<Longrightarrow>
    nv_step os pid st (Deleted (rq_chunkid rq)) st'"
| step_restart: "nv_initialize os (restart st) pid = Some st' \<Longrightarrow> nv_step os pid st Restarted st'"

lemma read_nonzero:
  assumes s: "store pid st pr M C D R" and rq: "rq_pid rq = pid" and r: "nv_map_read os st rq = Some (st', rq', p)"
  shows "p = 0 \<longleftrightarrow> object pid (fs st) (rq_chunkid rq) = None"
    and "object pid (fs st) (rq_chunkid rq) = Some ob \<Longrightarrow> unat (rq_bytes rq') = length (ob_bytes ob)"
proof -
  show "p = 0 \<longleftrightarrow> object pid (fs st) (rq_chunkid rq) = None"
    using read_absent [OF s rq, of os] read_store [OF s rq, of _ os] r
    by (cases "object pid (fs st) (rq_chunkid rq)") auto
  assume o: "object pid (fs st) (rq_chunkid rq) = Some ob"
  obtain i j where i: "owner M C (rq_chunkid rq) i j" "ob = obj_of (D (mo_vma_id (M ! i))) (C (mo_vma_id (M ! i)) ! j)"
    by (rule object_ownerE [OF storeD(1) [OF s] o])
  have "length (ob_bytes ob) = unat (ch_length (C (mo_vma_id (M ! i)) ! j))"
    using length_obj_bytes [OF owner_chunk_ok [OF storeD(1) [OF s] i(1)]] i(2) by simp
  then show "unat (rq_bytes rq') = length (ob_bytes ob)"
    using nv_map_read_owner [OF storeD(1,2) [OF s] rq i(1), of os] r by auto
qed

lemma object_cong: "objects pid F = objects pid F' \<Longrightarrow> object pid F = object pid F'"
  by (simp add: object_def fun_eq_iff)

lemma store_okI: "store pid st pr M C D R \<Longrightarrow> store_ok pid st"
  unfolding store_ok_def by blast

lemma nv_step_ok:
  assumes step: "nv_step os pid st e st'" and ok: "os_ok os" "store_ok pid st"
  shows "store_ok pid st' \<and> object pid (fs st') = spec_step (object pid (fs st)) e"
proof -
  obtain pr M C D R where s: "store pid st pr M C D R" using ok(2) unfolding store_ok_def by blast
  show ?thesis using step
  proof cases
    case (step_mmap sz a)
    from mmap_store [OF s ok(1) step_mmap(2-5)] obtain v pr' D' where "store pid st' pr' M C D' ((a, v) # R)"
      and e: "objects pid (fs st') = objects pid (fs st)" unfolding step_mmap(6) by blast
    then show ?thesis using store_okI object_cong [OF e] unfolding step_mmap(1) spec_step.simps by blast
  next
    case (step_record rq a rq0 rq')
    have "rq_pid rq = pid" using step_record(3) by (simp add: rq_new_def rq_ok_def)
    from read_nonzero(1) [OF s this step_record(5)] have "object pid (fs st) (rq_chunkid rq) = None" by simp
    from record_store [OF s ok(1) step_record(2,3,4) this] obtain pr' M' C' D' where "store pid st' pr' M' C' D' R"
      "object pid (fs st') = (object pid (fs st))(rq_chunkid rq \<mapsto>
        \<lparr>ob_name = rq_var_name rq, ob_commitsz = 0, ob_bytes = replicate (unat (rq_bytes rq)) 0\<rparr>)"
      unfolding step_record(6) by blast
    then show ?thesis using store_okI unfolding step_record(1) spec_step.simps by blast
  next
    case (step_write rq rq' p x bs)
    have r: "rq_pid rq = pid" using step_write(2) by (simp add: rq_ok_def)
    from read_nonzero(1) [OF s r step_write(3)] step_write(4)
    obtain ob where ob: "object pid (fs st) (rq_chunkid rq) = Some ob" by auto
    have "x + length bs \<le> length (ob_bytes ob)"
      using read_nonzero(2) [OF s r step_write(3) ob] step_write(5) by simp
    from write_store [OF s r ob step_write(3) this] obtain D' where "store pid st' pr M C D' R"
      "object pid (fs st') = (object pid (fs st))(rq_chunkid rq \<mapsto> ob\<lparr>ob_bytes := patch (ob_bytes ob) x bs\<rparr>)"
      unfolding step_write(6) by blast
    then show ?thesis using store_okI unfolding step_write(1) spec_step.simps ob option.map by blast
  next
    case (step_commit rq rq' p sz)
    have r: "rq_pid rq = pid" using step_commit(2) by (simp add: rq_ok_def)
    from read_nonzero(1) [OF s r step_commit(3)] step_commit(4)
    obtain ob where ob: "object pid (fs st) (rq_chunkid rq) = Some ob" by auto
    from commit_store [OF s step_commit(2) ob, of sz] obtain C' where "store pid st' pr M C' D R"
      "object pid (fs st') = (object pid (fs st))(rq_chunkid rq \<mapsto> ob\<lparr>ob_commitsz := ucast sz\<rparr>)"
      unfolding step_commit(5) by blast
    then show ?thesis using store_okI unfolding step_commit(1) spec_step.simps ob option.map by blast
  next
    case (step_delete rq r)
    show ?thesis
    proof (cases "object pid (fs st) (rq_chunkid rq)")
      case None
      then have "st' = st" using delete_absent [OF s step_delete(2)] step_delete(3) by simp
      then show ?thesis using None ok(2) unfolding step_delete(1) by (simp add: fun_upd_idem)
    next
      case (Some ob)
      from delete_store [OF s step_delete(2) Some] obtain C' where "store pid st' pr M C' D R"
        "object pid (fs st') = (object pid (fs st))(rq_chunkid rq := None)" unfolding step_delete(3) by blast
      then show ?thesis using store_okI unfolding step_delete(1) spec_step.simps by blast
    qed
  next
    case step_restart
    from restart_store [OF s ok(1)] obtain pr' M' C' where "store pid st' pr' M' C' D []"
      and e: "objects pid (fs st') = objects pid (fs st)" unfolding step_restart(2) by blast
    then show ?thesis using store_okI object_cong [OF e] unfolding step_restart(1) spec_step.simps by blast
  qed
qed

text \<open>Every run of the library refines the specification.\<close>

interpretation nvstore: simulation "nv_step os pid" "\<lambda>st. os_ok os \<and> store_ok pid st" "\<lambda>st. object pid (fs st)" spec_step
  by unfold_locales (auto dest: nv_step_ok)

end
