(* ===== verification/NvMap_Props.thy ===== *)
theory NvMap_Props
  imports NvMap_Spec
begin

text \<open>
  What the object store promises, over the operations of theory \<open>NvMap_Ops\<close>, and a small store that
  the promises are applied to.
\<close>

section \<open>A small store\<close>

text \<open>A machine without files; a process with one mapping of a page; an object of 16 bytes in it.\<close>

definition blank_st :: nvst where
  "blank_st = \<lparr>fs = Map.empty, mmaps = [], proc_map_start = 0, proc_list_init = False,
     proc_tree = rbtree_create, trees = Map.empty, next_tree = 1, map_tree = None, objnamemap = [],
     chunkmap = [], proc_vmas = [], g_initialized = False, useCacheFlush = False,
     enable_optimze = False, enable_trans = False, use_map_cache = False, prev_proc_obj = None,
     prev_proc_id = 0, mmap_strt_addr_cache = (\<lambda>_. 0), mmap_size_cache = (\<lambda>_. 0),
     mmap_ref_cache = (\<lambda>_. None), next_mmap_entry = 0\<rparr>"

definition demo_rq :: rqst_s where
  "demo_rq = \<lparr>rq_bytes = 16, rq_var_name = ''x'', rq_id = 0, rq_pid = 1, rq_nv_ptr = 0, rq_log_ptr = 0,
     rq_offset = 0, rq_access = 0, rq_commitsz = 0\<rparr>"

definition demo0 :: nvst where
  "demo0 = the (nv_initialize first_fit blank_st 1)"

definition demo1 :: nvst where
  "demo1 = fst (the (nv_mmap first_fit demo0 4096 1))"

definition demo_addr :: ULONG where
  "demo_addr = snd (the (nv_mmap first_fit demo0 4096 1))"

definition demo2 :: nvst where
  "demo2 = fst (the (nv_record_chunk first_fit demo1 demo_rq demo_addr))"

lemma blank_unloaded: "unloaded blank_st" "\<not> g_initialized blank_st" "fs blank_st = Map.empty"
  by (simp_all add: blank_st_def unloaded_def)

lemma demo_rq_simps [simp]:
  "rq_chunkid demo_rq = gen_id_from_str ''x''" "rq_pid demo_rq = 1" "rq_var_name demo_rq = ''x''"
  "unat (rq_bytes demo_rq) = 16"
  by (simp_all add: demo_rq_def rq_chunkid_def)

lemma demo_id: "gen_id_from_str ''x'' \<noteq> 0"
  by code_simp

lemma demo_rq_new: "rq_new 1 demo_rq"
  using demo_id by (simp add: rq_new_def rq_ok_def MAXOBJNAMELEN_def)

lemma demo0_store:
  obtains pr where "nv_initialize first_fit blank_st 1 = Some demo0" and "store 1 demo0 pr [] (\<lambda>_. []) (\<lambda>_. []) []"
    and "objects 1 (fs demo0) = []" and "map_room 1 demo0" and "length (mmaps demo0) = 1"
proof -
  obtain st' pr' where s: "nv_initialize first_fit blank_st 1 = Some st'" "store 1 st' pr' [] (\<lambda>_. []) (\<lambda>_. []) []"
    "objects 1 (fs st') = []" "pr_num_mmaps pr' = 0" "length (mmaps st') = 1"
    using first_start_store [OF blank_unloaded(1,2) _ os_ok_first_fit, of 1] blank_unloaded(3) by auto
  then have "demo0 = st'" by (simp add: demo0_def)
  moreover have "map_room 1 st'"
    using s(4,5) num_ids_pinv [OF storeD(1) [OF s(2)]] by (simp add: map_room_def MAX_MAP_COUNT_def MAX_IDS_def)
  ultimately show ?thesis using that s by simp
qed

lemma demo0_ok: "store_ok 1 demo0" "map_room 1 demo0"
  by (rule demo0_store, erule store_okI) (rule demo0_store)

lemma demo1_store:
  obtains pr D v where "nv_mmap first_fit demo0 4096 1 = Some (demo1, demo_addr)"
    and "store 1 demo1 pr [] (\<lambda>_. []) D [(demo_addr, v)]" and "length (D v) = 4096"
    and "objects 1 (fs demo1) = []" and "length (mmaps demo1) = 2"
proof -
  obtain pr0 where s0: "store 1 demo0 pr0 [] (\<lambda>_. []) (\<lambda>_. []) []" "objects 1 (fs demo0) = []" "map_room 1 demo0"
    "length (mmaps demo0) = 1" by (rule demo0_store)
  obtain st' a v pr' D' where m: "nv_mmap first_fit demo0 4096 1 = Some (st', a)"
    "store 1 st' pr' [] (\<lambda>_. []) D' [(a, v)]" "length (D' v) = 4096"
    "objects 1 (fs st') = objects 1 (fs demo0)" "length (mmaps st') = Suc (length (mmaps demo0))"
    using mmap_store [OF s0(1) os_ok_first_fit s0(3), of 4096] by auto
  then have "demo1 = st'" "demo_addr = a" by (simp_all add: demo1_def demo_addr_def)
  then show ?thesis using that [of pr' D' v] m s0(2,4) by simp
qed

lemma demo1_ok: "store_ok 1 demo1" "tab_room 1 demo1" "placeable 1 demo1 demo_addr 16" "object 1 (fs demo1) = Map.empty"
proof -
  obtain pr D v where s: "store 1 demo1 pr [] (\<lambda>_. []) D [(demo_addr, v)]" "length (D v) = 4096"
    "objects 1 (fs demo1) = []" "length (mmaps demo1) = 2" by (rule demo1_store)
  note p = storeD(1) [OF s(1)] and ri = storeD(3) [OF s(1)]
  have c: "\<not> use_map_cache demo1" using storeD(2) [OF s(1)] by (simp add: vinv_def vproc_def)
  show "store_ok 1 demo1" using s(1) by (rule store_okI)
  show "object 1 (fs demo1) = Map.empty" using s(3) by (simp add: object_def fun_eq_iff)
  show "tab_room 1 demo1" using s(4) proc_entries_pinv [OF p] by (simp add: tab_room_def MAX_MAP_COUNT_def MAX_MMAPS_def)
  have loc: "locate_mmapobj_node demo1 demo_addr = Some (v, demo_addr, None)"
    using locate_region [OF ri c, of demo_addr v demo_addr 0] s(2) by simp
  have ok: "region_ok 1 demo1 (unat (pr_num_mmaps pr)) [] D (demo_addr, v)" using ri by (simp add: rinv_def)
  then have "v \<noteq> 0" "data_size 1 (fs demo1) v = 4096" using s(2) by (auto simp: region_ok_def data_size_def)
  then show "placeable 1 demo1 demo_addr 16"
    using loc proc_entries_pinv [OF p] by (simp add: placeable_def free_range_def)
qed

definition demo_obj :: nvobj where
  "demo_obj = \<lparr>ob_name = ''x'', ob_commitsz = 0, ob_bytes = replicate 16 0\<rparr>"

lemma demo2_ok: "store_ok 1 demo2" "object 1 (fs demo2) (gen_id_from_str ''x'') = Some demo_obj"
  "nv_record_chunk first_fit demo1 demo_rq demo_addr = Some (demo2, demo_rq\<lparr>rq_id := gen_id_from_str ''x''\<rparr>)"
proof -
  obtain pr M C D R where s: "store 1 demo1 pr M C D R" using demo1_ok(1) unfolding store_ok_def by blast
  obtain st' pr' M' C' D' where r: "nv_record_chunk first_fit demo1 demo_rq demo_addr = Some (st', demo_rq\<lparr>rq_id := gen_id_from_str ''x''\<rparr>)"
    "store 1 st' pr' M' C' D' R" "object 1 (fs st') = [gen_id_from_str ''x'' \<mapsto> demo_obj]"
    using record_store [OF s os_ok_first_fit demo1_ok(2) demo_rq_new, of demo_addr] demo1_ok(3,4)
    by (auto simp: demo_obj_def)
  then have "demo2 = st'" by (simp add: demo2_def)
  then show "store_ok 1 demo2" "object 1 (fs demo2) (gen_id_from_str ''x'') = Some demo_obj"
    "nv_record_chunk first_fit demo1 demo_rq demo_addr = Some (demo2, demo_rq\<lparr>rq_id := gen_id_from_str ''x''\<rparr>)"
    using r store_okI by simp_all
qed

lemma demo_rq_ok: "rq_ok 1 demo_rq"
  using demo_rq_new by (simp add: rq_new_def)

section \<open>Persistence\<close>

text \<open>
  C1: a restart loses no object. Whatever the process did, \<open>nv_initialize\<close> on its files returns, in
  a state in which every object has the name, committed size and bytes it had.
\<close>

theorem restart_keeps_objects:
  assumes "store_ok pid st" and "os_ok os"
  shows "\<exists>st'. nv_initialize os (restart st) pid = Some st' \<and> store_ok pid st' \<and>
    objects pid (fs st') = objects pid (fs st)"
proof -
  obtain pr M C D R where "store pid st pr M C D R" using assms(1) unfolding store_ok_def by blast
  from restart_store [OF this assms(2)] show ?thesis using store_okI by blast
qed

theorem restart_keeps_objects_witness:
  "\<exists>st'. nv_initialize first_fit (restart demo2) 1 = Some st' \<and> store_ok 1 st' \<and>
     objects 1 (fs st') = objects 1 (fs demo2)"
  by (rule restart_keeps_objects [OF demo2_ok(1) os_ok_first_fit])



text \<open>
  C3: an object that was recorded, filled and survived a restart is found again by its name, and the
  bytes behind the pointer are the ones that were written.
\<close>

theorem written_bytes_survive_restart:
  assumes "store_ok pid st" and "os_ok os" and "rq_ok pid rq" and "object pid (fs st) (rq_chunkid rq) = Some ob"
    and "length bs = length (ob_bytes ob)"
  shows "\<exists>rq' p st1 st2 rq'' p'. nv_map_read os st rq = Some (st, rq', p) \<and> mem_write st p bs = Some st1 \<and>
    nv_initialize os (restart st1) pid = Some st2 \<and> nv_map_read os st2 rq = Some (st2, rq'', p') \<and>
    unat (rq_bytes rq'') = length bs \<and> mem_read st2 p' (length bs) = Some bs"
proof -
  obtain pr M C D R where s: "store pid st pr M C D R" using assms(1) unfolding store_ok_def by blast
  have r: "rq_pid rq = pid" using assms(3) by (simp add: rq_ok_def)
  obtain rq' p where p: "nv_map_read os st rq = Some (st, rq', p)" using read_store [OF s r assms(4)] by blast
  obtain st1 D' where w: "mem_write st p bs = Some st1" "store pid st1 pr M C D' R"
    "object pid (fs st1) = (object pid (fs st))(rq_chunkid rq \<mapsto> ob\<lparr>ob_bytes := patch (ob_bytes ob) 0 bs\<rparr>)"
    using write_store [OF s r assms(4) p, of 0 bs] assms(5) by auto
  obtain st2 pr2 M2 C2 where i: "nv_initialize os (restart st1) pid = Some st2" "store pid st2 pr2 M2 C2 D' []"
    "objects pid (fs st2) = objects pid (fs st1)" using restart_store [OF w(2) assms(2)] by blast
  have "patch (ob_bytes ob) 0 bs = bs" using assms(5) by (simp add: patch_def)
  then have o2: "object pid (fs st2) (rq_chunkid rq) = Some (ob\<lparr>ob_bytes := bs\<rparr>)"
    using w(3) object_cong [OF i(3)] by simp
  obtain p' where "nv_map_read os st2 rq = Some (st2, rq\<lparr>rq_nv_ptr := p', rq_bytes := of_nat (length bs),
      rq_commitsz := ob_commitsz ob\<rparr>, p')" "mem_read st2 p' (length bs) = Some bs"
    using read_store [OF i(2) r o2, of os] by auto
  then show ?thesis using p w(1) i(1) read_nonzero(2) [OF i(2) r _ o2, of os] by fastforce
qed

theorem written_bytes_survive_restart_witness:
  "\<exists>rq' p st1 st2 rq'' p'. nv_map_read first_fit demo2 demo_rq = Some (demo2, rq', p) \<and>
     mem_write demo2 p (replicate 16 7) = Some st1 \<and> nv_initialize first_fit (restart st1) 1 = Some st2 \<and>
     nv_map_read first_fit st2 demo_rq = Some (st2, rq'', p') \<and> unat (rq_bytes rq'') = 16 \<and>
     mem_read st2 p' 16 = Some (replicate 16 7)"
  using written_bytes_survive_restart [OF demo2_ok(1) os_ok_first_fit demo_rq_ok, of demo_obj "replicate 16 7"] demo2_ok(2)
  by (simp add: demo_obj_def)

text \<open>
  C27: the first start of a process, for which there are no files yet, returns with no objects.
\<close>

theorem first_start_empty:
  assumes "unloaded st" and "\<not> g_initialized st" and "fs st (fproc pid) = None" and "os_ok os"
  shows "\<exists>st'. nv_initialize os st pid = Some st' \<and> store_ok pid st' \<and> object pid (fs st') = Map.empty"
proof -
  obtain st' pr' where "nv_initialize os st pid = Some st'" "store pid st' pr' [] (\<lambda>_. []) (\<lambda>_. []) []" "objects pid (fs st') = []"
    using first_start_store [OF assms] by blast
  then show ?thesis using store_okI by (auto simp: object_def fun_eq_iff)
qed

theorem first_start_empty_witness:
  "\<exists>st'. nv_initialize first_fit blank_st 1 = Some st' \<and> store_ok 1 st' \<and> object 1 (fs st') = Map.empty"
  using first_start_empty [OF blank_unloaded(1,2) _ os_ok_first_fit, of 1] blank_unloaded(3) by simp

section \<open>The operations\<close>

text \<open>
  C19: \<open>nv_map_read\<close> of an object returns a pointer behind which its bytes lie, with its length and its
  committed size; it changes nothing.
\<close>

theorem nv_map_read_object:
  assumes "store_ok pid st" and "rq_pid rq = pid" and "object pid (fs st) (rq_chunkid rq) = Some ob"
  shows "\<exists>p. nv_map_read os st rq = Some (st, rq\<lparr>rq_nv_ptr := p, rq_bytes := of_nat (length (ob_bytes ob)),
      rq_commitsz := ob_commitsz ob\<rparr>, p) \<and> p \<noteq> 0 \<and> mem_read st p (length (ob_bytes ob)) = Some (ob_bytes ob)"
  using assms read_store unfolding store_ok_def by blast

theorem nv_map_read_object_witness:
  "\<exists>p. nv_map_read first_fit demo2 demo_rq = Some (demo2, demo_rq\<lparr>rq_nv_ptr := p, rq_bytes := 16, rq_commitsz := 0\<rparr>, p) \<and>
     p \<noteq> 0 \<and> mem_read demo2 p 16 = Some (replicate 16 0)"
  using nv_map_read_object [OF demo2_ok(1), of demo_rq demo_obj first_fit] demo2_ok(2) by (simp add: demo_obj_def)

text \<open>
  C26: requests for objects that do not exist: \<open>nv_map_read\<close> returns a null pointer and \<open>nv_delete\<close>
  returns -1, both without a change; \<open>nv_commit\<close> and \<open>nv_commit_len\<close> stop at an assertion.
\<close>

theorem missing_object_errors:
  assumes "store_ok pid st" and "rq_ok pid rq" and "object pid (fs st) (rq_chunkid rq) = None"
  shows "nv_map_read os st rq = Some (st, rq\<lparr>rq_nv_ptr := 0, rq_log_ptr := 0\<rparr>, 0) \<and>
    nv_delete st rq = Some (st, - 1) \<and> nv_commit st rq = None \<and> nv_commit_len st rq sz = None"
proof -
  obtain pr M C D R where s: "store pid st pr M C D R" using assms(1) unfolding store_ok_def by blast
  have r: "rq_pid rq = pid" "pid \<noteq> 0" "rq_chunkid rq \<noteq> 0" using assms(2) by (simp_all add: rq_ok_def)
  have "\<forall>i j. \<not> owner M C (rq_chunkid rq) i j" using object_None [OF storeD(1) [OF s]] assms(3) by blast
  from get_chunk_vinv(2) [OF storeD(1,2) [OF s] r this] show ?thesis
    using read_absent [OF s r(1) assms(3)] delete_absent [OF s assms(2,3)] by (simp add: nv_commit_def nv_commit_len_def)
qed

theorem missing_object_errors_witness:
  "nv_map_read first_fit demo1 demo_rq = Some (demo1, demo_rq\<lparr>rq_nv_ptr := 0, rq_log_ptr := 0\<rparr>, 0) \<and>
     nv_delete demo1 demo_rq = Some (demo1, - 1) \<and> nv_commit demo1 demo_rq = None \<and> nv_commit_len demo1 demo_rq 8 = None"
  using missing_object_errors [OF demo1_ok(1) demo_rq_ok] demo1_ok(4) by simp

text \<open>
  C4: \<open>nv_record_chunk\<close> with a name that is not taken, at addresses of a mapping that belong to no
  object, adds an object of the requested size with all bytes zero and changes no other object.
\<close>

theorem nv_record_chunk_adds:
  assumes "store_ok pid st" and "os_ok os" and "tab_room pid st" and "rq_new pid rq"
    and "placeable pid st a (unat (rq_bytes rq))" and "object pid (fs st) (rq_chunkid rq) = None"
  shows "\<exists>st'. nv_record_chunk os st rq a = Some (st', rq\<lparr>rq_id := rq_chunkid rq\<rparr>) \<and> store_ok pid st' \<and>
    object pid (fs st') = (object pid (fs st))(rq_chunkid rq \<mapsto>
      \<lparr>ob_name = rq_var_name rq, ob_commitsz = 0, ob_bytes = replicate (unat (rq_bytes rq)) 0\<rparr>)"
proof -
  obtain pr M C D R where "store pid st pr M C D R" using assms(1) unfolding store_ok_def by blast
  from record_store [OF this assms(2-6)] show ?thesis using store_okI by blast
qed

theorem nv_record_chunk_adds_witness:
  "\<exists>st'. nv_record_chunk first_fit demo1 demo_rq demo_addr = Some (st', demo_rq\<lparr>rq_id := gen_id_from_str ''x''\<rparr>) \<and>
     store_ok 1 st' \<and> object 1 (fs st') = [gen_id_from_str ''x'' \<mapsto> demo_obj]"
  using nv_record_chunk_adds [OF demo1_ok(1) os_ok_first_fit demo1_ok(2) demo_rq_new, of demo_addr] demo1_ok(3,4)
  by (simp add: demo_obj_def)

text \<open>C20: \<open>nv_delete\<close> of an object removes that object and no other, also for the next start.\<close>

theorem nv_delete_removes:
  assumes "store_ok pid st" and "rq_ok pid rq" and "object pid (fs st) (rq_chunkid rq) = Some ob"
  shows "\<exists>st'. nv_delete st rq = Some (st', 0) \<and> store_ok pid st' \<and>
    object pid (fs st') = (object pid (fs st))(rq_chunkid rq := None)"
proof -
  obtain pr M C D R where "store pid st pr M C D R" using assms(1) unfolding store_ok_def by blast
  from delete_store [OF this assms(2,3)] show ?thesis using store_okI by blast
qed

theorem nv_delete_removes_witness:
  "\<exists>st'. nv_delete demo2 demo_rq = Some (st', 0) \<and> store_ok 1 st' \<and>
     object 1 (fs st') = (object 1 (fs demo2))(gen_id_from_str ''x'' := None)"
  using nv_delete_removes [OF demo2_ok(1) demo_rq_ok] demo2_ok(2) by simp

text \<open>C24: \<open>nv_commit_len\<close> records the low 32 bits of the size with the object and changes nothing else.\<close>

theorem nv_commit_len_records:
  assumes "store_ok pid st" and "rq_ok pid rq" and "object pid (fs st) (rq_chunkid rq) = Some ob"
  shows "\<exists>st'. nv_commit_len st rq sz = Some st' \<and> store_ok pid st' \<and>
    object pid (fs st') = (object pid (fs st))(rq_chunkid rq \<mapsto> ob\<lparr>ob_commitsz := ucast sz\<rparr>)"
proof -
  obtain pr M C D R where "store pid st pr M C D R" using assms(1) unfolding store_ok_def by blast
  from commit_store [OF this assms(2,3), of sz] show ?thesis using store_okI by blast
qed

theorem nv_commit_len_records_witness:
  "\<exists>st'. nv_commit_len demo2 demo_rq 8 = Some st' \<and> store_ok 1 st' \<and>
     object 1 (fs st') = (object 1 (fs demo2))(gen_id_from_str ''x'' \<mapsto> demo_obj\<lparr>ob_commitsz := ucast (8 :: ULONG)\<rparr>)"
  using nv_commit_len_records [OF demo2_ok(1) demo_rq_ok, of demo_obj 8] demo2_ok(2) by simp

text \<open>
  C23: a write through the pointer of an object that stays within its length changes the bytes of
  that object as written, and no byte of any other object.
\<close>

theorem object_write_isolated:
  assumes "store_ok pid st" and "rq_pid rq = pid" and "object pid (fs st) (rq_chunkid rq) = Some ob"
    and "nv_map_read os st rq = Some (st', rq', p)" and "x + length bs \<le> length (ob_bytes ob)"
  shows "\<exists>st'. mem_write st (p + of_nat x) bs = Some st' \<and> store_ok pid st' \<and>
    object pid (fs st') = (object pid (fs st))(rq_chunkid rq \<mapsto> ob\<lparr>ob_bytes := patch (ob_bytes ob) x bs\<rparr>)"
proof -
  obtain pr M C D R where "store pid st pr M C D R" using assms(1) unfolding store_ok_def by blast
  from write_store [OF this assms(2-5)] show ?thesis using store_okI by blast
qed

theorem object_write_isolated_witness:
  "\<exists>p st'. mem_write demo2 (p + 4) [1, 2] = Some st' \<and> store_ok 1 st' \<and>
     object 1 (fs st') = (object 1 (fs demo2))(gen_id_from_str ''x'' \<mapsto>
       demo_obj\<lparr>ob_bytes := [0, 0, 0, 0, 1, 2, 0, 0, 0, 0, 0, 0, 0, 0, 0, 0]\<rparr>)"
proof -
  obtain pr M C D R where s: "store 1 demo2 pr M C D R" using demo2_ok(1) unfolding store_ok_def by blast
  obtain rq' p where "nv_map_read first_fit demo2 demo_rq = Some (demo2, rq', p)"
    using read_store [OF s, of demo_rq demo_obj first_fit] demo2_ok(2) by auto
  from object_write_isolated [OF demo2_ok(1) _ _ this, of demo_obj 4 "[1, 2]"] show ?thesis
    using demo2_ok(2) by (auto simp: demo_obj_def patch_def numeral_eq_Suc)
qed

text \<open>
  C25: \<open>nv_mmap\<close> returns a range whose bytes are zero and in which objects can be recorded at every
  address; the objects there were stay as they are.
\<close>

theorem nv_mmap_fresh_range:
  assumes "store_ok pid st" and "os_ok os" and "map_room pid st" and "pid \<noteq> 0" and "0 < unat sz" and "unat sz < 2 ^ 32"
    and "off < unat sz"
  shows "\<exists>st' a. nv_mmap os st sz pid = Some (st', a) \<and> store_ok pid st' \<and>
    object pid (fs st') = object pid (fs st) \<and> placeable pid st' (a + of_nat off) (unat sz - off) \<and>
    mem_read st' (a + of_nat off) (unat sz - off) = Some (replicate (unat sz - off) 0)"
proof -
  obtain pr M C D R where s: "store pid st pr M C D R" using assms(1) unfolding store_ok_def by blast
  let ?v = "pr_num_mmaps pr + 1"
  let ?D = "D(?v := replicate (unat sz) 0)" and ?pr = "pr\<lparr>pr_num_mmaps := ?v\<rparr>"
  have n: "unat (pr_num_mmaps pr) + 1 < MAX_IDS" "length (mmaps st) < MAX_MAP_COUNT"
    using assms(3) num_ids_pinv [OF storeD(1) [OF s]] by (simp_all add: map_room_def)
  obtain st' a where m: "nv_mmap os st sz pid = Some (st', a)" "store pid st' ?pr M C ?D ((a, ?v) # R)"
    "objects pid (fs st') = objects pid (fs st)"
    using nv_mmap_store [OF s assms(2) n(2) assms(5,6,4) n(1)] by blast
  note p = storeD(1) [OF m(2)] and ri = storeD(3) [OF m(2)]
  have c: "\<not> use_map_cache st'" using storeD(2) [OF m(2)] by (simp add: vinv_def vproc_def)
  have ok: "region_ok pid st' (unat (pr_num_mmaps ?pr)) M ?D (a, ?v)" using ri by (simp add: rinv_def)
  then have f: "fs st' (fdata pid ?v) = Some (DataFile (replicate (unat sz) 0))" "?v \<noteq> 0"
    "maps_to (mmaps st') a (length (replicate (unat sz) (0 :: byte))) (fdata pid ?v)"
    by (auto simp: region_ok_def)
  have loc: "locate_mmapobj_node st' (a + of_nat off) = Some (?v, a, None)"
    using locate_region [OF ri c, of a ?v "a + of_nat off" off] assms(7) by simp
  have u: "unat (of_nat off :: ULONG) = off" using assms(6,7) unfolding unat_of_nat by simp
  have fresh: "mo_vma_id m \<noteq> ?v" if "m \<in> set M" for m
    using pinv_map(3) [OF storeD(1) [OF s] that] unat_Suc [OF n(1)] by (auto simp: map_ok_def)
  then have "placeable pid st' (a + of_nat off) (unat sz - off)"
    using loc f(1,2) u assms(7) proc_entries_pinv [OF p] by (auto simp: placeable_def data_size_def free_range_def)
  moreover have "mem_read st' (a + of_nat off) (unat sz - off) = Some (replicate (unat sz - off) 0)"
    using mem_read_maps_to [OF f(3,1), of off "unat sz - off"] assms(7) by simp
  ultimately show ?thesis using m store_okI [OF m(2)] object_cong [OF m(3)] by blast
qed

theorem nv_mmap_fresh_range_witness:
  "\<exists>st' a. nv_mmap first_fit demo0 4096 1 = Some (st', a) \<and> store_ok 1 st' \<and>
     object 1 (fs st') = object 1 (fs demo0) \<and> placeable 1 st' (a + 96) 4000 \<and>
     mem_read st' (a + 96) 4000 = Some (replicate 4000 0)"
  using nv_mmap_fresh_range [OF demo0_ok(1) os_ok_first_fit demo0_ok(2), of 4096 96] by simp

text \<open>
  C28: no two mappings share a file: the name of a data file determines the process and the mapping,
  so does the name of a metadata file, and the three kinds of files have different names.
\<close>

theorem map_files_distinct:
  "(create_map_file PROCMAPDATAPATH (sint p) (sint v) = create_map_file PROCMAPDATAPATH (sint p') (sint v')) =
     (p = p' \<and> v = v') \<and>
   (create_map_file PROCMAPMETADATA_PATH (sint p) (sint (BASE_METADATA_NVID + v)) =
     create_map_file PROCMAPMETADATA_PATH (sint p') (sint (BASE_METADATA_NVID + v'))) = (p = p' \<and> v = v') \<and>
   (generate_file_name PROCMETADATA_PATH (sint p) = generate_file_name PROCMETADATA_PATH (sint p')) = (p = p') \<and>
   create_map_file PROCMAPDATAPATH (sint p) (sint v) \<noteq>
     create_map_file PROCMAPMETADATA_PATH (sint p') (sint (BASE_METADATA_NVID + v')) \<and>
   generate_file_name PROCMETADATA_PATH (sint p) \<noteq> create_map_file PROCMAPDATAPATH (sint p') (sint v') \<and>
   generate_file_name PROCMETADATA_PATH (sint p) \<noteq>
     create_map_file PROCMAPMETADATA_PATH (sint p') (sint (BASE_METADATA_NVID + v'))"
  for p p' v v' :: UINT
  unfolding fdata_def [symmetric] fchunks_def [symmetric] fproc_def [symmetric] by simp

end
