(* ===== verification/CacheFlush.thy ===== *)
theory CacheFlush
  imports Nv_Prelude
begin

unbundle bit_operations_syntax

text \<open>
  \<open>pvmobj/cache_flush.cc\<close> and the inlined part of libpmem it can be built with. The effect of a
  flush is the sequence of instructions it issues; \<open>clflush\<close> writes back the cache line of 64 bytes
  that its operand lies in. The counters are those of \<open>pvmobj/nv_stats.cc\<close> that flushes use.
\<close>

section \<open>Instructions\<close>

datatype cpu_instr = Mfence | Sfence | Clflush ULONG

definition CACHELINESZ :: ULONG where
  "CACHELINESZ = 64"

definition line_of :: "ULONG \<Rightarrow> ULONG" where
  "line_of p = p AND NOT 63"

text \<open>A line is written back by a sequence of instructions.\<close>

definition flushed :: "cpu_instr list \<Rightarrow> ULONG \<Rightarrow> bool" where
  "flushed is' l \<longleftrightarrow> (\<exists>p. Clflush p \<in> set is' \<and> line_of p = l)"

section \<open>Counters\<close>

definition addto_cflush_cntr :: "UINT \<Rightarrow> UINT \<Rightarrow> UINT" where
  "addto_cflush_cntr nvlib_cflushcntr val = nvlib_cflushcntr + val"

definition incr_cflush_cntr :: "UINT \<Rightarrow> UINT" where
  "incr_cflush_cntr nvlib_cflushcntr = nvlib_cflushcntr + 1"

section \<open>Flushing\<close>

text \<open>
  The loop of \<open>flush_cache\<close>: \<open>i\<close> is an unsigned int and is compared with a \<open>size_t\<close>. \<open>clflush\<close> is
  empty unless the build defines \<open>_USE_CACHEFLUSH\<close>. Running for ever is \<open>None\<close>.
\<close>

definition clflush :: "bool \<Rightarrow> ULONG \<Rightarrow> cpu_instr list" where
  "clflush use_cacheflush p = (if use_cacheflush then [Clflush p] else [])"

partial_function (option) flush_loop :: "bool \<Rightarrow> UINT \<Rightarrow> ULONG \<Rightarrow> ULONG \<Rightarrow> cpu_instr list option" where
  "flush_loop use_cacheflush i p sz =
     (if ucast i < sz
      then do {
        r \<leftarrow> flush_loop use_cacheflush (i + ucast CACHELINESZ) (p + CACHELINESZ) sz;
        Some (clflush use_cacheflush p @ r) }
      else Some [])"

partial_function (option) pmem_flush_loop :: "ULONG \<Rightarrow> ULONG \<Rightarrow> cpu_instr list option" where
  "pmem_flush_loop uptr end' =
     (if uptr < end' then do { r \<leftarrow> pmem_flush_loop (uptr + 64) end'; Some (Clflush uptr # r) }
      else Some [])"

definition pmem_flush_cache :: "ULONG \<Rightarrow> ULONG \<Rightarrow> cpu_instr list option" where
  "pmem_flush_cache a len = pmem_flush_loop (a AND NOT 63) (a + len)"

definition pmem_persist :: "bool \<Rightarrow> ULONG \<Rightarrow> ULONG \<Rightarrow> cpu_instr list option" where
  "pmem_persist disable_sfence a len = do {
     r \<leftarrow> pmem_flush_cache a len;
     Some (r @ (if disable_sfence then [] else [Sfence])) }"

text \<open>The build options are \<open>_LIBPMEMINTEL\<close>, \<open>_DISABLESFENCE\<close> and \<open>_USE_CACHEFLUSH\<close>.\<close>

record flush_cfg =
  libpmemintel :: bool
  disablesfence :: bool
  use_cacheflush :: bool

definition flush_cache :: "flush_cfg \<Rightarrow> ULONG \<Rightarrow> ULONG \<Rightarrow> cpu_instr list option" where
  "flush_cache cfg p sz = do {
     r \<leftarrow> (if libpmemintel cfg then pmem_persist (disablesfence cfg) p sz
          else do { r \<leftarrow> flush_loop (use_cacheflush cfg) 0 p sz; Some (Mfence # r) });
     Some (r @ [Mfence]) }"

section \<open>Lines\<close>

lemma unat_of_nat_ULONG: "n < 2 ^ 64 \<Longrightarrow> unat (of_nat n :: ULONG) = n"
  unfolding unat_of_nat by simp


lemma line_of_shift: "line_of p = push_bit 6 (drop_bit 6 p)"
proof -
  have m: "(63 :: ULONG) = mask 6" by (simp add: mask_eq_exp_minus_1)
  show ?thesis unfolding line_of_def m by (rule bit_eqI) (auto simp: bit_simps)
qed

lemma unat_line_of: "unat (line_of p) = 64 * (unat p div 64)"
proof -
  have "64 * (unat p div 64) \<le> unat p" by simp
  also have "\<dots> < 2 ^ 64" using unsigned_less [of p, where 'a = nat] by simp
  finally show ?thesis
    unfolding line_of_shift unsigned_push_bit_eq unsigned_drop_bit_eq
    by (simp add: push_bit_eq_mult drop_bit_eq_div take_bit_nat_eq_self mult.commute)
qed

lemma line_of_eq_iff: "line_of p = line_of q \<longleftrightarrow> unat p div 64 = unat q div 64"
  by (simp add: word_unat_eq_iff unat_line_of)

section \<open>The loops\<close>

text \<open>The number of rounds, and the addresses of the lines.\<close>

definition lines :: "nat \<Rightarrow> nat" where
  "lines n = (n + 63) div 64"

lemma unat_ucast_ULONG: "unat (ucast (i :: UINT) :: ULONG) = unat i"
proof -
  have "unat i < 2 ^ 64" using unsigned_less [of i, where 'a = nat] by simp
  then show ?thesis by (simp add: unsigned_ucast_eq take_bit_nat_eq_self)
qed

lemma ucast_less_iff: "(ucast (i :: UINT) :: ULONG) < sz \<longleftrightarrow> unat i < unat sz"
  by (simp add: word_less_nat_alt unat_ucast_ULONG)

lemma unat_add_64: "unat (i :: UINT) + 64 < 2 ^ 32 \<Longrightarrow> unat (i + ucast CACHELINESZ) = unat i + 64"
  by (simp add: CACHELINESZ_def unat_word_ariths(1))

lemma lines_less: "k < lines n \<longleftrightarrow> 64 * k < n"
  by (auto simp: lines_def)

lemma upt_0_Suc: "map f [0..<Suc n] = f 0 # map (\<lambda>j. f (Suc j)) [0..<n]"
  by (induction n) simp_all

lemma flush_loop_ok:
  assumes "unat sz \<le> 2 ^ 32 - 64" and "unat i = 64 * k" and "lines (unat sz) - k = n"
  shows "flush_loop b i p sz = Some (concat (map (\<lambda>j. clflush b (p + of_nat (64 * j))) [0..<n]))"
  using assms(2,3)
proof (induction n arbitrary: i p k)
  case 0
  then have "\<not> (ucast i :: ULONG) < sz" using lines_less [of k "unat sz"] by (simp add: ucast_less_iff)
  then show ?case by (subst flush_loop.simps) simp
next
  case (Suc n)
  then have "k < lines (unat sz)" by linarith
  then have k: "64 * k < unat sz" by (simp add: lines_less)
  then have "64 * k < 64 * 67108863" using assms(1) by simp
  then have "64 * k + 64 < 2 ^ 32" by simp
  then have "unat (i + ucast CACHELINESZ) = 64 * Suc k" using unat_add_64 [of i] Suc.prems(1) by simp
  then have "flush_loop b (i + ucast CACHELINESZ) (p + CACHELINESZ) sz =
      Some (concat (map (\<lambda>j. clflush b (p + CACHELINESZ + of_nat (64 * j))) [0..<n]))"
    using Suc.prems(2) by (intro Suc.IH [of _ "Suc k"]) simp_all
  moreover have "(ucast i :: ULONG) < sz" using k Suc.prems(1) by (simp add: ucast_less_iff)
  moreover have e: "p + CACHELINESZ + of_nat (64 * j) = p + of_nat (64 * Suc j)" for j
    by (simp add: CACHELINESZ_def)
  ultimately show ?case unfolding upt_0_Suc e by (subst flush_loop.simps) simp
qed

text \<open>With a larger size the counter wraps around before it reaches the size.\<close>

lemma flush_loop_diverges:
  assumes "2 ^ 32 - 64 < unat sz" and "64 dvd unat i"
  shows "flush_loop b i p sz = None"
proof (rule ccontr)
  assume "flush_loop b i p sz \<noteq> None"
  then obtain r where r: "flush_loop b i p sz = Some r" by auto
  have "64 dvd unat i \<longrightarrow> 2 ^ 32 - 64 < unat sz \<longrightarrow> False" if "flush_loop b i p sz = Some r" for b i p sz r
  proof (rule flush_loop.raw_induct [where P = "\<lambda>b i p sz r. 64 dvd unat i \<longrightarrow> 2 ^ 32 - 64 < unat sz \<longrightarrow> False", OF _ that])
    fix rec :: "bool \<Rightarrow> UINT \<Rightarrow> ULONG \<Rightarrow> ULONG \<Rightarrow> cpu_instr list option" and b i p sz r
    assume 1: "\<And>b i p sz r. rec b i p sz = Some r \<Longrightarrow> 64 dvd unat i \<longrightarrow> 2 ^ 32 - 64 < unat sz \<longrightarrow> False"
      and 2: "(if ucast i < sz then do { r \<leftarrow> rec b (i + ucast CACHELINESZ) (p + CACHELINESZ) sz;
        Some (clflush b p @ r) } else Some []) = Some r"
    show "64 dvd unat i \<longrightarrow> 2 ^ 32 - 64 < unat sz \<longrightarrow> False"
    proof (intro impI)
      assume i: "64 dvd unat i" and sz: "2 ^ 32 - 64 < unat sz"
      have "unat i < 4294967296" using unsigned_less [of i, where 'a = nat] by simp
      then have le: "unat i \<le> 4294967232" using i by (auto elim!: dvdE)
      then have "(ucast i :: ULONG) < sz" using sz by (simp add: ucast_less_iff)
      then have "rec b (i + ucast CACHELINESZ) (p + CACHELINESZ) sz \<noteq> None"
        using 2 by (intro notI) simp
      moreover have "unat (i + ucast CACHELINESZ) = (unat i + 64) mod 2 ^ 32"
        by (simp add: CACHELINESZ_def unat_word_ariths(1))
      then have "64 dvd unat (i + ucast CACHELINESZ)" using i by (simp add: dvd_mod)
      ultimately show False using 1 sz by fastforce
    qed
  qed
  then show False using r assms by blast
qed

lemma unat_add_off64: "unat (a :: ULONG) + n < 2 ^ 64 \<Longrightarrow> unat (a + of_nat n) = unat a + n"
proof -
  assume h: "unat a + n < 2 ^ 64"
  then have "unat (of_nat n :: ULONG) = n" by (intro unat_of_nat_ULONG) simp
  then show ?thesis using h by (simp add: unat_word_ariths(1))
qed

lemma pmem_flush_loop_ok:
  assumes "unat e \<le> 2 ^ 64 - 64" and "lines (unat e - unat u) = n" and "64 dvd unat u"
  shows "pmem_flush_loop u e = Some (map (\<lambda>j. Clflush (u + of_nat (64 * j))) [0..<n])"
  using assms(2,3)
proof (induction n arbitrary: u)
  case 0
  then have "\<not> u < e" using lines_less [of 0 "unat e - unat u"] by (simp add: word_less_nat_alt)
  then show ?case by (subst pmem_flush_loop.simps) simp
next
  case (Suc n)
  then have "0 < lines (unat e - unat u)" by simp
  then have lt: "unat u < unat e" by (simp add: lines_less)
  then have "unat u < 64 * (2 ^ 58 - 1)" using assms(1) by simp
  then have "unat u + 64 < 2 ^ 64" using Suc.prems(2) by (auto elim!: dvdE)
  then have u: "unat (u + 64) = unat u + 64" using unat_add_off64 [of u 64] by simp
  have "lines (unat e - unat (u + 64)) = n" using Suc.prems(1) lt unfolding u by (auto simp: lines_def)
  then have "pmem_flush_loop (u + 64) e = Some (map (\<lambda>j. Clflush (u + 64 + of_nat (64 * j))) [0..<n])"
    using Suc.prems(2) u by (intro Suc.IH) simp_all
  moreover have e: "u + 64 + of_nat (64 * j) = u + of_nat (64 * Suc j)" for j by simp
  ultimately show ?case unfolding upt_0_Suc e using lt by (subst pmem_flush_loop.simps) (simp add: word_less_nat_alt)
qed

lemma flushed_map: "flushed (map (\<lambda>j. Clflush (f j)) xs) l \<longleftrightarrow> (\<exists>j \<in> set xs. line_of (f j) = l)"
  by (auto simp: flushed_def)

lemma flushed_append [simp]: "flushed (xs @ ys) l \<longleftrightarrow> flushed xs l \<or> flushed ys l"
  by (auto simp: flushed_def)

lemma flushed_simps [simp]: "\<not> flushed [] l" "flushed (Mfence # xs) l = flushed xs l" "flushed (Sfence # xs) l = flushed xs l"
  by (simp_all add: flushed_def)

lemma lines_range:
  assumes "0 < n"
  shows "(\<exists>k < lines (x + n - 64 * (x div 64)). y = 64 * (x div 64 + k)) \<longleftrightarrow> (\<exists>j < n. y = 64 * ((x + j) div 64))"
proof (intro iffI; elim exE conjE)
  fix k assume k: "k < lines (x + n - 64 * (x div 64))" "y = 64 * (x div 64 + k)"
  then have lt: "64 * (x div 64) + 64 * k < x + n" by (auto simp: lines_less)
  show "\<exists>j < n. y = 64 * ((x + j) div 64)"
  proof (cases "k = 0")
    case True
    then show ?thesis using k(2) assms by (intro exI [of _ 0]) simp
  next
    case False
    have "x < 64 * (x div 64) + 64" by simp
    then have le: "x \<le> 64 * (x div 64 + k)" using False by (cases k) simp_all
    then have "x + (64 * (x div 64 + k) - x) = 64 * (x div 64 + k)" by simp
    then have "y = 64 * ((x + (64 * (x div 64 + k) - x)) div 64)" using k(2) by simp
    moreover have "64 * (x div 64 + k) - x < n" using lt le by simp
    ultimately show ?thesis by blast
  qed
next
  fix j assume j: "j < n" "y = 64 * ((x + j) div 64)"
  let ?k = "(x + j) div 64 - x div 64"
  have "x div 64 \<le> (x + j) div 64" by (simp add: div_le_mono)
  then have k: "x div 64 + ?k = (x + j) div 64" by simp
  have "64 * ((x + j) div 64) \<le> x + j" by simp
  then have "64 * (x div 64) + 64 * ?k < x + n" using j(1) k by simp
  then have "?k < lines (x + n - 64 * (x div 64))" unfolding lines_less by simp
  then show "\<exists>k < lines (x + n - 64 * (x div 64)). y = 64 * (x div 64 + k)" using j(2) k by metis
qed

section \<open>What the flushes write back\<close>

text \<open>
  C29: \<open>flush_cache\<close> without libpmem returns exactly when the size is at most \<open>2 ^ 32 - 64\<close>: its 32 bit
  counter wraps around below a larger size and the loop never ends.
\<close>

theorem flush_cache_terminates_iff:
  "(\<exists>r. flush_cache \<lparr>libpmemintel = False, disablesfence = d, use_cacheflush = u\<rparr> p sz = Some r) =
     (unat sz \<le> 2 ^ 32 - 64)"
proof (cases "unat sz \<le> 2 ^ 32 - 64")
  case True
  then show ?thesis using flush_loop_ok [OF True, of 0 0 _ u p] by (simp add: flush_cache_def)
next
  case False
  then show ?thesis using flush_loop_diverges [of sz 0 u p] by (simp add: flush_cache_def)
qed

text \<open>
  C30: byte \<open>j\<close> of the range is written back by \<open>flush_cache\<close> exactly when its line is among the first
  \<open>lines size\<close> lines from the one the range starts in: every byte when the range starts on a line
  boundary, but not the end of a range that starts inside a line and ends in one line more.
\<close>

theorem flush_cache_lines:
  assumes "unat sz \<le> 2 ^ 32 - 64" and "unat p + unat sz + 64 < 2 ^ 64" and "j < unat sz"
  shows "\<exists>r. flush_cache \<lparr>libpmemintel = False, disablesfence = d, use_cacheflush = True\<rparr> p sz = Some r \<and>
    flushed r (line_of (p + of_nat j)) = ((unat p mod 64 + j) div 64 < lines (unat sz))"
proof -
  let ?n = "lines (unat sz)" and ?r = "map (\<lambda>k. Clflush (p + of_nat (64 * k))) [0..<lines (unat sz)]"
  have "concat (map (\<lambda>j. clflush True (p + of_nat (64 * j))) [0..<?n]) = ?r" by (simp add: clflush_def)
  then have r: "flush_cache \<lparr>libpmemintel = False, disablesfence = d, use_cacheflush = True\<rparr> p sz = Some (Mfence # ?r @ [Mfence])"
    using flush_loop_ok [OF assms(1), of 0 0 _ True p] by (simp add: flush_cache_def)
  have k: "unat (p + of_nat (64 * k)) = unat p + 64 * k" if "k < ?n" for k
  proof -
    have "64 * k < unat sz" using that by (simp add: lines_less)
    then show ?thesis using assms(2) by (intro unat_add_off64) simp
  qed
  have uj: "unat (p + of_nat j) = unat p + j" using assms(2,3) by (intro unat_add_off64) simp
  have div: "(unat p + j) div 64 = unat p div 64 + (unat p mod 64 + j) div 64"
    by (metis add.assoc div_mult_self4 mult_div_mod_eq zero_neq_numeral)
  have "flushed ?r (line_of (p + of_nat j)) \<longleftrightarrow> (\<exists>k < ?n. (unat p + 64 * k) div 64 = (unat p + j) div 64)"
    using k by (auto simp: flushed_map line_of_eq_iff uj)
  also have "\<dots> \<longleftrightarrow> (unat p mod 64 + j) div 64 < ?n" unfolding div by auto
  finally show ?thesis using r by auto
qed

theorem flush_cache_lines_witness:
  "\<exists>r. flush_cache \<lparr>libpmemintel = False, disablesfence = False, use_cacheflush = True\<rparr> 0x1020 64 = Some r \<and>
     \<not> flushed r (line_of (0x1020 + of_nat 63))"
  using flush_cache_lines [of 64 "0x1020" 63 False] by (simp add: lines_def)

text \<open>
  C31: \<open>pmem_persist\<close> writes back exactly the lines of the bytes of the range, wherever it starts.
\<close>

theorem pmem_persist_lines:
  assumes "0 < unat len" and "unat a + unat len \<le> 2 ^ 64 - 64"
  shows "\<exists>r. pmem_persist d a len = Some r \<and> flushed r l = (\<exists>j < unat len. l = line_of (a + of_nat j))"
proof -
  let ?u = "line_of a" and ?n = "lines (unat (a + len) - unat (line_of a))"
  let ?r = "map (\<lambda>k. Clflush (?u + of_nat (64 * k))) [0..<?n]"
  have u: "unat ?u = 64 * (unat a div 64)" by (rule unat_line_of)
  have e: "unat (a + len) = unat a + unat len" using assms(2) by (simp add: unat_word_ariths(1))
  have "pmem_flush_loop ?u (a + len) = Some ?r" using assms(2) u e by (intro pmem_flush_loop_ok) simp_all
  then have r: "pmem_persist d a len = Some (?r @ (if d then [] else [Sfence]))"
    unfolding pmem_persist_def pmem_flush_cache_def line_of_def [symmetric] by simp
  have k: "unat (?u + of_nat (64 * k)) = 64 * (unat a div 64 + k)" if "k < ?n" for k
  proof -
    have "64 * k < unat a + unat len - unat ?u" using that by (simp add: lines_less e)
    then show ?thesis using assms(2) u unat_add_off64 [of ?u "64 * k"] by simp
  qed
  have uj: "unat (a + of_nat j) = unat a + j" if "j < unat len" for j
    using assms(2) that by (intro unat_add_off64) simp
  have "flushed ?r l \<longleftrightarrow> (\<exists>k < ?n. unat l = 64 * (unat a div 64 + k))"
    using k by (auto simp: flushed_map word_unat_eq_iff unat_line_of)
  also have "\<dots> \<longleftrightarrow> (\<exists>j < unat len. unat l = 64 * ((unat a + j) div 64))"
    unfolding e u by (rule lines_range [OF assms(1)])
  also have "\<dots> \<longleftrightarrow> (\<exists>j < unat len. l = line_of (a + of_nat j))"
    using uj by (auto simp: word_unat_eq_iff unat_line_of)
  finally show ?thesis using r by auto
qed

theorem pmem_persist_lines_witness:
  "\<exists>r. pmem_persist False 0x1020 64 = Some r \<and> flushed r 0x1040"
proof -
  have "(0x1040 :: ULONG) = line_of (0x1020 + of_nat 40)" by (simp add: line_of_def)
  moreover have "(40 :: nat) < unat (64 :: ULONG)" by simp
  ultimately have "\<exists>j < unat (64 :: ULONG). 0x1040 = line_of (0x1020 + of_nat j)" by blast
  then show ?thesis using pmem_persist_lines [of 64 "0x1020" False "0x1040"] by auto
qed

end
