(* ===== verification/LogMngr.thy ===== *)
theory LogMngr
  imports CacheFlush Std_Map
begin

unbundle bit_operations_syntax

text \<open>
  \<open>pvmobj/LogMngr.cc\<close>: the log of objects and the log of words, each with an area of records and an area
  of data, the positions that nested transactions go back to, and the redo log of words with its
  hash table. An access outside of the mapped areas is \<open>None\<close>.
\<close>

section \<open>State\<close>

record record_s =
  rec_virtaddr :: ULONG
  rec_length :: UINT
  rec_offset :: UINT

record wrdrec_s =
  wrd_virtaddr :: ULONG
  wrd_dataoff :: UINT

definition sizeof_record_s :: ULONG where
  "sizeof_record_s = 16"

definition sizeof_master_s :: ULONG where
  "sizeof_master_s = 24"

definition sizeof_wrdrec_s :: ULONG where
  "sizeof_wrdrec_s = 16"

definition MAX_NESTED_TRANS :: nat where
  "MAX_NESTED_TRANS = 256"

definition TRANS_LOGSZ :: ULONG where
  "TRANS_LOGSZ = 500 * 1024 * 1024 * 1"

definition TRANS_DATA_LOGSZ :: ULONG where
  "TRANS_DATA_LOGSZ = 500 * 1024 * 1024 * 1"

definition CACHE_LINE_SIZE :: UINT where
  "CACHE_LINE_SIZE = 64"

text \<open>
  \<open>lg_mem\<close> holds the data of the application and of the logs; records and the record count of a master
  record are kept by their address. \<open>lg_instrs\<close> are the flush instructions issued so far.
\<close>

record log_st =
  lg_mem :: "ULONG \<Rightarrow> byte"
  lg_maps :: "(ULONG \<times> nat) list"
  lg_instrs :: "cpu_instr list"
  obj_recs :: "ULONG \<Rightarrow> record_s"
  wrd_recs :: "ULONG \<Rightarrow> wrdrec_s"
  rec_counts :: "ULONG \<Rightarrow> UINT"
  use_wal :: bool
  loginitalized :: bool
  g_recid :: UINT
  objrecmap :: ULONG
  objdatmap :: ULONG
  wrdrecmap :: ULONG
  wrddatmap :: ULONG
  currobjrec :: ULONG
  curdatobjptr :: ULONG
  currwrdrec :: ULONG
  curdatwrdptr :: ULONG
  objdataoff :: UINT
  objheaderoff :: UINT
  wrddataoff :: UINT
  wrdheaderoff :: UINT
  wrd_rechead :: "ULONG list"
  wrd_datahead :: "ULONG list"
  wrd_nstd_cntr :: UINT
  obj_rechead :: "ULONG list"
  obj_datahead :: "ULONG list"
  obj_nstd_cntr :: UINT
  wrdloghash :: "(ULONG, ULONG) unordered_map"

section \<open>Memory\<close>

definition mapped :: "log_st \<Rightarrow> ULONG \<Rightarrow> nat \<Rightarrow> bool" where
  "mapped st a n \<longleftrightarrow> n = 0 \<or> (\<exists>(b, l) \<in> set (lg_maps st). unat b \<le> unat a \<and> unat a + n \<le> unat b + l)"

definition bytes_at :: "log_st \<Rightarrow> ULONG \<Rightarrow> nat \<Rightarrow> byte list" where
  "bytes_at st a n = map (\<lambda>i. lg_mem st (a + of_nat i)) [0..<n]"

definition lg_read :: "log_st \<Rightarrow> ULONG \<Rightarrow> nat \<Rightarrow> byte list option" where
  "lg_read st a n = (if mapped st a n then Some (bytes_at st a n) else None)"

definition lg_write :: "log_st \<Rightarrow> ULONG \<Rightarrow> byte list \<Rightarrow> log_st option" where
  "lg_write st a bs =
     (if mapped st a (length bs)
      then Some (st\<lparr>lg_mem := (\<lambda>x. if unat (x - a) < length bs then bs ! unat (x - a) else lg_mem st x)\<rparr>)
      else None)"

definition lg_flush :: "flush_cfg \<Rightarrow> log_st \<Rightarrow> ULONG \<Rightarrow> ULONG \<Rightarrow> log_st option" where
  "lg_flush cfg st a n = do {
     r \<leftarrow> flush_cache cfg a n;
     Some (st\<lparr>lg_instrs := lg_instrs st @ r\<rparr>) }"

text \<open>A word in memory, least significant byte first.\<close>

definition word_bytes :: "nat \<Rightarrow> ULONG \<Rightarrow> byte list" where
  "word_bytes n w = map (\<lambda>i. ucast (drop_bit (8 * i) w)) [0..<n]"

definition bytes_word :: "byte list \<Rightarrow> ULONG" where
  "bytes_word bs = foldr (\<lambda>b w. ucast b OR push_bit 8 w) bs 0"

section \<open>Setting up\<close>

text \<open>
  Anonymous memory is zeroed. \<open>os\<close> chooses its address; \<open>MAP_FAILED\<close> is the address with all bits set.
\<close>

definition in_range :: "ULONG \<Rightarrow> nat \<Rightarrow> ULONG \<Rightarrow> bool" where
  "in_range a n x \<longleftrightarrow> unat (x - a) < n"

definition mmap_anon :: "((ULONG \<times> nat) list \<Rightarrow> nat \<Rightarrow> ULONG option) \<Rightarrow> log_st \<Rightarrow> nat \<Rightarrow> log_st \<times> ULONG" where
  "mmap_anon os st n = (case os (lg_maps st) n of
     None \<Rightarrow> (st, - 1)
   | Some a \<Rightarrow> (st\<lparr>lg_maps := (a, n) # lg_maps st,
       lg_mem := (\<lambda>x. if in_range a n x then 0 else lg_mem st x),
       obj_recs := (\<lambda>x. if in_range a n x then \<lparr>rec_virtaddr = 0, rec_length = 0, rec_offset = 0\<rparr> else obj_recs st x),
       wrd_recs := (\<lambda>x. if in_range a n x then \<lparr>wrd_virtaddr = 0, wrd_dataoff = 0\<rparr> else wrd_recs st x),
       rec_counts := (\<lambda>x. if in_range a n x then 0 else rec_counts st x)\<rparr>, a))"

definition map_log_records :: "((ULONG \<times> nat) list \<Rightarrow> nat \<Rightarrow> ULONG option) \<Rightarrow> log_st \<Rightarrow> log_st option" where
  "map_log_records os st = do {
     let (st, a) = mmap_anon os st (unat TRANS_LOGSZ);
     let st = st\<lparr>objrecmap := a\<rparr>;
     let (st, a) = mmap_anon os st (unat TRANS_DATA_LOGSZ);
     let st = st\<lparr>objdatmap := a\<rparr>;
     let (st, a) = mmap_anon os st (unat TRANS_LOGSZ);
     let st = st\<lparr>wrdrecmap := a\<rparr>;
     let (st, a) = mmap_anon os st (unat TRANS_DATA_LOGSZ);
     let st = st\<lparr>wrddatmap := a\<rparr>;
     c_assert (wrdrecmap st \<noteq> - 1);
     c_assert (wrddatmap st \<noteq> - 1);
     c_assert (objrecmap st \<noteq> - 1);
     c_assert (objdatmap st \<noteq> - 1);
     Some st }"

definition add_master_record :: "log_st \<Rightarrow> ULONG \<Rightarrow> log_st option" where
  "add_master_record st logrec = do {
     c_assert (mapped st logrec 4);
     Some (st\<lparr>rec_counts := (rec_counts st)(logrec := 0)\<rparr>) }"

text \<open>\<open>currobjrec += sizeof(master_s)\<close> moves on by that many records, not bytes.\<close>

definition init_obj_logmngr :: "log_st \<Rightarrow> bool \<Rightarrow> log_st option" where
  "init_obj_logmngr st isnewLog = do {
     let st = st\<lparr>currobjrec := objrecmap st, curdatobjptr := objdatmap st, objdataoff := 0,
                 objheaderoff := 0, obj_nstd_cntr := 0\<rparr>;
     st \<leftarrow> (if isnewLog then add_master_record st (currobjrec st) else Some st);
     let st = st\<lparr>currobjrec := currobjrec st + sizeof_master_s * sizeof_record_s\<rparr>;
     let st = st\<lparr>objrecmap := currobjrec st\<rparr>;
     Some (st\<lparr>objheaderoff := objheaderoff st + ucast sizeof_master_s\<rparr>) }"

definition init_wrd_logmngr :: "log_st \<Rightarrow> bool \<Rightarrow> log_st option" where
  "init_wrd_logmngr st isnewLog = do {
     let st = st\<lparr>wrd_nstd_cntr := 0, currwrdrec := wrdrecmap st, curdatwrdptr := wrddatmap st,
                 wrddataoff := 0, wrdheaderoff := 0\<rparr>;
     st \<leftarrow> (if isnewLog then add_master_record st (currwrdrec st) else Some st);
     let st = st\<lparr>currwrdrec := currwrdrec st + sizeof_master_s\<rparr>;
     let st = st\<lparr>wrdrecmap := currwrdrec st\<rparr>;
     Some (st\<lparr>wrdheaderoff := wrdheaderoff st + ucast sizeof_master_s\<rparr>) }"

text \<open>\<open>use_redo\<close> is the build option \<open>_USE_REDO_LOG\<close>.\<close>

definition initialize_logmgr ::
  "((ULONG \<times> nat) list \<Rightarrow> nat \<Rightarrow> ULONG option) \<Rightarrow> bool \<Rightarrow> log_st \<Rightarrow> bool \<Rightarrow> log_st option" where
  "initialize_logmgr os use_redo st isnewLog = do {
     let st = st\<lparr>loginitalized := True\<rparr>;
     let st = (if use_redo then st\<lparr>use_wal := True\<rparr> else st);
     let st = st\<lparr>g_recid := 0\<rparr>;
     st \<leftarrow> map_log_records os st;
     st \<leftarrow> init_obj_logmngr st isnewLog;
     init_wrd_logmngr st isnewLog }"

section \<open>The bitmap of used log records\<close>

text \<open>The loops over bytes at an address; the bitmap is \<open>logsize / 8\<close> bytes long.\<close>

fun clear_bytes :: "log_st \<Rightarrow> ULONG \<Rightarrow> nat \<Rightarrow> log_st option" where
  "clear_bytes st p 0 = Some st"
| "clear_bytes st p (Suc n) = do { st \<leftarrow> lg_write st p [0]; clear_bytes st (p + 1) n }"

definition create_loguse_bitmap :: "log_st \<Rightarrow> ULONG \<Rightarrow> UINT \<Rightarrow> (log_st \<times> UINT) option" where
  "create_loguse_bitmap st logrec logsize = do {
     let bitmapsz = logsize div 8;
     st \<leftarrow> clear_bytes st logrec (unat bitmapsz);
     Some (st, bitmapsz) }"

definition set_loguse_bitmap :: "log_st \<Rightarrow> ULONG \<Rightarrow> UINT \<Rightarrow> (log_st \<times> byte) option" where
  "set_loguse_bitmap st bitmap_ptr counter = do {
     let bytepos = counter div 8;
     let byteoff = counter mod 8;
     let p = bitmap_ptr + ucast bytepos;
     let mask = (if byteoff \<noteq> 0 then push_bit (unat byteoff) 1 else 1 :: byte);
     bs \<leftarrow> lg_read st p 1;
     let b = hd bs OR mask;
     st \<leftarrow> lg_write st p [b];
     Some (st, b) }"

text \<open>
  Both loops advance their index by 8; \<open>check_commit_bits\<close> moves its pointer by 8 bytes too, the other by
  one. The index is an \<open>int\<close>, whose overflow is undefined.
\<close>

definition int_add :: "nat \<Rightarrow> nat \<Rightarrow> nat option" where
  "int_add i k = (if i + k < 2 ^ 31 then Some (i + k) else None)"

function check_commit_loop :: "log_st \<Rightarrow> ULONG \<Rightarrow> nat \<Rightarrow> nat \<Rightarrow> bool option" where
  "check_commit_loop st p idx len =
     (if \<not> idx < len then Some True
      else do {
        bs \<leftarrow> lg_read st p 1;
        if hd bs \<noteq> 0 then Some False
        else (case int_add idx 8 of None \<Rightarrow> None | Some j \<Rightarrow> check_commit_loop st (p + 8) j len) })"
  by pat_completeness auto
termination
  by (relation "measure (\<lambda>(st, p, idx, len). len - idx)") (auto simp: int_add_def split: if_splits)

declare check_commit_loop.simps [simp del]

definition check_commit_bits :: "log_st \<Rightarrow> ULONG \<Rightarrow> UINT \<Rightarrow> bool option" where
  "check_commit_bits st p len = check_commit_loop st p 0 (unat len)"

function scavenge_loop :: "log_st \<Rightarrow> ULONG \<Rightarrow> nat \<Rightarrow> nat \<Rightarrow> int option" where
  "scavenge_loop st p idx bitmapsz =
     (if \<not> idx < bitmapsz then Some 0
      else do {
        clean \<leftarrow> check_commit_bits st p 8;
        if \<not> clean then Some (- 1)
        else (case int_add idx 8 of None \<Rightarrow> None | Some j \<Rightarrow> scavenge_loop st (p + 1) j bitmapsz) })"
  by pat_completeness auto
termination
  by (relation "measure (\<lambda>(st, p, idx, n). n - idx)") (auto simp: int_add_def split: if_splits)

declare scavenge_loop.simps [simp del]

definition scavenge_loguse_bitmap :: "log_st \<Rightarrow> ULONG \<Rightarrow> ULONG \<Rightarrow> int option" where
  "scavenge_loguse_bitmap st bitmap_ptr logsize =
     (let bitmapsz = (ucast (logsize div 8) :: UINT) in scavenge_loop st bitmap_ptr 0 (unat bitmapsz))"

section \<open>The log of objects and the log of words\<close>

definition get_rec_count :: "log_st \<Rightarrow> ULONG \<Rightarrow> UINT option" where
  "get_rec_count st baselogrecptr = do {
     let p = baselogrecptr - sizeof_master_s;
     c_assert (mapped st p 4);
     Some (rec_counts st p) }"

definition incr_rec_count :: "log_st \<Rightarrow> ULONG \<Rightarrow> log_st option" where
  "incr_rec_count st baselogrecptr = do {
     let p = baselogrecptr - sizeof_master_s;
     c_assert (mapped st p 4);
     Some (st\<lparr>rec_counts := (rec_counts st)(p := rec_counts st p + 1)\<rparr>) }"

text \<open>
  The bytes to log come from memory, or, in \<open>add_redo_word_record\<close>, from a local variable, whose
  address is not null.
\<close>

definition put_data_log :: "flush_cfg \<Rightarrow> log_st \<Rightarrow> byte list \<Rightarrow> ULONG \<Rightarrow> log_st option" where
  "put_data_log cfg st bs logdataptr = do {
     c_assert (logdataptr \<noteq> 0);
     st \<leftarrow> lg_write st logdataptr bs;
     lg_flush cfg st logdataptr (of_nat (length bs)) }"

definition add_data_log :: "flush_cfg \<Rightarrow> log_st \<Rightarrow> ULONG \<Rightarrow> ULONG \<Rightarrow> UINT \<Rightarrow> log_st option" where
  "add_data_log cfg st dateptr logdataptr len = do {
     c_assert (dateptr \<noteq> 0);
     bs \<leftarrow> lg_read st dateptr (unat len);
     put_data_log cfg st bs logdataptr }"

definition add_wrd_hash :: "log_st \<Rightarrow> ULONG \<Rightarrow> ULONG \<Rightarrow> log_st" where
  "add_wrd_hash st p wr = st\<lparr>wrdloghash := um_put p wr (wrdloghash st)\<rparr>"

definition rmv_wrd_hash :: "log_st \<Rightarrow> ULONG \<Rightarrow> log_st" where
  "rmv_wrd_hash st p = st\<lparr>wrdloghash := um_erase p (wrdloghash st)\<rparr>"

definition find_wrd_hash :: "log_st \<Rightarrow> ULONG \<Rightarrow> ULONG" where
  "find_wrd_hash st p = (case um_find p (wrdloghash st) of None \<Rightarrow> 0 | Some r \<Rightarrow> r)"

definition add_obj_record :: "flush_cfg \<Rightarrow> log_st \<Rightarrow> ULONG \<Rightarrow> UINT \<Rightarrow> log_st option" where
  "add_obj_record cfg st dateptr len = do {
     c_assert (currobjrec st \<noteq> 0);
     c_assert (\<not> currobjrec st \<ge> objrecmap st + TRANS_LOGSZ);
     c_assert (\<not> curdatobjptr st \<ge> objdatmap st + TRANS_DATA_LOGSZ);
     st \<leftarrow> add_data_log cfg st dateptr (curdatobjptr st) len;
     let r = currobjrec st;
     c_assert (mapped st r 16);
     let st = st\<lparr>obj_recs := (obj_recs st)(r := (obj_recs st r)\<lparr>rec_length := len, rec_offset := objdataoff st\<rparr>)\<rparr>;
     let st = st\<lparr>objdataoff := objdataoff st + len\<rparr>;
     let st = st\<lparr>curdatobjptr := curdatobjptr st + ucast len\<rparr>;
     let st = st\<lparr>currobjrec := currobjrec st + sizeof_record_s\<rparr>;
     st \<leftarrow> incr_rec_count st (objrecmap st);
     Some (st\<lparr>objheaderoff := objheaderoff st + ucast sizeof_record_s\<rparr>) }"

text \<open>Going back to the start of an area that is full, which both kinds of word records do.\<close>

definition wrd_wrap :: "log_st \<Rightarrow> log_st" where
  "wrd_wrap st =
     (let st = (if currwrdrec st \<ge> wrdrecmap st + TRANS_LOGSZ
                then st\<lparr>currwrdrec := wrdrecmap st, wrdheaderoff := 0\<rparr> else st)
      in if curdatwrdptr st \<ge> wrddatmap st + TRANS_DATA_LOGSZ
         then st\<lparr>curdatwrdptr := wrddatmap st, wrddataoff := 0\<rparr> else st)"

definition set_dataoff :: "log_st \<Rightarrow> log_st option" where
  "set_dataoff st = do {
     let r = currwrdrec st;
     c_assert (mapped st r 16);
     Some (st\<lparr>wrd_recs := (wrd_recs st)(r := (wrd_recs st r)\<lparr>wrd_dataoff := wrddataoff st\<rparr>)\<rparr>) }"

definition wrd_advance :: "log_st \<Rightarrow> UINT \<Rightarrow> log_st" where
  "wrd_advance st len = st\<lparr>
     wrddataoff := wrddataoff st + len,
     curdatwrdptr := curdatwrdptr st + ucast len,
     currwrdrec := currwrdrec st + sizeof_wrdrec_s,
     wrdheaderoff := wrdheaderoff st + ucast sizeof_wrdrec_s\<rparr>"

definition add_word_record :: "flush_cfg \<Rightarrow> log_st \<Rightarrow> ULONG \<Rightarrow> log_st option" where
  "add_word_record cfg st dateptr = do {
     c_assert (currwrdrec st \<noteq> 0);
     let len = CACHE_LINE_SIZE;
     let st = wrd_wrap st;
     st \<leftarrow> add_data_log cfg st dateptr (curdatwrdptr st) len;
     st \<leftarrow> set_dataoff st;
     let st = wrd_advance st len;
     st \<leftarrow> incr_rec_count st (wrdrecmap st);
     Some (if use_wal st then add_wrd_hash st dateptr (currwrdrec st) else st) }"

section \<open>Transactions\<close>

definition reduce_offset :: "ULONG \<Rightarrow> ULONG \<Rightarrow> UINT" where
  "reduce_offset cur prev = ucast (if cur > prev then cur - prev else prev - cur)"

definition start_wrd_trans :: "log_st \<Rightarrow> log_st option" where
  "start_wrd_trans st = do {
     let i = unat (wrd_nstd_cntr st);
     c_assert (i < MAX_NESTED_TRANS);
     Some (st\<lparr>wrd_rechead := (wrd_rechead st)[i := currwrdrec st],
              wrd_datahead := (wrd_datahead st)[i := curdatwrdptr st],
              wrd_nstd_cntr := wrd_nstd_cntr st + 1\<rparr>) }"

definition end_wrd_trans :: "log_st \<Rightarrow> ULONG \<Rightarrow> log_st option" where
  "end_wrd_trans st dataptr = do {
     let st = (if wrd_nstd_cntr st \<noteq> 0 then st\<lparr>wrd_nstd_cntr := wrd_nstd_cntr st - 1\<rparr> else st);
     let idx = unat (wrd_nstd_cntr st);
     c_assert (idx < MAX_NESTED_TRANS);
     let rh = wrd_rechead st ! idx;
     let dh = wrd_datahead st ! idx;
     let st = st\<lparr>wrdheaderoff := wrdheaderoff st - reduce_offset (currwrdrec st) rh\<rparr>;
     let st = st\<lparr>wrddataoff := wrddataoff st - reduce_offset (curdatwrdptr st) dh\<rparr>;
     let st = st\<lparr>currwrdrec := rh, curdatwrdptr := dh\<rparr>;
     Some (if use_wal st then rmv_wrd_hash st dataptr else st) }"

definition start_obj_trans :: "log_st \<Rightarrow> log_st option" where
  "start_obj_trans st = do {
     let i = unat (obj_nstd_cntr st);
     c_assert (i < MAX_NESTED_TRANS);
     Some (st\<lparr>obj_rechead := (obj_rechead st)[i := currobjrec st],
              obj_datahead := (obj_datahead st)[i := curdatobjptr st],
              obj_nstd_cntr := obj_nstd_cntr st + 1\<rparr>) }"

definition end_obj_trans :: "log_st \<Rightarrow> log_st option" where
  "end_obj_trans st = do {
     let st = (if obj_nstd_cntr st \<noteq> 0 then st\<lparr>obj_nstd_cntr := obj_nstd_cntr st - 1\<rparr> else st);
     let idx = unat (obj_nstd_cntr st);
     c_assert (idx < MAX_NESTED_TRANS);
     let rh = obj_rechead st ! idx;
     let dh = obj_datahead st ! idx;
     let st = st\<lparr>objheaderoff := reduce_offset (currobjrec st) rh\<rparr>;
     let st = st\<lparr>objdataoff := objdataoff st - reduce_offset (curdatobjptr st) dh\<rparr>;
     Some (st\<lparr>currobjrec := rh, curdatobjptr := dh\<rparr>) }"

definition log_record :: "flush_cfg \<Rightarrow> log_st \<Rightarrow> ULONG \<Rightarrow> UINT \<Rightarrow> bool \<Rightarrow> log_st option" where
  "log_record cfg st dateptr len isWrdLogging =
     (if \<not> isWrdLogging then do { st \<leftarrow> start_obj_trans st; add_obj_record cfg st dateptr len }
      else do { st \<leftarrow> start_wrd_trans st; add_word_record cfg st dateptr })"

definition truncate_log_commit :: "log_st \<Rightarrow> ULONG \<Rightarrow> bool \<Rightarrow> log_st option" where
  "truncate_log_commit st dateptr isWrdLogging =
     (if \<not> isWrdLogging then end_obj_trans st else end_wrd_trans st dateptr)"

definition update_oncommit :: "log_st \<Rightarrow> ULONG \<Rightarrow> bool \<Rightarrow> log_st option" where
  "update_oncommit st dateptr isWrdLogging =
     (if \<not> isWrdLogging then truncate_log_commit st dateptr isWrdLogging
      else truncate_log_commit st dateptr isWrdLogging)"

section \<open>The redo log\<close>

definition add_redo_word_record :: "flush_cfg \<Rightarrow> log_st \<Rightarrow> ULONG \<Rightarrow> ULONG \<Rightarrow> log_st option" where
  "add_redo_word_record cfg st dateptr val = do {
     c_assert (currwrdrec st \<noteq> 0);
     let len = 8;
     let st = wrd_wrap st;
     st \<leftarrow> put_data_log cfg st (word_bytes 8 val) (curdatwrdptr st);
     st \<leftarrow> set_dataoff st;
     let st = add_wrd_hash st dateptr (currwrdrec st);
     let st = wrd_advance st len;
     incr_rec_count st (wrdrecmap st) }"

definition read_word :: "log_st \<Rightarrow> ULONG \<Rightarrow> ULONG option" where
  "read_word st p = map_option bytes_word (lg_read st p 8)"

definition read_log :: "log_st \<Rightarrow> ULONG \<Rightarrow> ULONG option" where
  "read_log st p = do {
     c_assert (p \<noteq> 0);
     let wordrec = find_wrd_hash st p;
     if wordrec = 0 then read_word st p
     else do {
       c_assert (mapped st wordrec 16);
       let a = wrddatmap st + ucast (wrd_dataoff (wrd_recs st wordrec));
       if a = 0 then Some 0 else read_word st a } }"

definition clear_data :: "log_st \<Rightarrow> ULONG \<Rightarrow> (log_st \<times> ULONG) option" where
  "clear_data st wordrec = do {
     c_assert (mapped st wordrec 16);
     let a = wrddatmap st + ucast (wrd_dataoff (wrd_recs st wordrec));
     st \<leftarrow> lg_write st a (replicate 8 0);
     w \<leftarrow> read_word st a;
     Some (st, w) }"

definition clear_wrdrec :: "log_st \<Rightarrow> ULONG \<Rightarrow> log_st option" where
  "clear_wrdrec st buff = do {
     c_assert (mapped st buff 16);
     Some (st\<lparr>wrd_recs := (wrd_recs st)(buff := \<lparr>wrd_virtaddr = 0, wrd_dataoff = 0\<rparr>)\<rparr>) }"

text \<open>
  The body of the loop of \<open>commit_all\<close>. The value is compared as a signed word with the largest
  \<open>unsigned int\<close>, and only the first four bytes of a value that is not larger are stored.
\<close>

definition commit_entry :: "log_st \<Rightarrow> ULONG \<Rightarrow> ULONG \<Rightarrow> log_st option" where
  "commit_entry st first wordrec = do {
     c_assert (first \<noteq> 0);
     c_assert (wordrec \<noteq> 0);
     val \<leftarrow> read_log st first;
     st \<leftarrow> (if sint val > 2 ^ 32 - 1 then lg_write st first (word_bytes 8 val)
           else lg_write st first (word_bytes 4 val));
     let st = rmv_wrd_hash st first;
     (st, w) \<leftarrow> clear_data st wordrec;
     clear_wrdrec st wordrec }"

text \<open>
  The loop erases the element its iterator stands on and then increments the iterator, which
  \<open>std::unordered_map\<close> leaves undefined: the loop has no defined behaviour beyond its first round.
\<close>

definition commit_all :: "log_st \<Rightarrow> log_st option" where
  "commit_all st = (case wrdloghash st of
     [] \<Rightarrow> Some st
   | (first, wordrec) # m \<Rightarrow> do { st \<leftarrow> commit_entry st first wordrec; None })"

section \<open>Lemmas on memory\<close>

lemma length_word_bytes [simp]: "length (word_bytes n w) = n"
  by (simp add: word_bytes_def)

lemma bit_bytes_word: "bit (bytes_word bs) n \<longleftrightarrow> n < 64 \<and> n div 8 < length bs \<and> bit (bs ! (n div 8)) (n mod 8)"
proof (induction bs arbitrary: n)
  case (Cons b bs)
  have "bytes_word (b # bs) = ucast b OR push_bit 8 (bytes_word bs)"
    by (simp add: bytes_word_def)
  moreover have "n div 8 = Suc ((n - 8) div 8)" "(n - 8) mod 8 = n mod 8" if "8 \<le> n"
    using that by (auto simp: le_div_geq le_mod_geq)
  ultimately show ?case
    using Cons.IH [of "n - 8"]
    by (cases "n < 8") (auto simp: bit_or_iff bit_push_bit_iff bit_ucast_iff nth_Cons'
      dest: bit_imp_le_length)
qed (simp add: bytes_word_def)

lemma bit_word_bytes: "i < n \<Longrightarrow> k < 8 \<Longrightarrow> bit (word_bytes n w ! i) k = bit w (8 * i + k)"
  by (simp add: word_bytes_def bit_ucast_iff bit_drop_bit_eq)

lemma bytes_word_bytes [simp]: "bytes_word (word_bytes 8 w) = w"
  by (rule bit_word_eqI) (auto simp: bit_bytes_word bit_word_bytes less_mult_imp_div_less)

lemma length_bytes_at [simp]: "length (bytes_at st a n) = n"
  by (simp add: bytes_at_def)

lemma unat_off: "n \<le> 2 ^ 64 \<Longrightarrow> i < n \<Longrightarrow> unat ((a + of_nat i) - a :: ULONG) = i"
  by (simp add: unat_of_nat)

lemma bytes_at_written:
  assumes "length bs \<le> 2 ^ 64"
  shows "bytes_at (st\<lparr>lg_mem := (\<lambda>x. if unat (x - a) < length bs then bs ! unat (x - a) else lg_mem st x)\<rparr>) a (length bs) = bs"
  using assms by (intro nth_equalityI) (simp_all add: bytes_at_def unat_of_nat)

end
