(* ===== verification/Log_Redo.thy ===== *)
theory Log_Redo
  imports LogMngr
begin

text \<open>
  The redo log of \<open>pvmobj/LogMngr.cc\<close> implements a map from addresses to words over the memory of the
  application, until its area of records is full.
\<close>

section \<open>The invariant\<close>

definition REDO_CAP :: nat where
  "REDO_CAP = 32767998"

definition wrd_areas :: "log_st \<Rightarrow> bool" where
  "wrd_areas st \<longleftrightarrow> 24 < unat (wrdrecmap st) \<and> unat (wrdrecmap st) + unat TRANS_LOGSZ \<le> 2 ^ 48 \<and>
     0 < unat (wrddatmap st) \<and> unat (wrddatmap st) + unat TRANS_DATA_LOGSZ \<le> 2 ^ 48 \<and>
     (wrdrecmap st - sizeof_master_s, unat TRANS_LOGSZ) \<in> set (lg_maps st) \<and>
     (wrddatmap st, unat TRANS_DATA_LOGSZ) \<in> set (lg_maps st)"

definition redo_rec :: "log_st \<Rightarrow> nat \<Rightarrow> ULONG" where
  "redo_rec st k = wrdrecmap st + of_nat (16 * k)"

definition redo_dat :: "log_st \<Rightarrow> nat \<Rightarrow> ULONG" where
  "redo_dat st k = wrddatmap st + of_nat (8 * k)"

definition redo_ok :: "log_st \<Rightarrow> nat \<Rightarrow> bool" where
  "redo_ok st n \<longleftrightarrow> wrd_areas st \<and> n \<le> REDO_CAP \<and>
     currwrdrec st = redo_rec st n \<and> curdatwrdptr st = redo_dat st n \<and> wrddataoff st = of_nat (8 * n) \<and>
     (\<forall>p r. um_find p (wrdloghash st) = Some r \<longrightarrow>
        (\<exists>k < n. r = redo_rec st k \<and> wrd_dataoff (wrd_recs st r) = of_nat (8 * k)))"

definition redo_abs :: "log_st \<Rightarrow> ULONG \<Rightarrow> ULONG option" where
  "redo_abs st p = map_option
     (\<lambda>r. bytes_word (bytes_at st (wrddatmap st + ucast (wrd_dataoff (wrd_recs st r))) 8))
     (um_find p (wrdloghash st))"

lemmas log_sizes = TRANS_LOGSZ_def TRANS_DATA_LOGSZ_def sizeof_master_s_def sizeof_wrdrec_s_def
  sizeof_record_s_def REDO_CAP_def CACHE_LINE_SIZE_def

lemma unat_logsz [simp]: "unat TRANS_LOGSZ = 524288000" "unat TRANS_DATA_LOGSZ = 524288000"
  by (simp_all add: log_sizes)

lemma unat_redo_rec: "wrd_areas st \<Longrightarrow> k \<le> REDO_CAP \<Longrightarrow> unat (redo_rec st k) = unat (wrdrecmap st) + 16 * k"
  unfolding redo_rec_def by (intro unat_add_off64) (simp add: wrd_areas_def REDO_CAP_def)

lemma unat_redo_dat: "wrd_areas st \<Longrightarrow> k \<le> REDO_CAP \<Longrightarrow> unat (redo_dat st k) = unat (wrddatmap st) + 8 * k"
  unfolding redo_dat_def by (intro unat_add_off64) (simp add: wrd_areas_def REDO_CAP_def)

lemma redo_rec_inj: "wrd_areas st \<Longrightarrow> j \<le> REDO_CAP \<Longrightarrow> k \<le> REDO_CAP \<Longrightarrow> redo_rec st j = redo_rec st k \<longleftrightarrow> j = k"
  by (simp add: word_unat_eq_iff unat_redo_rec)

lemma unat_recbase: "wrd_areas st \<Longrightarrow> unat (wrdrecmap st - sizeof_master_s) = unat (wrdrecmap st) - 24"
  by (subst unat_sub) (simp_all add: wrd_areas_def sizeof_master_s_def word_le_nat_alt)

lemma mapped_rec: "wrd_areas st \<Longrightarrow> k < REDO_CAP \<Longrightarrow> mapped st (redo_rec st k) 16"
  using unat_recbase [of st] unat_redo_rec [of st k]
  by (auto simp: mapped_def wrd_areas_def REDO_CAP_def
      intro!: bexI [of _ "(wrdrecmap st - sizeof_master_s, 524288000)"])

lemma mapped_dat: "wrd_areas st \<Longrightarrow> k < REDO_CAP \<Longrightarrow> mapped st (redo_dat st k) 8"
  using unat_redo_dat [of st k]
  by (auto simp: mapped_def wrd_areas_def REDO_CAP_def intro!: bexI [of _ "(wrddatmap st, 524288000)"])

lemma mapped_master: "wrd_areas st \<Longrightarrow> mapped st (wrdrecmap st - sizeof_master_s) 4"
  by (auto simp: mapped_def wrd_areas_def intro!: bexI [of _ "(wrdrecmap st - sizeof_master_s, 524288000)"])

lemma flush_cache_some:
  assumes "unat sz \<le> 2 ^ 32 - 64" and "unat p + unat sz \<le> 2 ^ 48"
  obtains r where "flush_cache cfg p sz = Some r"
proof -
  have "unat (p + sz) \<le> 2 ^ 64 - 64" using assms by (simp add: unat_word_ariths(1))
  moreover have "64 dvd unat (line_of p)" by (simp add: unat_line_of)
  ultimately have "\<exists>r. pmem_flush_loop (line_of p) (p + sz) = Some r" using pmem_flush_loop_ok by blast
  moreover obtain r where "flush_loop (use_cacheflush cfg) 0 p sz = Some r"
    using flush_loop_ok [OF assms(1), of 0 0] by auto
  ultimately have "\<exists>r. flush_cache cfg p sz = Some r"
    unfolding flush_cache_def pmem_persist_def pmem_flush_cache_def line_of_def by auto
  then show thesis using that by blast
qed

section \<open>Adding a record\<close>

lemma wrd_wrap_room:
  assumes "redo_ok st n" and "n < REDO_CAP"
  shows "wrd_wrap st = st"
proof -
  have w: "wrd_areas st" and p: "currwrdrec st = redo_rec st n" "curdatwrdptr st = redo_dat st n"
    using assms by (auto simp: redo_ok_def)
  have "unat (wrdrecmap st + TRANS_LOGSZ) = unat (wrdrecmap st) + 524288000"
    "unat (wrddatmap st + TRANS_DATA_LOGSZ) = unat (wrddatmap st) + 524288000"
    using w by (simp_all add: unat_word_ariths(1) wrd_areas_def)
  then have "\<not> currwrdrec st \<ge> wrdrecmap st + TRANS_LOGSZ" "\<not> curdatwrdptr st \<ge> wrddatmap st + TRANS_DATA_LOGSZ"
    using assms(2) unat_redo_rec [OF w, of n] unat_redo_dat [OF w, of n] unfolding p
    by (simp_all add: word_le_nat_alt REDO_CAP_def)
  then show ?thesis by (simp add: wrd_wrap_def)
qed

text \<open>The state after a record has been added.\<close>

definition redo_added :: "log_st \<Rightarrow> cpu_instr list \<Rightarrow> ULONG \<Rightarrow> ULONG \<Rightarrow> log_st" where
  "redo_added st r p v =
     (let c = currwrdrec st; d = curdatwrdptr st; m = wrdrecmap st - sizeof_master_s in
      st\<lparr>lg_mem := (\<lambda>x. if unat (x - d) < 8 then word_bytes 8 v ! unat (x - d) else lg_mem st x),
         lg_instrs := lg_instrs st @ r,
         wrd_recs := (wrd_recs st)(c := (wrd_recs st c)\<lparr>wrd_dataoff := wrddataoff st\<rparr>),
         wrdloghash := um_put p c (wrdloghash st),
         wrddataoff := wrddataoff st + 8, curdatwrdptr := d + 8, currwrdrec := c + 16,
         wrdheaderoff := wrdheaderoff st + 16,
         rec_counts := (rec_counts st)(m := rec_counts st m + 1)\<rparr>)"

lemma add_redo_word_record_eq:
  assumes ok: "redo_ok st n" and n: "n < REDO_CAP"
  obtains r where "add_redo_word_record cfg st p v = Some (redo_added st r p v)"
proof -
  have w: "wrd_areas st" and c: "currwrdrec st = redo_rec st n" and d: "curdatwrdptr st = redo_dat st n"
    using ok by (auto simp: redo_ok_def)
  have "0 < unat (redo_rec st n)" "0 < unat (redo_dat st n)"
    using unat_redo_rec [OF w, of n] unat_redo_dat [OF w, of n] w n by (auto simp: wrd_areas_def)
  then have nz: "currwrdrec st \<noteq> 0" "curdatwrdptr st \<noteq> 0" by (auto simp: c d)
  have "unat (redo_dat st n) + unat (8 :: ULONG) \<le> 2 ^ 48"
    using unat_redo_dat [OF w, of n] w n by (simp add: wrd_areas_def REDO_CAP_def)
  then obtain r where r: "flush_cache cfg (curdatwrdptr st) 8 = Some r"
    using flush_cache_some [of 8 "redo_dat st n" cfg] unfolding d by auto
  have m: "mapped st (currwrdrec st) 16" "mapped st (curdatwrdptr st) 8" "mapped st (wrdrecmap st - sizeof_master_s) 4"
    using mapped_rec [OF w n] mapped_dat [OF w n] mapped_master [OF w] by (simp_all add: c d)
  then have "add_redo_word_record cfg st p v = Some (redo_added st r p v)"
    unfolding add_redo_word_record_def wrd_wrap_room [OF ok n]
    by (simp add: nz r put_data_log_def lg_write_def lg_flush_def set_dataoff_def
        incr_rec_count_def redo_added_def add_wrd_hash_def wrd_advance_def mapped_def Let_def
        sizeof_wrdrec_s_def)
  then show thesis using that by blast
qed

lemma redo_added_simps [simp]:
  "wrdrecmap (redo_added st r p v) = wrdrecmap st" "wrddatmap (redo_added st r p v) = wrddatmap st"
  "lg_maps (redo_added st r p v) = lg_maps st"
  "wrdloghash (redo_added st r p v) = um_put p (currwrdrec st) (wrdloghash st)"
  by (simp_all add: redo_added_def Let_def)

lemma redo_added_geom [simp]:
  "wrd_areas (redo_added st r p v) = wrd_areas st"
  "redo_rec (redo_added st r p v) = redo_rec st" "redo_dat (redo_added st r p v) = redo_dat st"
  "mapped (redo_added st r p v) a k = mapped st a k"
  by (auto simp: wrd_areas_def redo_rec_def redo_dat_def mapped_def)

lemma redo_next: "redo_rec st n + 16 = redo_rec st (Suc n)" "redo_dat st n + 8 = redo_dat st (Suc n)"
  by (simp_all add: redo_rec_def redo_dat_def)

lemma redo_ok_added:
  assumes ok: "redo_ok st n" and n: "n < REDO_CAP"
  shows "redo_ok (redo_added st r p v) (Suc n)"
proof -
  have w: "wrd_areas st" and c: "currwrdrec st = redo_rec st n" and d: "curdatwrdptr st = redo_dat st n"
    and o: "wrddataoff st = of_nat (8 * n)"
    and e: "um_find q (wrdloghash st) = Some x \<Longrightarrow> \<exists>k < n. x = redo_rec st k \<and> wrd_dataoff (wrd_recs st x) = of_nat (8 * k)" for q x
    using ok by (auto simp: redo_ok_def)
  let ?t = "redo_added st r p v"
  have recs: "wrd_dataoff (wrd_recs ?t x) = (if x = redo_rec st n then of_nat (8 * n) else wrd_dataoff (wrd_recs st x))" for x
    by (simp add: redo_added_def Let_def c o)
  have "\<exists>k < Suc n. x = redo_rec st k \<and> wrd_dataoff (wrd_recs ?t x) = of_nat (8 * k)"
    if "um_find q (wrdloghash ?t) = Some x" for q x
  proof (cases "q = p")
    case False
    then obtain k where k: "k < n" "x = redo_rec st k" "wrd_dataoff (wrd_recs st x) = of_nat (8 * k)"
      using e [of q x] \<open>um_find q (wrdloghash ?t) = Some x\<close> by auto
    then have "x \<noteq> redo_rec st n" using redo_rec_inj [OF w, of k n] n by simp
    then show ?thesis using k unfolding recs by (intro exI [of _ k]) simp
  qed (use that in \<open>auto simp: recs c intro!: exI [of _ n]\<close>)
  moreover have "currwrdrec ?t = redo_rec st (Suc n)" "curdatwrdptr ?t = redo_dat st (Suc n)"
    "wrddataoff ?t = of_nat (8 * Suc n)"
    by (simp_all add: redo_added_def Let_def c d o flip: redo_next)
  ultimately show ?thesis using w n unfolding redo_ok_def by simp
qed

section \<open>Reading\<close>

lemma ucast_of_nat_ULONG: "m < 2 ^ 32 \<Longrightarrow> (ucast (of_nat m :: UINT) :: ULONG) = of_nat m"
  unfolding word_unat_eq_iff unat_ucast_ULONG unat_of_nat by simp

lemma ucast_dataoff: "k \<le> REDO_CAP \<Longrightarrow> wrddatmap st + ucast (of_nat (8 * k) :: UINT) = redo_dat st k"
  unfolding redo_dat_def by (subst ucast_of_nat_ULONG) (simp_all add: REDO_CAP_def)

lemma before_slot:
  fixes x d :: ULONG
  assumes "unat x < unat d" and "unat d \<le> 2 ^ 48"
  shows "\<not> unat (x - d) < 8"
  using assms by (simp add: unat_sub_if' )

lemma redo_abs_added:
  assumes ok: "redo_ok st n" and n: "n < REDO_CAP"
  shows "redo_abs (redo_added st r p v) q = (if q = p then Some v else redo_abs st q)"
proof -
  have w: "wrd_areas st" and c: "currwrdrec st = redo_rec st n" and d: "curdatwrdptr st = redo_dat st n"
    and o: "wrddataoff st = of_nat (8 * n)" using ok by (auto simp: redo_ok_def)
  let ?t = "redo_added st r p v"
  have recs: "wrd_dataoff (wrd_recs ?t x) = (if x = redo_rec st n then of_nat (8 * n) else wrd_dataoff (wrd_recs st x))" for x
    by (simp add: redo_added_def Let_def c o)
  have mem: "lg_mem ?t x = (if unat (x - redo_dat st n) < 8 then word_bytes 8 v ! unat (x - redo_dat st n) else lg_mem st x)" for x
    by (simp add: redo_added_def Let_def d)
  have new: "bytes_at ?t (redo_dat st n) 8 = word_bytes 8 v"
    by (rule nth_equalityI) (simp_all add: bytes_at_def mem unat_of_nat)
  have old: "bytes_at ?t (redo_dat st k) 8 = bytes_at st (redo_dat st k) 8" if "k < n" for k
  proof -
    have "\<not> unat (redo_dat st k + of_nat i - redo_dat st n) < 8" if "i < 8" for i
    proof (rule before_slot)
      show "unat (redo_dat st k + of_nat i) < unat (redo_dat st n)"
        using unat_redo_dat [OF w, of k] unat_redo_dat [OF w, of n] unat_add_off64 [of "redo_dat st k" i]
          \<open>k < n\<close> \<open>i < 8\<close> n w by (simp add: wrd_areas_def REDO_CAP_def)
      show "unat (redo_dat st n) \<le> 2 ^ 48"
        using unat_redo_dat [OF w, of n] n w by (simp add: wrd_areas_def REDO_CAP_def)
    qed
    then show ?thesis by (simp add: bytes_at_def mem)
  qed
  show ?thesis
  proof (cases "q = p")
    case True
    then show ?thesis using new n
      by (simp add: redo_abs_def recs c ucast_dataoff [of n st] del: of_nat_mult)
  next
    case False
    show ?thesis
    proof (cases "um_find q (wrdloghash st)")
      case (Some x)
      then obtain k where k: "k < n" "x = redo_rec st k" "wrd_dataoff (wrd_recs st x) = of_nat (8 * k)"
        using ok by (auto simp: redo_ok_def)
      then have "x \<noteq> redo_rec st n" using redo_rec_inj [OF w, of k n] n by simp
      then show ?thesis using Some False k n old [of k]
        by (simp add: redo_abs_def recs ucast_dataoff [of k st] del: of_nat_mult)
    qed (simp add: redo_abs_def False)
  qed
qed

lemma redo_slot_in_log:
  assumes n: "n < REDO_CAP" and x: "unat (x - redo_dat st n) < 8"
  shows "in_range (wrddatmap st) (unat TRANS_DATA_LOGSZ) x"
proof -
  have e: "x - wrddatmap st = (x - redo_dat st n) + of_nat (8 * n)" by (simp add: redo_dat_def)
  have "unat (x - wrddatmap st) = unat (x - redo_dat st n) + 8 * n"
    unfolding e using n x by (intro unat_add_off64) (simp add: REDO_CAP_def)
  then show ?thesis using x n by (simp add: in_range_def REDO_CAP_def)
qed

lemma redo_added_mem:
  assumes ok: "redo_ok st n" and n: "n < REDO_CAP" and x: "\<not> in_range (wrddatmap st) 524288000 x"
  shows "lg_mem (redo_added st r p v) x = lg_mem st x"
proof -
  have d: "curdatwrdptr st = redo_dat st n" using ok by (simp add: redo_ok_def)
  have "\<not> unat (x - redo_dat st n) < 8" using redo_slot_in_log [OF n, of x st] x by auto
  then show ?thesis by (simp add: redo_added_def Let_def d)
qed

lemma read_log_abs:
  assumes ok: "redo_ok st n" and p: "p \<noteq> 0"
  shows "read_log st p = (case redo_abs st p of Some v \<Rightarrow> Some v | None \<Rightarrow> read_word st p)"
proof (cases "um_find p (wrdloghash st)")
  case (Some r)
  have w: "wrd_areas st" using ok by (simp add: redo_ok_def)
  obtain k where k: "k < n" "r = redo_rec st k" "wrd_dataoff (wrd_recs st r) = of_nat (8 * k)" "k < REDO_CAP"
    using ok Some by (auto simp: redo_ok_def)
  have "0 < unat (redo_rec st k)" "0 < unat (redo_dat st k)"
    using unat_redo_rec [OF w, of k] unat_redo_dat [OF w, of k] w k(4) by (auto simp: wrd_areas_def)
  then have "redo_rec st k \<noteq> 0" "redo_dat st k \<noteq> 0" by auto
  then show ?thesis using Some k mapped_rec [OF w k(4)] mapped_dat [OF w k(4)] p
    by (simp add: read_log_def find_wrd_hash_def redo_abs_def read_word_def lg_read_def
        ucast_dataoff [of k st] del: of_nat_mult)
qed (use p in \<open>simp add: read_log_def find_wrd_hash_def redo_abs_def\<close>)

section \<open>Sequences of stores\<close>

definition add_redo_words :: "flush_cfg \<Rightarrow> log_st \<Rightarrow> (ULONG \<times> ULONG) list \<Rightarrow> log_st option" where
  "add_redo_words cfg = fold_option (\<lambda>st (p, v). add_redo_word_record cfg st p v)"

lemma add_redo_words_ok:
  assumes "redo_ok st n" and "n + length kvs \<le> REDO_CAP"
  shows "\<exists>st'. add_redo_words cfg st kvs = Some st' \<and> redo_ok st' (n + length kvs) \<and>
    wrddatmap st' = wrddatmap st \<and> lg_maps st' = lg_maps st \<and>
    (\<forall>q. redo_abs st' q = (case map_of (rev kvs) q of Some v \<Rightarrow> Some v | None \<Rightarrow> redo_abs st q)) \<and>
    (\<forall>x. \<not> in_range (wrddatmap st) 524288000 x \<longrightarrow> lg_mem st' x = lg_mem st x)"
  using assms
proof (induction kvs arbitrary: st n)
  case (Cons kv kvs)
  obtain p v where kv: "kv = (p, v)" by fastforce
  have n: "n < REDO_CAP" using Cons.prems by simp
  obtain r where r: "add_redo_word_record cfg st p v = Some (redo_added st r p v)"
    using add_redo_word_record_eq [OF Cons.prems(1) n] by blast
  let ?t = "redo_added st r p v"
  obtain u where u: "add_redo_words cfg ?t kvs = Some u" "redo_ok u (Suc n + length kvs)"
    "wrddatmap u = wrddatmap ?t" "lg_maps u = lg_maps ?t"
    "\<forall>q. redo_abs u q = (case map_of (rev kvs) q of Some v \<Rightarrow> Some v | None \<Rightarrow> redo_abs ?t q)"
    "\<forall>x. \<not> in_range (wrddatmap ?t) 524288000 x \<longrightarrow> lg_mem u x = lg_mem ?t x"
    using Cons.IH [OF redo_ok_added [OF Cons.prems(1) n, of r p v]] Cons.prems(2) by auto
  show ?case
  proof (intro exI conjI allI impI)
    show "add_redo_words cfg st (kv # kvs) = Some u" using u(1) r by (simp add: add_redo_words_def kv)
    show "redo_ok u (n + length (kv # kvs))" using u(2) by simp
    show "redo_abs u q = (case map_of (rev (kv # kvs)) q of Some v \<Rightarrow> Some v | None \<Rightarrow> redo_abs st q)" for q
      using u(5) redo_abs_added [OF Cons.prems(1) n] by (auto simp: kv map_add_def split: option.splits)
    show "lg_mem u x = lg_mem st x" if "\<not> in_range (wrddatmap st) 524288000 x" for x
      using u(6) redo_added_mem [OF Cons.prems(1) n that] that by simp
  qed (simp_all add: u)
qed (simp add: add_redo_words_def)

section \<open>The log as it is set up\<close>

definition mmap_law :: "((ULONG \<times> nat) list \<Rightarrow> nat \<Rightarrow> ULONG option) \<Rightarrow> bool" where
  "mmap_law os \<longleftrightarrow> (\<forall>maps n a. os maps n = Some a \<longrightarrow> 0 < unat a \<and> unat a + n \<le> 2 ^ 47)"

lemma mmap_lawD: "mmap_law os \<Longrightarrow> os maps n = Some a \<Longrightarrow> 0 < unat a \<and> unat a + n \<le> 2 ^ 47"
  by (simp add: mmap_law_def)

lemma map_log_records_ok:
  assumes os: "mmap_law os" and m: "map_log_records os st = Some t"
  shows "(wrdrecmap t, 524288000) \<in> set (lg_maps t) \<and> (wrddatmap t, 524288000) \<in> set (lg_maps t) \<and>
    0 < unat (wrdrecmap t) \<and> unat (wrdrecmap t) + 524288000 \<le> 2 ^ 47 \<and>
    0 < unat (wrddatmap t) \<and> unat (wrddatmap t) + 524288000 \<le> 2 ^ 47 \<and> wrdloghash t = wrdloghash st"
  using m unfolding map_log_records_def mmap_anon_def
  by (auto simp: c_assert_bind_eq_Some Let_def split: option.splits dest!: mmap_lawD [OF os])

lemma initialize_word_log:
  assumes m: "initialize_logmgr os redo st isnew = Some t"
  obtains u where "map_log_records os (st\<lparr>loginitalized := True, use_wal := use_wal st \<or> redo, g_recid := 0\<rparr>) = Some u"
    "wrdrecmap t = wrdrecmap u + 24" "wrddatmap t = wrddatmap u" "lg_maps t = lg_maps u"
    "currwrdrec t = wrdrecmap t" "curdatwrdptr t = wrddatmap t" "wrddataoff t = 0" "wrdloghash t = wrdloghash u"
proof -
  obtain u where u: "map_log_records os (st\<lparr>loginitalized := True, use_wal := use_wal st \<or> redo, g_recid := 0\<rparr>) = Some u"
    using m by (auto simp: initialize_logmgr_def Let_def bind_eq_Some_conv split: if_splits)
  show thesis
    using m u that [OF u]
    by (auto simp: initialize_logmgr_def init_obj_logmngr_def init_wrd_logmngr_def add_master_record_def
        Let_def bind_eq_Some_conv c_assert_bind_eq_Some sizeof_master_s_def split: if_splits)
qed

lemma initialize_redo_ok:
  assumes os: "mmap_law os" and m: "initialize_logmgr os redo st isnew = Some t" and e: "wrdloghash st = []"
  shows "redo_ok t 0 \<and> wrdloghash t = []"
proof -
  obtain u where u: "map_log_records os (st\<lparr>loginitalized := True, use_wal := use_wal st \<or> redo, g_recid := 0\<rparr>) = Some u"
    and t: "wrdrecmap t = wrdrecmap u + 24" "wrddatmap t = wrddatmap u" "lg_maps t = lg_maps u"
    "currwrdrec t = wrdrecmap t" "curdatwrdptr t = wrddatmap t" "wrddataoff t = 0" "wrdloghash t = wrdloghash u"
    using initialize_word_log [OF m] by blast
  note m = map_log_records_ok [OF os u]
  have "unat (wrdrecmap u + 24) = unat (wrdrecmap u) + 24"
    using unat_add_off64 [of "wrdrecmap u" 24] m by simp
  then have "wrd_areas t" using m by (simp add: wrd_areas_def t sizeof_master_s_def)
  moreover have "wrdloghash t = []" using m e by (simp add: t)
  ultimately show ?thesis using t by (simp add: redo_ok_def redo_rec_def redo_dat_def)
qed

section \<open>Properties\<close>

text \<open>An address of a word outside of the data area of the word log.\<close>

definition outside_log :: "log_st \<Rightarrow> ULONG \<Rightarrow> bool" where
  "outside_log st p \<longleftrightarrow> (\<forall>i < 8. \<not> in_range (wrddatmap st) (unat TRANS_DATA_LOGSZ) (p + of_nat i))"

lemma read_word_cong:
  assumes "lg_maps st' = lg_maps st" and "\<And>i. i < 8 \<Longrightarrow> lg_mem st' (p + of_nat i) = lg_mem st (p + of_nat i)"
  shows "read_word st' p = read_word st p"
proof -
  have "bytes_at st' p 8 = bytes_at st p 8" using assms(2) by (auto simp: bytes_at_def)
  then show ?thesis by (simp add: read_word_def lg_read_def mapped_def assms(1))
qed


definition demo_mmap :: "(ULONG \<times> nat) list \<Rightarrow> nat \<Rightarrow> ULONG option" where
  "demo_mmap maps n = (if 2 ^ 40 * (1 + length maps) + n \<le> 2 ^ 47 then Some (of_nat (2 ^ 40 * (1 + length maps))) else None)"

lemma demo_mmap_law: "mmap_law demo_mmap"
  unfolding mmap_law_def demo_mmap_def
  by (auto simp: unat_of_nat_ULONG split: if_splits simp del: of_nat_mult of_nat_add)

definition blank_log :: log_st where
  "blank_log = \<lparr>lg_mem = (\<lambda>x. 0), lg_maps = [(4096, 4096)], lg_instrs = [],
     obj_recs = (\<lambda>x. \<lparr>rec_virtaddr = 0, rec_length = 0, rec_offset = 0\<rparr>),
     wrd_recs = (\<lambda>x. \<lparr>wrd_virtaddr = 0, wrd_dataoff = 0\<rparr>), rec_counts = (\<lambda>x. 0),
     use_wal = False, loginitalized = False, g_recid = 0,
     objrecmap = 0, objdatmap = 0, wrdrecmap = 0, wrddatmap = 0,
     currobjrec = 0, curdatobjptr = 0, currwrdrec = 0, curdatwrdptr = 0,
     objdataoff = 0, objheaderoff = 0, wrddataoff = 0, wrdheaderoff = 0,
     wrd_rechead = replicate 256 0, wrd_datahead = replicate 256 0, wrd_nstd_cntr = 0,
     obj_rechead = replicate 256 0, obj_datahead = replicate 256 0, obj_nstd_cntr = 0,
     wrdloghash = []\<rparr>"

lemma initialize_demo:
  obtains st where "initialize_logmgr demo_mmap True blank_log True = Some st"
    "wrdrecmap st = 2 ^ 42 + 24" "wrddatmap st = 5 * 2 ^ 40" "currwrdrec st = 2 ^ 42 + 24" "curdatwrdptr st = 5 * 2 ^ 40"
    "wrd_nstd_cntr st = 0" "wrd_rechead st = replicate 256 0" "wrd_datahead st = replicate 256 0"
    "objrecmap st = 2 ^ 41 + 384" "objdatmap st = 3 * 2 ^ 40" "currobjrec st = 2 ^ 41 + 384" "curdatobjptr st = 3 * 2 ^ 40"
    "obj_nstd_cntr st = 0" "obj_rechead st = replicate 256 0" "obj_datahead st = replicate 256 0" "objheaderoff st = 24"
    "lg_maps st = [(5 * 2 ^ 40, 524288000), (2 ^ 42, 524288000), (3 * 2 ^ 40, 524288000), (2 ^ 41, 524288000), (4096, 4096)]"
    "\<And>i. i < 4096 \<Longrightarrow> lg_mem st (4096 + of_nat i) = 0"
  by (simp add: initialize_logmgr_def map_log_records_def mmap_anon_def demo_mmap_def blank_log_def log_sizes
      init_obj_logmngr_def init_wrd_logmngr_def add_master_record_def mapped_def Let_def)


end
