(* ===== verification/Log_Trans.thy ===== *)
theory Log_Trans
  imports Log_Redo
begin

text \<open>
  Nested transactions on the word log and on the object log of \<open>pvmobj/LogMngr.cc\<close>, what a commit of
  the redo log writes, and the bitmap of used log records.
\<close>

section \<open>Nested word transactions\<close>

datatype trans_op = Begin_wrd ULONG | End_wrd ULONG

fun run_trans_op :: "flush_cfg \<Rightarrow> log_st \<Rightarrow> trans_op \<Rightarrow> log_st option" where
  "run_trans_op cfg st (Begin_wrd p) = log_record cfg st p 0 True"
| "run_trans_op cfg st (End_wrd p) = update_oncommit st p True"

definition run_trans :: "flush_cfg \<Rightarrow> log_st \<Rightarrow> trans_op list \<Rightarrow> log_st option" where
  "run_trans cfg = fold_option (run_trans_op cfg)"

text \<open>Properly nested operations, \<open>d\<close> deep at most.\<close>

inductive nested :: "nat \<Rightarrow> trans_op list \<Rightarrow> bool" where
  nested_Nil: "nested d []"
| nested_Cons: "nested d xs \<Longrightarrow> nested (Suc d) ys \<Longrightarrow> nested (Suc d) (Begin_wrd p # xs @ End_wrd q # ys)"

definition logged :: "trans_op list \<Rightarrow> ULONG set" where
  "logged ops = {p. Begin_wrd p \<in> set ops}"

lemma logged_simps [simp]:
  "logged [] = {}" "logged (Begin_wrd p # ops) = insert p (logged ops)" "logged (End_wrd p # ops) = logged ops"
  "logged (xs @ ys) = logged xs \<union> logged ys"
  by (auto simp: logged_def)

definition trans_room :: "log_st \<Rightarrow> nat \<Rightarrow> bool" where
  "trans_room st d \<longleftrightarrow> wrd_areas st \<and>
     length (wrd_rechead st) = MAX_NESTED_TRANS \<and> length (wrd_datahead st) = MAX_NESTED_TRANS \<and>
     unat (wrd_nstd_cntr st) + d \<le> MAX_NESTED_TRANS \<and>
     unat (wrdrecmap st) \<le> unat (currwrdrec st) \<and>
     unat (currwrdrec st) + 16 * d + 24 \<le> unat (wrdrecmap st) + unat TRANS_LOGSZ \<and>
     unat (wrddatmap st) \<le> unat (curdatwrdptr st) \<and>
     unat (curdatwrdptr st) + 64 * d \<le> unat (wrddatmap st) + unat TRANS_DATA_LOGSZ"

text \<open>The position in the log, with everything of the enclosing transactions.\<close>

definition trans_pos :: "log_st \<Rightarrow> ULONG \<times> ULONG \<times> UINT \<times> UINT" where
  "trans_pos st = (currwrdrec st, curdatwrdptr st, wrdheaderoff st, wrddataoff st)"

definition trans_outer :: "log_st \<Rightarrow> nat \<Rightarrow> ULONG list \<times> ULONG list" where
  "trans_outer st n = (take n (wrd_rechead st), take n (wrd_datahead st))"

definition trans_same :: "log_st \<Rightarrow> log_st \<Rightarrow> bool" where
  "trans_same st t \<longleftrightarrow> wrdrecmap t = wrdrecmap st \<and> wrddatmap t = wrddatmap st \<and> lg_maps t = lg_maps st \<and>
     length (wrd_rechead t) = length (wrd_rechead st) \<and> length (wrd_datahead t) = length (wrd_datahead st)"

definition trans_restored :: "log_st \<Rightarrow> log_st \<Rightarrow> bool" where
  "trans_restored st t \<longleftrightarrow> trans_same st t \<and> trans_pos t = trans_pos st \<and> wrd_nstd_cntr t = wrd_nstd_cntr st \<and>
     trans_outer t (unat (wrd_nstd_cntr st)) = trans_outer st (unat (wrd_nstd_cntr st))"

lemma trans_restored_refl: "trans_restored st st"
  by (simp add: trans_restored_def trans_same_def)

lemma trans_restored_trans: "trans_restored st t \<Longrightarrow> trans_restored t u \<Longrightarrow> trans_restored st u"
  by (simp add: trans_restored_def trans_same_def)

lemma trans_restored_room: "trans_restored st t \<Longrightarrow> trans_room t d = trans_room st d"
  by (simp add: trans_restored_def trans_same_def trans_pos_def trans_room_def wrd_areas_def)

lemma trans_same_mapped: "trans_same st t \<Longrightarrow> mapped t p n = mapped st p n"
  by (simp add: trans_same_def mapped_def)

lemma trans_room_mono: "trans_room st d \<Longrightarrow> e \<le> d \<Longrightarrow> trans_room st e"
  by (auto simp: trans_room_def)

lemma mappedI: "(b, l) \<in> set (lg_maps st) \<Longrightarrow> unat b \<le> unat a \<Longrightarrow> unat a + n \<le> unat b + l \<Longrightarrow> mapped st a n"
  by (auto simp: mapped_def)

lemma mapped_mono: "mapped st a n \<Longrightarrow> m \<le> n \<Longrightarrow> mapped st a m"
  by (cases "m = 0") (force simp: mapped_def)+

text \<open>Beginning a transaction logs a line and puts the position on the stack.\<close>

lemma begin_wrd:
  assumes room: "trans_room st (Suc d)" and p: "p \<noteq> 0" "mapped st p 64"
  obtains t where "run_trans_op cfg st (Begin_wrd p) = Some t" "trans_same st t"
    "trans_pos t = (currwrdrec st + 16, curdatwrdptr st + 64, wrdheaderoff st + 16, wrddataoff st + 64)"
    "wrd_nstd_cntr t = wrd_nstd_cntr st + 1"
    "wrd_rechead t = (wrd_rechead st)[unat (wrd_nstd_cntr st) := currwrdrec st]"
    "wrd_datahead t = (wrd_datahead st)[unat (wrd_nstd_cntr st) := curdatwrdptr st]"
proof -
  let ?c = "currwrdrec st" and ?d = "curdatwrdptr st"
  have w: "wrd_areas st" and cn: "unat (wrd_nstd_cntr st) < MAX_NESTED_TRANS"
    and c: "unat (wrdrecmap st) \<le> unat ?c" "unat ?c + 40 \<le> unat (wrdrecmap st) + 524288000"
    and d: "unat (wrddatmap st) \<le> unat ?d" "unat ?d + 64 \<le> unat (wrddatmap st) + 524288000"
    using room by (auto simp: trans_room_def)
  have u: "unat (wrdrecmap st + TRANS_LOGSZ) = unat (wrdrecmap st) + 524288000"
    "unat (wrddatmap st + TRANS_DATA_LOGSZ) = unat (wrddatmap st) + 524288000"
    using w by (simp_all add: unat_word_ariths(1) wrd_areas_def)
  have nw: "\<not> ?c \<ge> wrdrecmap st + TRANS_LOGSZ" "\<not> ?d \<ge> wrddatmap st + TRANS_DATA_LOGSZ"
    using c d by (simp_all add: word_le_nat_alt u)
  have "unat ?c \<noteq> 0" "unat ?d \<noteq> 0" using c d w by (auto simp: wrd_areas_def)
  then have nz: "?c \<noteq> 0" "?d \<noteq> 0" by auto
  obtain r where r: "flush_cache cfg ?d 64 = Some r"
    using flush_cache_some [of 64 ?d cfg] d w by (auto simp: wrd_areas_def)
  have m: "mapped st ?c 16" "mapped st ?d 64" "mapped st (wrdrecmap st - sizeof_master_s) 4"
    using w c d unat_recbase [OF w] mapped_master [OF w] unfolding wrd_areas_def
    by (auto intro: mappedI)
  let ?s = "st\<lparr>wrd_rechead := (wrd_rechead st)[unat (wrd_nstd_cntr st) := ?c],
     wrd_datahead := (wrd_datahead st)[unat (wrd_nstd_cntr st) := ?d], wrd_nstd_cntr := wrd_nstd_cntr st + 1\<rparr>"
  have s: "start_wrd_trans st = Some ?s" using cn by (simp add: start_wrd_trans_def Let_def)
  have ww: "wrd_wrap ?s = ?s" using nw by (simp add: wrd_wrap_def)
  have rd: "lg_read ?s p 64 = Some (bytes_at ?s p 64)" using p(2) by (simp add: lg_read_def mapped_def)
  have "\<exists>t. add_word_record cfg ?s p = Some t \<and> trans_same st t \<and>
    trans_pos t = (?c + 16, ?d + 64, wrdheaderoff st + 16, wrddataoff st + 64) \<and>
    wrd_nstd_cntr t = wrd_nstd_cntr st + 1 \<and> wrd_rechead t = wrd_rechead ?s \<and> wrd_datahead t = wrd_datahead ?s"
    using m unfolding add_word_record_def Let_def ww
    by (auto simp: nz p(1) rd r add_data_log_def put_data_log_def lg_write_def lg_flush_def set_dataoff_def
        incr_rec_count_def add_wrd_hash_def wrd_advance_def mapped_def Let_def log_sizes
        trans_same_def trans_pos_def)
  then show thesis using that s by (auto simp: log_record_def)
qed

text \<open>Ending it takes the position from the stack.\<close>

lemma reduce_offset_add: "unat (a :: ULONG) + n < 2 ^ 64 \<Longrightarrow> n < 2 ^ 32 \<Longrightarrow> reduce_offset (a + of_nat n) a = of_nat n"
proof -
  assume h: "unat a + n < 2 ^ 64" "n < 2 ^ 32"
  have "unat (a + of_nat n) = unat a + n" using h by (intro unat_add_off64) simp
  then have "a + of_nat n > a \<longleftrightarrow> 0 < n" by (simp add: word_less_nat_alt)
  moreover have "(ucast (of_nat n :: ULONG) :: UINT) = of_nat n"
    unfolding word_unat_eq_iff unsigned_ucast_eq unat_of_nat using h(2) by (simp add: take_bit_nat_eq_self)
  ultimately show ?thesis unfolding reduce_offset_def by (cases "n = 0") simp_all
qed

lemma end_wrd:
  assumes pos: "trans_pos t = (c + 16, d + 64, h + 16, f + 64)"
    and cn: "wrd_nstd_cntr t = k + 1" "unat k < MAX_NESTED_TRANS"
    and hd: "wrd_rechead t ! unat k = c" "wrd_datahead t ! unat k = d"
    and b: "unat c \<le> 2 ^ 48" "unat d \<le> 2 ^ 48"
  obtains u where "run_trans_op cfg t (End_wrd q) = Some u" "trans_same t u" "trans_pos u = (c, d, h, f)"
    "wrd_nstd_cntr u = k" "wrd_rechead u = wrd_rechead t" "wrd_datahead u = wrd_datahead t"
proof -
  have "unat (k + 1) = unat k + 1" using cn(2) by (simp add: unat_word_ariths MAX_NESTED_TRANS_def)
  then have k: "k + 1 \<noteq> 0" by (metis Suc_eq_plus1 nat.distinct(1) unsigned_0)
  have r: "reduce_offset (c + 16) c = 16" "reduce_offset (d + 64) d = 64"
    using reduce_offset_add [of c 16] reduce_offset_add [of d 64] b by simp_all
  show thesis using that pos cn hd k
    by (auto simp: update_oncommit_def truncate_log_commit_def end_wrd_trans_def Let_def trans_pos_def r
        trans_same_def rmv_wrd_hash_def)
qed

lemma take_Suc_nth: "take (Suc n) xs = take (Suc n) ys \<Longrightarrow> take n xs = take n ys \<and> (n < length xs \<longrightarrow> n < length ys \<longrightarrow> xs ! n = ys ! n)"
  by (metis lessI nth_take take_take min_def nat_le_linear not_less_eq_eq)

text \<open>
  C9: a properly nested sequence of word transactions that fits into the log and the stack of positions
  runs to its end, and takes the log back to where it was: its two positions and two offsets, the
  number of open transactions and the saved positions of all of them.
\<close>

theorem word_transactions_nest:
  assumes "nested d ops" and "trans_room st d" and "\<And>p. p \<in> logged ops \<Longrightarrow> p \<noteq> 0 \<and> mapped st p 64"
  shows "\<exists>t. run_trans cfg st ops = Some t \<and> trans_restored st t"
  using assms
proof (induction arbitrary: st rule: nested.induct)
  case (nested_Nil d)
  then show ?case by (simp add: run_trans_def trans_restored_refl)
next
  case (nested_Cons d xs ys p q)
  let ?k = "wrd_nstd_cntr st"
  have b: "unat (currwrdrec st) \<le> 2 ^ 48" "unat (curdatwrdptr st) \<le> 2 ^ 48" "unat ?k < MAX_NESTED_TRANS"
    and l: "length (wrd_rechead st) = MAX_NESTED_TRANS" "length (wrd_datahead st) = MAX_NESTED_TRANS"
    using nested_Cons.prems(1) by (auto simp: trans_room_def wrd_areas_def)
  have p: "p \<noteq> 0" "mapped st p 64" using nested_Cons.prems(2) [of p] by simp_all
  obtain t where t: "run_trans_op cfg st (Begin_wrd p) = Some t" "trans_same st t"
    "trans_pos t = (currwrdrec st + 16, curdatwrdptr st + 64, wrdheaderoff st + 16, wrddataoff st + 64)"
    "wrd_nstd_cntr t = ?k + 1" "wrd_rechead t = (wrd_rechead st)[unat ?k := currwrdrec st]"
    "wrd_datahead t = (wrd_datahead st)[unat ?k := curdatwrdptr st]"
    by (rule begin_wrd [OF nested_Cons.prems(1) p])
  have k1: "unat (?k + 1) = unat ?k + 1" using b(3) by (simp add: unat_word_ariths MAX_NESTED_TRANS_def)
  have "trans_room t d"
    using nested_Cons.prems(1) t(2,3,4) k1 unat_add_off64 [of "currwrdrec st" 16] unat_add_off64 [of "curdatwrdptr st" 64] b
    by (auto simp: trans_room_def trans_same_def trans_pos_def wrd_areas_def)
  then obtain u where u: "run_trans cfg t xs = Some u" "trans_restored t u"
    using nested_Cons.IH(1) [of t] nested_Cons.prems(2) trans_same_mapped [OF t(2)] by auto
  have hd: "wrd_rechead u ! unat ?k = currwrdrec st" "wrd_datahead u ! unat ?k = curdatwrdptr st"
    "take (unat ?k) (wrd_rechead u) = take (unat ?k) (wrd_rechead st)"
    "take (unat ?k) (wrd_datahead u) = take (unat ?k) (wrd_datahead st)"
    using u(2) t(4,5,6) k1 b(3) l
      take_Suc_nth [of "unat ?k" "wrd_rechead u" "wrd_rechead t"] take_Suc_nth [of "unat ?k" "wrd_datahead u" "wrd_datahead t"]
    by (simp_all add: trans_restored_def trans_same_def trans_outer_def)
  obtain w where w: "run_trans_op cfg u (End_wrd q) = Some w" "trans_same u w"
    "trans_pos w = trans_pos st" "wrd_nstd_cntr w = ?k" "wrd_rechead w = wrd_rechead u" "wrd_datahead w = wrd_datahead u"
    using end_wrd [of u "currwrdrec st" "curdatwrdptr st" "wrdheaderoff st" "wrddataoff st" ?k] u(2) t(3,4) hd b
    by (auto simp: trans_restored_def trans_pos_def)
  have r: "trans_restored st w"
    using w t(2) u(2) hd by (simp add: trans_restored_def trans_same_def trans_outer_def)
  have "trans_room w (Suc d)" using nested_Cons.prems(1) trans_restored_room [OF r] by simp
  moreover have "mapped w x n = mapped st x n" for x n using r trans_same_mapped by (simp add: trans_restored_def)
  ultimately obtain v where v: "run_trans cfg w ys = Some v" "trans_restored w v"
    using nested_Cons.IH(2) [of w] nested_Cons.prems(2) by auto
  have "run_trans cfg st (Begin_wrd p # xs @ End_wrd q # ys) = Some v"
    using t(1) u(1) w(1) v(1) by (simp add: run_trans_def fold_option_append)
  then show ?case using trans_restored_trans [OF r v(2)] by blast
qed

theorem word_transactions_nest_witness:
  "\<exists>st t. initialize_logmgr demo_mmap True blank_log True = Some st \<and>
     run_trans \<lparr>libpmemintel = False, disablesfence = False, use_cacheflush = True\<rparr> st
       [Begin_wrd 4096, Begin_wrd 4160, End_wrd 4160, End_wrd 4096] = Some t \<and> currwrdrec t = currwrdrec st"
proof -
  obtain st where st: "initialize_logmgr demo_mmap True blank_log True = Some st"
    "wrdrecmap st = 2 ^ 42 + 24" "wrddatmap st = 5 * 2 ^ 40" "currwrdrec st = 2 ^ 42 + 24" "curdatwrdptr st = 5 * 2 ^ 40"
    "wrd_nstd_cntr st = 0" "wrd_rechead st = replicate 256 0" "wrd_datahead st = replicate 256 0"
    "lg_maps st = [(5 * 2 ^ 40, 524288000), (2 ^ 42, 524288000), (3 * 2 ^ 40, 524288000), (2 ^ 41, 524288000), (4096, 4096)]"
    using initialize_demo by blast
  have "nested 1 ([Begin_wrd 4160] @ [] @ [End_wrd 4160])"
    using nested_Cons [OF nested_Nil nested_Nil, of 0] by simp
  then have "nested 2 (Begin_wrd 4096 # [Begin_wrd 4160, End_wrd 4160] @ End_wrd 4096 # [])"
    unfolding numeral_2_eq_2 by (intro nested_Cons nested_Nil) simp
  moreover have "trans_room st 2"
    by (simp add: trans_room_def wrd_areas_def st sizeof_master_s_def MAX_NESTED_TRANS_def)
  moreover have "mapped st 4096 64" "mapped st 4160 64" by (simp_all add: mapped_def st)
  ultimately show ?thesis
    using word_transactions_nest [of 2 "[Begin_wrd 4096, Begin_wrd 4160, End_wrd 4160, End_wrd 4096]" st
        "\<lparr>libpmemintel = False, disablesfence = False, use_cacheflush = True\<rparr>"] st(1)
    by (fastforce simp: trans_restored_def trans_pos_def)
qed


section \<open>The object log\<close>

text \<open>
  C34: the end of an object transaction takes the positions and the data offset back to where its beginning
  found them, but sets the header offset to the size of one record, whatever it was before.
\<close>

theorem object_transaction_resets_header:
  assumes "log_record cfg st p len False = Some t" and "update_oncommit t q False = Some u"
    and "length (obj_rechead st) = MAX_NESTED_TRANS" "length (obj_datahead st) = MAX_NESTED_TRANS"
    and "unat (currobjrec st) \<le> 2 ^ 48" "unat (curdatobjptr st) \<le> 2 ^ 48"
  shows "currobjrec u = currobjrec st \<and> curdatobjptr u = curdatobjptr st \<and> objdataoff u = objdataoff st \<and>
    obj_nstd_cntr u = obj_nstd_cntr st \<and> objheaderoff u = 16"
proof -
  have c: "unat (obj_nstd_cntr st) < MAX_NESTED_TRANS"
    using assms(1) by (auto simp: log_record_def start_obj_trans_def bind_eq_Some_conv c_assert_bind_eq_Some Let_def c_assert_def split: if_splits)
  have "unat (obj_nstd_cntr st + 1) = unat (obj_nstd_cntr st) + 1"
    using c by (simp add: unat_word_ariths MAX_NESTED_TRANS_def)
  then have k: "obj_nstd_cntr st + 1 \<noteq> 0" by (metis Suc_eq_plus1 nat.distinct(1) unsigned_0)
  have r: "reduce_offset (currobjrec st + 16) (currobjrec st) = 16"
    "reduce_offset (curdatobjptr st + ucast len) (curdatobjptr st) = len"
    using reduce_offset_add [of "currobjrec st" 16] reduce_offset_add [of "curdatobjptr st" "unat len"] assms(5,6)
      unsigned_less [of len, where 'a = nat]
    by (simp_all add: unat_ucast_ULONG)
  show ?thesis
    using assms(1-4) c k r
    by (auto simp: log_record_def start_obj_trans_def add_obj_record_def add_data_log_def put_data_log_def
        lg_read_def lg_write_def lg_flush_def incr_rec_count_def update_oncommit_def truncate_log_commit_def
        end_obj_trans_def bind_eq_Some_conv c_assert_bind_eq_Some Let_def sizeof_record_s_def split: if_splits)
qed

theorem object_transaction_resets_header_witness:
  "\<exists>st t u. initialize_logmgr demo_mmap True blank_log True = Some st \<and>
     log_record \<lparr>libpmemintel = True, disablesfence = False, use_cacheflush = False\<rparr> st 4096 100 False = Some t \<and>
     update_oncommit t 4096 False = Some u \<and> objheaderoff st = 24 \<and> objheaderoff u = 16 \<and> currobjrec u = currobjrec st"
proof -
  let ?c = "\<lparr>libpmemintel = True, disablesfence = False, use_cacheflush = False\<rparr>"
  obtain st where st: "initialize_logmgr demo_mmap True blank_log True = Some st"
    "objrecmap st = 2 ^ 41 + 384" "objdatmap st = 3 * 2 ^ 40" "currobjrec st = 2 ^ 41 + 384" "curdatobjptr st = 3 * 2 ^ 40"
    "obj_nstd_cntr st = 0" "obj_rechead st = replicate 256 0" "obj_datahead st = replicate 256 0" "objheaderoff st = 24"
    "lg_maps st = [(5 * 2 ^ 40, 524288000), (2 ^ 42, 524288000), (3 * 2 ^ 40, 524288000), (2 ^ 41, 524288000), (4096, 4096)]"
    using initialize_demo by blast
  obtain r where r: "flush_cache ?c (3 * 2 ^ 40) 100 = Some r"
    using flush_cache_some [of 100 "3 * 2 ^ 40" ?c] by auto
  obtain t u where t: "log_record ?c st 4096 100 False = Some t" "update_oncommit t 4096 False = Some u"
    using r
    by (simp add: log_record_def start_obj_trans_def add_obj_record_def add_data_log_def put_data_log_def
        lg_read_def lg_write_def lg_flush_def incr_rec_count_def update_oncommit_def truncate_log_commit_def
        end_obj_trans_def Let_def log_sizes st mapped_def MAX_NESTED_TRANS_def)
  show ?thesis using object_transaction_resets_header [OF t] st t by (auto simp: MAX_NESTED_TRANS_def)
qed


section \<open>The bitmap of used records\<close>

definition bitmap_bit :: "log_st \<Rightarrow> ULONG \<Rightarrow> nat \<Rightarrow> bool" where
  "bitmap_bit st a i = bit (lg_mem st (a + of_nat (i div 8))) (i mod 8)"

lemma mask_bit: "bit ((if k \<noteq> 0 then push_bit (unat (k :: UINT)) 1 else 1) :: byte) j \<longleftrightarrow> j = unat k \<and> j < 8"
  by (auto simp: bit_exp_iff bit_1_iff)

text \<open>\<open>set_loguse_bitmap\<close> sets the bit of the counter and leaves all others of the bitmap as they are.\<close>

theorem set_loguse_bitmap_bits:
  assumes s: "set_loguse_bitmap st a c = Some (t, b)" and i: "i < 2 ^ 32"
  shows "bitmap_bit t a i \<longleftrightarrow> i = unat c \<or> bitmap_bit st a i"
proof -
  let ?p = "a + ucast (c div 8)" and ?m = "(if c mod 8 \<noteq> 0 then push_bit (unat (c mod 8)) 1 else 1) :: byte"
  have t: "lg_mem t = (lg_mem st)(?p := lg_mem st ?p OR ?m)"
    using s by (auto simp: set_loguse_bitmap_def Let_def bind_eq_Some_conv lg_read_def lg_write_def bytes_at_def
        fun_eq_iff unat_eq_0 split: if_splits)
  have c: "unat (c div 8) = unat c div 8" "unat (c mod 8) = unat c mod 8"
    by (simp_all add: unat_div unat_mod)
  have "(of_nat (i div 8) :: ULONG) = ucast (c div 8) \<longleftrightarrow> i div 8 = unat c div 8"
    using i unsigned_less [of c, where 'a = nat]
    by (simp add: word_unat_eq_iff unat_ucast_ULONG unat_of_nat_ULONG c)
  then have p: "a + of_nat (i div 8) = ?p \<longleftrightarrow> i div 8 = unat c div 8" by simp
  show ?thesis
  proof (cases "i div 8 = unat c div 8")
    case True
    then have "i = unat c \<longleftrightarrow> i mod 8 = unat c mod 8" by (metis div_mod_decomp)
    then show ?thesis using True p unfolding bitmap_bit_def t by (auto simp: bit_or_iff mask_bit c)
  next
    case False
    then show ?thesis using p unfolding bitmap_bit_def t by auto
  qed
qed

theorem set_loguse_bitmap_bits_witness:
  "\<exists>t b. set_loguse_bitmap blank_log 4096 11 = Some (t, b) \<and> bitmap_bit t 4096 11 \<and> \<not> bitmap_bit t 4096 10"
proof -
  obtain t b where t: "set_loguse_bitmap blank_log 4096 11 = Some (t, b)"
    by (simp add: set_loguse_bitmap_def lg_read_def lg_write_def mapped_def blank_log_def Let_def)
  show ?thesis
    using set_loguse_bitmap_bits [OF t, of 11] set_loguse_bitmap_bits [OF t, of 10] t
    by (simp add: bitmap_bit_def blank_log_def)
qed


lemma check_commit_bits_8: "check_commit_bits st p 8 = map_option (\<lambda>bs. hd bs = 0) (lg_read st p 1)"
  unfolding check_commit_bits_def
  by (subst check_commit_loop.simps)
    (auto simp: check_commit_loop.simps [of st "p + 8" 8] int_add_def lg_read_def)

lemma scavenge_loop_eq:
  assumes "idx + 8 * n < 2 ^ 31" and "sz \<le> idx + 8 * n" and "idx + 8 * n < sz + 8 \<or> n = 0"
    and "\<And>j. j < n \<Longrightarrow> mapped st (p + of_nat j) 1"
  shows "scavenge_loop st p idx sz = Some (if \<forall>j < n. lg_mem st (p + of_nat j) = 0 then 0 else - 1)"
  using assms
proof (induction n arbitrary: p idx)
  case 0
  then show ?case by (subst scavenge_loop.simps) simp
next
  case (Suc n)
  have i: "idx < sz" using Suc.prems by simp
  have m: "mapped st p 1" using Suc.prems(4) [of 0] by simp
  have "scavenge_loop st (p + 1) (idx + 8) sz = Some (if \<forall>j < n. lg_mem st (p + 1 + of_nat j) = 0 then 0 else - 1)"
    using Suc.prems(1-3) Suc.prems(4) [of "Suc _"] by (intro Suc.IH) (auto simp: add.assoc)
  then show ?case using i m Suc.prems(1) unfolding All_less_Suc2
    by (subst scavenge_loop.simps) (simp add: check_commit_bits_8 lg_read_def bytes_at_def int_add_def add.assoc)
qed

section \<open>Committing an entry of the redo log\<close>

lemma bytes_word_zeros: "bytes_word (replicate n 0) = 0"
  by (induction n) (simp_all add: bytes_word_def)

lemma bytes_word_low:
  assumes "length bs = 8"
  shows "bytes_word (word_bytes 4 v @ drop 4 bs) = (bytes_word bs AND NOT (mask 32)) OR (v AND mask 32)"
proof (rule bit_word_eqI)
  fix n :: nat
  assume "n < LENGTH(64)"
  then have n: "n < 64" "n div 8 < 8" by auto
  have "n < 32 \<longleftrightarrow> n div 8 < 4" by auto
  then show "bit (bytes_word (word_bytes 4 v @ drop 4 bs)) n = bit ((bytes_word bs AND NOT (mask 32)) OR (v AND mask 32)) n"
    using n assms by (auto simp: bit_bytes_word bit_or_iff bit_and_iff bit_not_iff bit_mask_iff nth_append bit_word_bytes)
qed

lemma commit_bytes:
  assumes "m \<le> 8" and "length bs = m" and
    "\<And>i. i < 8 \<Longrightarrow> lg_mem t (p + of_nat i) = (if i < m then bs ! i else lg_mem st (p + of_nat i))"
  shows "bytes_at t p 8 = bs @ drop m (bytes_at st p 8)"
  using assms by (intro nth_equalityI) (auto simp: bytes_at_def nth_append)

lemma commit_entry_memory:
  assumes ok: "redo_ok st n" and r: "um_find p (wrdloghash st) = Some r" and v: "redo_abs st p = Some v"
    and p: "p \<noteq> 0" "mapped st p 8" "outside_log st p"
  defines "m \<equiv> if sint v > 2 ^ 32 - 1 then 8 else 4"
  obtains t where "commit_entry st p r = Some t" "lg_maps t = lg_maps st" "um_find p (wrdloghash t) = None"
    "\<And>i. i < 8 \<Longrightarrow> lg_mem t (p + of_nat i) = (if i < m then word_bytes m v ! i else lg_mem st (p + of_nat i))"
proof -
  have w: "wrd_areas st" using ok by (simp add: redo_ok_def)
  obtain k where k: "k < n" "r = redo_rec st k" "wrd_dataoff (wrd_recs st r) = of_nat (8 * k)" "k < REDO_CAP"
    using ok r by (auto simp: redo_ok_def)
  have "0 < unat (redo_rec st k)" using unat_redo_rec [OF w, of k] w k(4) by (auto simp: wrd_areas_def)
  then have nz: "r \<noteq> 0" by (auto simp: k(2))
  have rl: "read_log st p = Some v" using read_log_abs [OF ok p(1)] v by simp
  have mp: "mapped st p m" using mapped_mono [OF p(2)] by (simp add: m_def)
  let ?s = "st\<lparr>lg_mem := (\<lambda>x. if unat (x - p) < m then word_bytes m v ! unat (x - p) else lg_mem st x),
     wrdloghash := um_erase p (wrdloghash st)\<rparr>"
  let ?d = "redo_dat st k"
  let ?t = "?s\<lparr>lg_mem := (\<lambda>x. if unat (x - ?d) < 8 then replicate 8 0 ! unat (x - ?d) else lg_mem ?s x),
     wrd_recs := (wrd_recs st)(r := \<lparr>wrd_virtaddr = 0, wrd_dataoff = 0\<rparr>)\<rparr>"
  have wr: "(if sint v > 2 ^ 32 - 1 then lg_write st p (word_bytes 8 v) else lg_write st p (word_bytes 4 v)) = lg_write st p (word_bytes m v)"
    by (simp add: m_def)
  have d: "wrddatmap st + ucast (wrd_dataoff (wrd_recs st r)) = ?d"
    unfolding k(3) using k(4) by (intro ucast_dataoff) simp
  have c: "commit_entry st p r = Some ?t"
    using mp mapped_rec [OF w k(4)] mapped_dat [OF w k(4)]
    unfolding commit_entry_def rl bind.bind_lunit Let_def wr
    by (simp add: p(1) nz lg_write_def rmv_wrd_hash_def clear_data_def clear_wrdrec_def d mapped_def
        read_word_def lg_read_def Let_def cong: if_cong flip: k(2))
  have "lg_mem ?t (p + of_nat i) = (if i < m then word_bytes m v ! i else lg_mem st (p + of_nat i))" if i: "i < 8" for i
  proof -
    have "\<not> unat (p + of_nat i - ?d) < 8"
      using p(3) i redo_slot_in_log [OF k(4), of "p + of_nat i" st] unfolding outside_log_def by auto
    moreover have "unat (p + of_nat i - p) = i" using i by (simp add: unat_of_nat)
    ultimately show ?thesis by simp
  qed
  then show thesis using that [OF c] by simp
qed

text \<open>
  C32: committing a word of the redo log stores the logged value only when it is larger than every
  \<open>unsigned int\<close>; of any other value, a negative one included, only the lower half is stored, and the
  upper half of the word in memory stays as it was. The word is out of the log afterwards.
\<close>

theorem commit_entry_stores:
  assumes "redo_ok st n" and "um_find p (wrdloghash st) = Some r" and "read_log st p = Some v"
    and "p \<noteq> 0" and "outside_log st p" and "read_word st p = Some w"
  shows "\<exists>t. commit_entry st p r = Some t \<and> um_find p (wrdloghash t) = None \<and>
    read_word t p = Some (if sint v > 2 ^ 32 - 1 then v else (w AND NOT (mask 32)) OR (v AND mask 32))"
proof -
  have m: "mapped st p 8" and w: "w = bytes_word (bytes_at st p 8)"
    using assms(6) by (auto simp: read_word_def lg_read_def split: if_splits)
  have v: "redo_abs st p = Some v"
    using assms(2,3) read_log_abs [OF assms(1,4)] by (auto simp: redo_abs_def)
  let ?m = "if sint v > 2 ^ 32 - 1 then 8 else 4 :: nat"
  obtain t where t: "commit_entry st p r = Some t" "lg_maps t = lg_maps st" "um_find p (wrdloghash t) = None"
    "\<And>i. i < 8 \<Longrightarrow> lg_mem t (p + of_nat i) = (if i < ?m then word_bytes ?m v ! i else lg_mem st (p + of_nat i))"
    using commit_entry_memory [OF assms(1,2) v assms(4) m assms(5)] by blast
  have "bytes_at t p 8 = word_bytes ?m v @ drop ?m (bytes_at st p 8)"
    using t(4) by (intro commit_bytes) simp_all
  then have "bytes_word (bytes_at t p 8) = (if sint v > 2 ^ 32 - 1 then v else (w AND NOT (mask 32)) OR (v AND mask 32))"
    using bytes_word_low [of "bytes_at st p 8" v] by (simp add: w)
  moreover have "mapped t p 8" using m by (simp add: mapped_def t(2))
  ultimately show ?thesis using t by (simp add: read_word_def lg_read_def)
qed

theorem commit_entry_stores_witness:
  "\<exists>st r t. read_log st 4096 = Some (- 1) \<and> commit_entry st 4096 r = Some t \<and> read_word t 4096 = Some 0xFFFFFFFF"
proof -
  let ?c = "\<lparr>libpmemintel = False, disablesfence = False, use_cacheflush = True\<rparr>"
  obtain s where s: "initialize_logmgr demo_mmap True blank_log True = Some s" "wrddatmap s = 5 * 2 ^ 40"
    "lg_maps s = [(5 * 2 ^ 40, 524288000), (2 ^ 42, 524288000), (3 * 2 ^ 40, 524288000), (2 ^ 41, 524288000), (4096, 4096)]"
    "\<And>i. i < 4096 \<Longrightarrow> lg_mem s (4096 + of_nat i) = 0"
    using initialize_demo by blast
  have "redo_ok s 0" using initialize_redo_ok [OF demo_mmap_law s(1)] by (simp add: blank_log_def)
  then obtain st where st: "redo_ok st 1" "wrddatmap st = wrddatmap s" "lg_maps st = lg_maps s" "redo_abs st 4096 = Some (- 1)"
    "\<forall>x. \<not> in_range (wrddatmap s) 524288000 x \<longrightarrow> lg_mem st x = lg_mem s x"
    using add_redo_words_ok [of s 0 "[(4096, - 1)]" ?c] by (auto simp: REDO_CAP_def)
  have o: "outside_log s 4096"
    by (auto simp: outside_log_def s(2) in_range_def unat_sub_if' unat_word_ariths unat_of_nat)
  have "read_word st 4096 = read_word s 4096"
    using o st(5) by (intro read_word_cong [OF st(3)]) (auto simp: outside_log_def)
  also have "\<dots> = Some 0"
  proof -
    have "bytes_at s 4096 8 = replicate 8 0" using s(4) by (intro nth_equalityI) (simp_all add: bytes_at_def)
    then show ?thesis by (simp add: read_word_def lg_read_def mapped_def s(3) bytes_word_zeros)
  qed
  finally have w: "read_word st 4096 = Some 0" .
  obtain r where r: "um_find 4096 (wrdloghash st) = Some r" using st(4) by (auto simp: redo_abs_def)
  have rl: "read_log st 4096 = Some (- 1)" using read_log_abs [OF st(1), of 4096] st(4) by simp
  have o': "outside_log st 4096" using o by (simp add: outside_log_def st(2))
  show ?thesis using commit_entry_stores [OF st(1) r rl _ o' w] rl by (auto simp: mask_eq_exp_minus_1)
qed


text \<open>
  C36: \<open>scavenge_loguse_bitmap\<close> answers 0 exactly when the first eighth of the bytes of the bitmap is zero;
  it never looks at the others.
\<close>

theorem scavenge_reads_first_eighth:
  assumes "unat logsize < 2 ^ 31"
    and "\<And>j. j < (unat logsize div 8 + 7) div 8 \<Longrightarrow> mapped st (p + of_nat j) 1"
  shows "scavenge_loguse_bitmap st p logsize =
    Some (if \<forall>j < (unat logsize div 8 + 7) div 8. lg_mem st (p + of_nat j) = 0 then 0 else - 1)"
proof -
  have "unat (ucast (logsize div 8) :: UINT) = unat logsize div 8"
    using assms(1) by (simp add: unsigned_ucast_eq unat_div take_bit_nat_eq_self)
  then show ?thesis using assms unfolding scavenge_loguse_bitmap_def Let_def
    by (subst scavenge_loop_eq [where n = "(unat logsize div 8 + 7) div 8"]) auto
qed

theorem scavenge_reads_first_eighth_witness:
  "\<exists>st. lg_mem st 4104 = 1 \<and> scavenge_loguse_bitmap st 4096 512 = Some 0"
proof -
  let ?s = "blank_log\<lparr>lg_mem := (\<lambda>x. if x = 4104 then 1 else 0)\<rparr>"
  have m: "mapped ?s (4096 + of_nat j) 1" if "j < 8" for j
    using that by (simp add: mapped_def blank_log_def unat_word_ariths unat_of_nat)
  have "(4096 :: ULONG) + of_nat j \<noteq> 4104" if "j < 8" for j
    using that by (simp add: word_unat_eq_iff unat_word_ariths unat_of_nat)
  then have "\<forall>j < 8. lg_mem ?s (4096 + of_nat j) = 0" by simp
  then have "scavenge_loguse_bitmap ?s 4096 512 = Some 0"
    using scavenge_reads_first_eighth [of 512 ?s 4096] m by simp
  then show ?thesis by (intro exI [of _ ?s]) simp
qed


end
