(* ===== verification/Spinlock.thy ===== *)
theory Spinlock
  imports Nv_Prelude
begin

text \<open>
  \<open>pvmobj/gtthread_spinlocks.cc\<close>: the lock that protects the metadata of a chunk. The memory accesses
  of the threads interleave; a step is one access to the lock word by one thread.
\<close>

section \<open>The functions on one thread\<close>

record gt_spinlock_t =
  locked :: UINT
  tid_holder :: ULONG

definition gt_spinlock_init :: "gt_spinlock_t option \<Rightarrow> gt_spinlock_t option \<times> int" where
  "gt_spinlock_init spinlock = (case spinlock of
     None \<Rightarrow> (None, - 1)
   | Some l \<Rightarrow> (Some (l\<lparr>locked := 0\<rparr>), 0))"

definition gt_spin_unlock :: "gt_spinlock_t option \<Rightarrow> gt_spinlock_t option \<times> int" where
  "gt_spin_unlock spinlock = (case spinlock of
     None \<Rightarrow> (None, - 1)
   | Some l \<Rightarrow> (Some (if locked l \<noteq> 0 then l\<lparr>locked := 0\<rparr> else l), 0))"

section \<open>Interleaved threads\<close>

text \<open>
  Where a thread is: outside, at the test of the lock word in \<open>gt_actual_spinlock\<close>, at the \<open>xchg\<close> after a
  test that saw 0, between lock and unlock, at the test and at the write of \<open>gt_spin_unlock\<close>.
\<close>

datatype spin_pc = Outside | At_test | At_xchg | Inside | At_unlock | At_clear

record spin_st =
  lockword :: UINT
  pc :: "nat \<Rightarrow> spin_pc"

definition gt_spin_step :: "nat \<Rightarrow> spin_st \<Rightarrow> spin_st" where
  "gt_spin_step t s = (case pc s t of
     Outside \<Rightarrow> s\<lparr>pc := (pc s)(t := At_test)\<rparr>
   | At_test \<Rightarrow> (if lockword s = 0 then s\<lparr>pc := (pc s)(t := At_xchg)\<rparr> else s)
   | At_xchg \<Rightarrow> s\<lparr>lockword := 1, pc := (pc s)(t := (if lockword s = 0 then Inside else At_test))\<rparr>
   | Inside \<Rightarrow> s\<lparr>pc := (pc s)(t := At_unlock)\<rparr>
   | At_unlock \<Rightarrow> s\<lparr>pc := (pc s)(t := (if lockword s \<noteq> 0 then At_clear else Outside))\<rparr>
   | At_clear \<Rightarrow> s\<lparr>lockword := 0, pc := (pc s)(t := Outside)\<rparr>)"

definition spin_init :: spin_st where
  "spin_init = \<lparr>lockword = 0, pc = (\<lambda>_. Outside)\<rparr>"

definition spin_run :: "nat list \<Rightarrow> spin_st" where
  "spin_run ts = fold gt_spin_step ts spin_init"

section \<open>Mutual exclusion\<close>

definition holds_lock :: "spin_pc \<Rightarrow> bool" where
  "holds_lock p \<longleftrightarrow> p \<in> {Inside, At_unlock, At_clear}"

text \<open>The lock word is set exactly when a thread holds the lock, and then one thread does.\<close>

definition spin_inv :: "spin_st \<Rightarrow> bool" where
  "spin_inv s \<longleftrightarrow> (if lockword s = 0 then \<forall>t. \<not> holds_lock (pc s t)
     else \<exists>t. \<forall>u. holds_lock (pc s u) \<longleftrightarrow> u = t)"

lemma spin_inv_step:
  assumes "spin_inv s"
  shows "spin_inv (gt_spin_step t s)"
proof (cases "lockword s = 0")
  case True
  then have "\<forall>t. \<not> holds_lock (pc s t)" using assms by (simp add: spin_inv_def)
  then show ?thesis using True
    by (cases "pc s t") (auto simp: gt_spin_step_def spin_inv_def holds_lock_def)
next
  case False
  then obtain w where w: "holds_lock (pc s u) \<longleftrightarrow> u = w" for u using assms unfolding spin_inv_def by metis
  have keep: "spin_inv s'" if "lockword s' \<noteq> 0" "\<And>u. holds_lock (pc s' u) = holds_lock (pc s u)" for s'
    using that w unfolding spin_inv_def by auto
  show ?thesis
  proof (cases "pc s t = At_clear")
    case True
    then have "t = w" using w [of t] by (simp add: holds_lock_def)
    then have "\<not> holds_lock (pc (gt_spin_step t s) u)" for u
      using True w [of u] by (cases "u = t") (simp_all add: gt_spin_step_def, simp add: holds_lock_def)
    then show ?thesis using True unfolding spin_inv_def by (simp add: gt_spin_step_def)
  next
    case clear: False
    have "lockword (gt_spin_step t s) \<noteq> 0" using False clear by (cases "pc s t") (simp_all add: gt_spin_step_def)
    moreover have "holds_lock (pc (gt_spin_step t s) u) = holds_lock (pc s u)" for u
      using False clear by (cases "pc s t") (simp_all add: gt_spin_step_def holds_lock_def)
    ultimately show ?thesis by (rule keep)
  qed
qed

lemma spin_inv_run: "spin_inv (spin_run ts)"
proof -
  have "spin_inv (fold gt_spin_step ts s)" if "spin_inv s" for s
    using that by (induction ts arbitrary: s) (auto intro: spin_inv_step)
  moreover have "spin_inv spin_init" by (simp add: spin_inv_def spin_init_def holds_lock_def)
  ultimately show ?thesis by (simp add: spin_run_def)
qed

text \<open>
  C21: whatever the order in which the threads take their steps, two threads are never between
  \<open>gt_spin_lock\<close> and \<open>gt_spin_unlock\<close> at the same time.
\<close>

theorem spin_mutual_exclusion:
  assumes "pc (spin_run ts) t = Inside" and "pc (spin_run ts) u = Inside"
  shows "t = u"
proof -
  have "holds_lock (pc (spin_run ts) t)" "holds_lock (pc (spin_run ts) u)"
    using assms by (simp_all add: holds_lock_def)
  then show ?thesis using spin_inv_run [of ts] by (auto simp: spin_inv_def split: if_splits)
qed

theorem spin_mutual_exclusion_witness:
  "pc (spin_run [1, 2, 1, 2, 1, 2, 2]) 1 = Inside \<and> pc (spin_run [1, 2, 1, 2, 1, 2, 2]) 2 \<noteq> Inside"
proof -
  have "pc (spin_run [1, 2, 1, 2, 1, 2, 2]) 1 = Inside"
    by (simp add: spin_run_def spin_init_def gt_spin_step_def)
  then show ?thesis using spin_mutual_exclusion [of "[1, 2, 1, 2, 1, 2, 2]" 1 2] by auto
qed

text \<open>
  C33: the lock is not lost. In every reachable state in which no thread holds it, each thread that asks
  for it and is not disturbed gets it within three steps.
\<close>

theorem spin_lock_available:
  assumes "\<forall>u. \<not> holds_lock (pc (spin_run ts) u)"
  shows "\<exists>n \<le> 3. pc (spin_run (ts @ replicate n t)) t = Inside"
proof -
  let ?s = "spin_run ts"
  have l: "lockword ?s = 0" using spin_inv_run [of ts] assms by (auto simp: spin_inv_def split: if_splits)
  have r: "spin_run (ts @ us) = fold gt_spin_step us ?s" for us by (simp add: spin_run_def)
  have "pc ?s t \<in> {Outside, At_test, At_xchg}" using assms [rule_format, of t] by (cases "pc ?s t") (auto simp: holds_lock_def)
  then consider "pc ?s t = Outside" | "pc ?s t = At_test" | "pc ?s t = At_xchg" by auto
  then show ?thesis
  proof cases
    case 1
    then have "pc (spin_run (ts @ replicate 3 t)) t = Inside"
      using l unfolding r by (simp add: gt_spin_step_def numeral_3_eq_3)
    then show ?thesis by blast
  next
    case 2
    then have "pc (spin_run (ts @ replicate 2 t)) t = Inside"
      using l unfolding r by (simp add: gt_spin_step_def numeral_2_eq_2)
    then show ?thesis by (intro exI [of _ 2]) simp
  next
    case 3
    then have "pc (spin_run (ts @ replicate 1 t)) t = Inside"
      using l unfolding r by (simp add: gt_spin_step_def)
    then show ?thesis by (intro exI [of _ 1]) simp
  qed
qed

theorem spin_lock_available_witness:
  "\<exists>n \<le> 3. pc (spin_run ([1, 1, 1, 1, 1, 1, 2] @ replicate n 2)) 2 = Inside"
  by (rule spin_lock_available) (simp add: spin_run_def spin_init_def gt_spin_step_def holds_lock_def)

end
