(* ===== verification/NvTransact.thy ===== *)
theory NvTransact
  imports Log_Trans HashMaps Spinlock
begin

text \<open>
  \<open>pvmobj/nv_transact.cc\<close>, as it is built with \<open>_USE_TRANSACTION\<close> and without shadow copies: transactions
  on words and objects over the log manager, the maps from addresses to chunks and the lock of a chunk.
  A lock that is taken makes \<open>gt_spin_lock\<close> spin for ever, which is \<open>None\<close> as for every loop without end.
\<close>

section \<open>State\<close>

text \<open>What the transactions use of a chunk; the chunks are found by their address.\<close>

record tchunk =
  tc_length :: UINT
  tc_nv_ptr :: ULONG
  tc_log_ptr :: ULONG
  tc_lock :: gt_spinlock_t

definition CACHESIZE :: nat where
  "CACHESIZE = 32"

record tx_st =
  tx_log :: log_st
  tx_chunks :: "ULONG \<Rightarrow> tchunk option"
  tx_chunkmap :: "ULONG chunk_map"
  addr_cache :: "ULONG list"
  chunk_cache :: "ULONG list"
  next_entry :: UINT
  initCache :: byte

text \<open>The build options \<open>_USE_REDO_LOG\<close> and \<open>_USE_UNDO_LOG\<close>, with those of the flushes.\<close>

record tx_cfg =
  redo_log :: bool
  undo_log :: bool
  tx_flush :: flush_cfg

section \<open>The cache of chunks\<close>

definition init_cache :: "tx_st \<Rightarrow> tx_st" where
  "init_cache st = st\<lparr>addr_cache := replicate CACHESIZE 0, chunk_cache := replicate CACHESIZE 0\<rparr>"

definition add_to_cache :: "tx_st \<Rightarrow> ULONG \<Rightarrow> ULONG \<Rightarrow> tx_st" where
  "add_to_cache st key val =
     (let st = (if initCache st = 0 then (init_cache st)\<lparr>initCache := initCache st + 1\<rparr> else st);
          st = st\<lparr>addr_cache := (addr_cache st)[unat (next_entry st) := key]\<rparr>;
          st = st\<lparr>chunk_cache := (chunk_cache st)[unat (next_entry st) := val]\<rparr>;
          st = st\<lparr>next_entry := next_entry st + 1\<rparr>
      in st\<lparr>next_entry := next_entry st mod of_nat CACHESIZE\<rparr>)"

fun cache_search :: "tx_st \<Rightarrow> ULONG \<Rightarrow> ULONG list \<Rightarrow> ULONG" where
  "cache_search st key [] = 0"
| "cache_search st key (a # as) = (if a = key then chunk_cache st ! unat (next_entry st) else cache_search st key as)"

definition get_frm_cache :: "tx_st \<Rightarrow> ULONG \<Rightarrow> ULONG" where
  "get_frm_cache st key = cache_search st key (addr_cache st)"

section \<open>Transactions\<close>

definition tx_flush_cache :: "tx_cfg \<Rightarrow> tx_st \<Rightarrow> ULONG \<Rightarrow> ULONG \<Rightarrow> tx_st option" where
  "tx_flush_cache cfg st p n = do {
     l \<leftarrow> lg_flush (tx_flush cfg) (tx_log st) p n;
     Some (st\<lparr>tx_log := l\<rparr>) }"

definition nv_commit_word :: "tx_cfg \<Rightarrow> tx_st \<Rightarrow> ULONG \<Rightarrow> (tx_st \<times> int) option" where
  "nv_commit_word cfg st objptr =
     (if redo_log cfg then Some (st, 0)
      else do {
        st \<leftarrow> tx_flush_cache cfg st objptr (ucast CACHE_LINE_SIZE);
        l \<leftarrow> update_oncommit (tx_log st) objptr True;
        Some (st\<lparr>tx_log := l\<rparr>, 0) })"

text \<open>The lookup in the two maps that every operation on objects starts with; 0 is the null pointer.\<close>

definition find_tx_chunk :: "tx_st \<Rightarrow> ULONG \<Rightarrow> (tx_st \<times> ULONG) option" where
  "find_tx_chunk st objptr = do {
     (c, m) \<leftarrow> get_chunk_from_map_o1 objptr (tx_chunkmap st);
     let st = st\<lparr>tx_chunkmap := m\<rparr>;
     case c of
       Some a \<Rightarrow> Some (st, a)
     | None \<Rightarrow> do {
         c \<leftarrow> get_chunk_from_map (\<lambda>a. map_option tc_length (tx_chunks st a)) objptr (tx_chunkmap st);
         Some (st, case c of Some a \<Rightarrow> a | None \<Rightarrow> 0) } }"

definition live_chunk :: "tx_st \<Rightarrow> ULONG \<Rightarrow> tchunk option" where
  "live_chunk st a = do {
     c_assert (a \<noteq> 0);
     c \<leftarrow> tx_chunks st a;
     c_assert (tc_length c \<noteq> 0);
     Some c }"

definition nv_commit_obj :: "tx_cfg \<Rightarrow> tx_st \<Rightarrow> ULONG \<Rightarrow> (tx_st \<times> int) option" where
  "nv_commit_obj cfg st objptr =
     (if redo_log cfg then Some (st, 0)
      else do {
        let chunk = (if undo_log cfg then get_frm_cache st objptr else 0);
        (st, chunk) \<leftarrow> (if chunk = 0 then find_tx_chunk st objptr else Some (st, chunk));
        c \<leftarrow> live_chunk st chunk;
        l \<leftarrow> update_oncommit (tx_log st) objptr False;
        let st = st\<lparr>tx_log := l\<rparr>;
        c_assert (tc_nv_ptr c \<noteq> 0);
        st \<leftarrow> (if undo_log cfg then tx_flush_cache cfg st (tc_nv_ptr c) (ucast (tc_length c)) else Some st);
        Some (st, 0) })"

definition nv_begintrans_wrd :: "tx_cfg \<Rightarrow> tx_st \<Rightarrow> ULONG \<Rightarrow> ULONG \<Rightarrow> tx_st option" where
  "nv_begintrans_wrd cfg st wrdptr sz =
     (if redo_log cfg then Some st
      else if undo_log cfg then do {
        l \<leftarrow> log_record (tx_flush cfg) (tx_log st) wrdptr (ucast sz) True;
        Some (st\<lparr>tx_log := l\<rparr>) }
      else Some st)"

definition tx_spin_lock :: "tx_st \<Rightarrow> ULONG \<Rightarrow> tx_st option" where
  "tx_spin_lock st a = do {
     c \<leftarrow> tx_chunks st a;
     c_assert (locked (tc_lock c) = 0);
     Some (st\<lparr>tx_chunks := (tx_chunks st)(a \<mapsto> c\<lparr>tc_lock := (tc_lock c)\<lparr>locked := 1\<rparr>\<rparr>)\<rparr>) }"

definition tx_spin_unlock :: "tx_st \<Rightarrow> ULONG \<Rightarrow> tx_st option" where
  "tx_spin_unlock st a = do {
     c \<leftarrow> tx_chunks st a;
     l \<leftarrow> fst (gt_spin_unlock (Some (tc_lock c)));
     Some (st\<lparr>tx_chunks := (tx_chunks st)(a \<mapsto> c\<lparr>tc_lock := l\<rparr>)\<rparr>) }"

definition nv_begintrans_obj :: "tx_cfg \<Rightarrow> tx_st \<Rightarrow> ULONG \<Rightarrow> tx_st option" where
  "nv_begintrans_obj cfg st objptr =
     (if redo_log cfg then Some st
      else do {
        (st, chunk) \<leftarrow> find_tx_chunk st objptr;
        c \<leftarrow> live_chunk st chunk;
        st \<leftarrow> tx_spin_lock st chunk;
        st \<leftarrow> (if undo_log cfg then do {
                 l \<leftarrow> log_record (tx_flush cfg) (tx_log st) (tc_nv_ptr c) (tc_length c) False;
                 Some (add_to_cache (st\<lparr>tx_log := l\<rparr>) (tc_nv_ptr c) chunk) }
              else do {
                 c_assert (\<not> (tc_nv_ptr c = 0 \<or> tc_log_ptr c = 0));
                 bs \<leftarrow> lg_read (tx_log st) (tc_nv_ptr c) (unat (tc_length c));
                 l \<leftarrow> lg_write (tx_log st) (tc_log_ptr c) bs;
                 tx_flush_cache cfg (st\<lparr>tx_log := l\<rparr>) (tc_log_ptr c) (ucast (tc_length c)) });
        tx_spin_unlock st chunk })"

text \<open>Without shadow copies the source and the destination are the object itself.\<close>

definition nv_recover_obj :: "tx_st \<Rightarrow> ULONG \<Rightarrow> (tx_st \<times> int) option" where
  "nv_recover_obj st objptr = do {
     (st, chunk) \<leftarrow> find_tx_chunk st objptr;
     c \<leftarrow> live_chunk st chunk;
     c_assert (tc_nv_ptr c \<noteq> 0);
     bs \<leftarrow> lg_read (tx_log st) (tc_nv_ptr c) (unat (tc_length c));
     l \<leftarrow> lg_write (tx_log st) (tc_nv_ptr c) bs;
     Some (st\<lparr>tx_log := l\<rparr>, 0) }"

section \<open>The redo log\<close>

definition nvcommit_noarg :: "tx_st \<Rightarrow> tx_st option" where
  "nvcommit_noarg st = do { l \<leftarrow> commit_all (tx_log st); Some (st\<lparr>tx_log := l\<rparr>) }"

definition store_log :: "tx_cfg \<Rightarrow> tx_st \<Rightarrow> ULONG \<Rightarrow> ULONG \<Rightarrow> (tx_st \<times> int) option" where
  "store_log cfg st a val = do {
     l \<leftarrow> add_redo_word_record (tx_flush cfg) (tx_log st) a val;
     Some (st\<lparr>tx_log := l\<rparr>, 0) }"

definition load_log :: "tx_st \<Rightarrow> ULONG \<Rightarrow> ULONG option" where
  "load_log st a = read_log (tx_log st) a"

definition nv_sync_obj :: "tx_cfg \<Rightarrow> tx_st \<Rightarrow> ULONG \<Rightarrow> (tx_st \<times> int) option" where
  "nv_sync_obj cfg st objptr = do {
     let chunk = get_frm_cache st objptr;
     (st, chunk) \<leftarrow> (if chunk = 0 then find_tx_chunk st objptr else Some (st, chunk));
     c \<leftarrow> live_chunk st chunk;
     st \<leftarrow> tx_flush_cache cfg st (tc_nv_ptr c) (ucast (tc_length c));
     Some (st, 0) }"

definition nv_sync_chunk :: "tx_cfg \<Rightarrow> tx_st \<Rightarrow> ULONG \<Rightarrow> ULONG \<Rightarrow> (tx_st \<times> int) option" where
  "nv_sync_chunk cfg st objptr len = do {
     c_assert (len \<noteq> 0);
     st \<leftarrow> tx_flush_cache cfg st objptr len;
     Some (st, 0) }"

section \<open>What the cache answers\<close>

text \<open>\<open>q\<close> are the entries of the cache from the oldest to the newest.\<close>

definition cache_holds :: "tx_st \<Rightarrow> (ULONG \<times> ULONG) list \<Rightarrow> bool" where
  "cache_holds st q \<longleftrightarrow> initCache st \<noteq> 0 \<and> length q = CACHESIZE \<and>
     (\<exists>as bs. addr_cache st = map fst (as @ bs) \<and> chunk_cache st = map snd (as @ bs) \<and> q = bs @ as \<and>
        bs \<noteq> [] \<and> length as = unat (next_entry st))"

lemma cache_holds_init:
  assumes "initCache st = 0" and "next_entry st = 0"
  shows "cache_holds ((init_cache st)\<lparr>initCache := initCache st + 1\<rparr>) (replicate CACHESIZE (0, 0))"
  unfolding cache_holds_def using assms
  by (intro conjI exI [of _ "[]"] exI [of _ "replicate CACHESIZE (0, 0)"]) (simp_all add: init_cache_def CACHESIZE_def)

lemma cache_holds_add:
  assumes "cache_holds st q"
  shows "cache_holds (add_to_cache st k v) (tl q @ [(k, v)])"
proof -
  obtain as bs where q: "initCache st \<noteq> 0" "length q = 32" "addr_cache st = map fst (as @ bs)"
    "chunk_cache st = map snd (as @ bs)" "q = bs @ as" "bs \<noteq> []" "length as = unat (next_entry st)"
    using assms by (auto simp: cache_holds_def CACHESIZE_def)
  then obtain b bs' where b: "bs = b # bs'" by (cases bs) auto
  have e: "unat (next_entry st) + 1 + length bs' = 32" using q(2,5,7) b by simp
  let ?t = "add_to_cache st k v"
  have t: "addr_cache ?t = map fst (as @ (k, v) # bs')" "chunk_cache ?t = map snd (as @ (k, v) # bs')" "initCache ?t \<noteq> 0"
    using q by (simp_all add: add_to_cache_def Let_def b list_update_append)
  have n: "unat (next_entry ?t) = (unat (next_entry st) + 1) mod 32"
    using q(1) e by (simp add: add_to_cache_def Let_def CACHESIZE_def unat_mod unat_word_ariths)
  show ?thesis
  proof (cases "bs' = []")
    case True
    then have "unat (next_entry ?t) = 0" using n e by simp
    then show ?thesis unfolding cache_holds_def using t q b True
      by (intro conjI exI [of _ "[]"] exI [of _ "as @ [(k, v)]"]) (simp_all add: CACHESIZE_def)
  next
    case False
    then have "unat (next_entry ?t) = unat (next_entry st) + 1" using n e by (cases bs') simp_all
    then show ?thesis unfolding cache_holds_def using t q b False
      by (intro conjI exI [of _ "as @ [(k, v)]"] exI [of _ bs']) (simp_all add: CACHESIZE_def)
  qed
qed

lemma cache_search_eq:
  "cache_search st k as = (if k \<in> set as then chunk_cache st ! unat (next_entry st) else 0)"
  by (induction as) auto

lemma get_frm_cache_holds:
  assumes "cache_holds st q"
  shows "get_frm_cache st k = (if k \<in> fst ` set q then snd (hd q) else 0)"
proof -
  obtain as bs where q: "addr_cache st = map fst (as @ bs)" "chunk_cache st = map snd (as @ bs)" "q = bs @ as"
    "bs \<noteq> []" "length as = unat (next_entry st)"
    using assms by (auto simp: cache_holds_def)
  then have "chunk_cache st ! unat (next_entry st) = snd (hd bs)"
    by (cases bs) (simp_all add: nth_append flip: q(5))
  then show ?thesis using q by (auto simp: get_frm_cache_def cache_search_eq)
qed

definition add_all_to_cache :: "tx_st \<Rightarrow> (ULONG \<times> ULONG) list \<Rightarrow> tx_st" where
  "add_all_to_cache st kvs = foldl (\<lambda>st (k, v). add_to_cache st k v) st kvs"

lemma add_to_cache_first:
  "initCache st = 0 \<Longrightarrow> add_to_cache st k v = add_to_cache ((init_cache st)\<lparr>initCache := initCache st + 1\<rparr>) k v"
  by (simp add: add_to_cache_def init_cache_def Let_def)

lemma drop_Suc_snoc: "n < length xs \<Longrightarrow> drop (Suc n) (xs @ [x]) = tl (drop n xs) @ [x]"
  by (metis Suc_leI append.assoc drop_Suc diff_is_0_eq drop_0 drop_append tl_drop)

lemma cache_holds_all:
  assumes "cache_holds st q"
  shows "cache_holds (add_all_to_cache st kvs) (drop (length kvs) (q @ kvs))"
proof (induction kvs rule: rev_induct)
  case (snoc kv kvs)
  have q: "length q = 32" using assms by (simp add: cache_holds_def CACHESIZE_def)
  have "drop (length (kvs @ [kv])) (q @ kvs @ [kv]) = tl (drop (length kvs) (q @ kvs)) @ [kv]"
    using drop_Suc_snoc [of "length kvs" "q @ kvs" kv] q by simp
  then show ?case using cache_holds_add [OF snoc] by (cases kv) (simp add: add_all_to_cache_def)
qed (simp add: add_all_to_cache_def assms)

text \<open>
  C35: \<open>get_frm_cache\<close> finds a key exactly when it is among the last 32 entries added, counting the empty
  entries the cache starts with, but what it returns is the chunk of the oldest of these entries, not
  the chunk that was added with the key.
\<close>

theorem get_frm_cache_returns_oldest:
  assumes "initCache st = 0" and "next_entry st = 0" and "kvs \<noteq> []"
  defines "q \<equiv> drop (length kvs) (replicate CACHESIZE (0, 0) @ kvs)"
  shows "get_frm_cache (add_all_to_cache st kvs) k = (if k \<in> fst ` set q then snd (hd q) else 0)"
proof -
  let ?i = "(init_cache st)\<lparr>initCache := initCache st + 1\<rparr>"
  have "add_all_to_cache st kvs = add_all_to_cache ?i kvs"
    using assms(3) add_to_cache_first [OF assms(1)] by (cases kvs) (auto simp: add_all_to_cache_def)
  then show ?thesis
    using get_frm_cache_holds [OF cache_holds_all [OF cache_holds_init [OF assms(1,2)]], of kvs k]
    by (simp add: q_def)
qed

definition demo_tx :: tx_st where
  "demo_tx = \<lparr>tx_log = blank_log,
     tx_chunks = [0x500 \<mapsto> \<lparr>tc_length = 100, tc_nv_ptr = 4096, tc_log_ptr = 0, tc_lock = \<lparr>locked = 0, tid_holder = 0\<rparr>\<rparr>],
     tx_chunkmap = [(4096, Some 0x500)], addr_cache = replicate 32 0, chunk_cache = replicate 32 0,
     next_entry = 0, initCache = 0\<rparr>"

theorem get_frm_cache_returns_oldest_witness:
  "get_frm_cache (add_all_to_cache demo_tx [(4096, 0x500)]) 4096 = 0 \<and>
   get_frm_cache (add_all_to_cache demo_tx ([(4096, 0x500), (8192, 0x600)] @ replicate 30 (12288, 0x700))) 8192 = 0x500"
proof -
  have i: "initCache demo_tx = 0" "next_entry demo_tx = 0" by (simp_all add: demo_tx_def)
  have "snd (hd (replicate 31 (0, 0) @ [(4096 :: ULONG, 0x500 :: ULONG)])) = 0" by (simp add: numeral_eq_Suc)
  then show ?thesis
    using get_frm_cache_returns_oldest [OF i, of "[(4096, 0x500)]" 4096]
      get_frm_cache_returns_oldest [OF i, of "[(4096, 0x500), (8192, 0x600)] @ replicate 30 (12288, 0x700)" 8192]
    by (simp add: CACHESIZE_def)
qed

section \<open>Object transactions\<close>

definition obj_room :: "log_st \<Rightarrow> nat \<Rightarrow> bool" where
  "obj_room l n \<longleftrightarrow> currobjrec l \<noteq> 0 \<and> currobjrec l < objrecmap l + TRANS_LOGSZ \<and>
     curdatobjptr l \<noteq> 0 \<and> curdatobjptr l < objdatmap l + TRANS_DATA_LOGSZ \<and>
     mapped l (currobjrec l) 16 \<and> mapped l (curdatobjptr l) n \<and> mapped l (objrecmap l - sizeof_master_s) 4 \<and>
     unat (obj_nstd_cntr l) < MAX_NESTED_TRANS \<and> unat (curdatobjptr l) + n \<le> 2 ^ 48 \<and> n \<le> 2 ^ 32 - 64"

lemma bytes_at_0: "bytes_at l p 0 = []"
  by (simp add: bytes_at_def)

lemma log_record_obj:
  assumes r: "obj_room l (unat len)" and p: "p \<noteq> 0" "mapped l p (unat len)"
  obtains t where "log_record cfg l p len False = Some t"
    "obj_recs t (currobjrec l) = (obj_recs l (currobjrec l))\<lparr>rec_length := len, rec_offset := objdataoff l\<rparr>"
    "lg_mem t = (\<lambda>x. if unat (x - curdatobjptr l) < unat len then bytes_at l p (unat len) ! unat (x - curdatobjptr l) else lg_mem l x)"
proof -
  have "unat len \<le> 2 ^ 32 - 64" "unat (curdatobjptr l) + unat len \<le> 2 ^ 48" using r by (simp_all add: obj_room_def)
  then obtain f where f: "flush_cache cfg (curdatobjptr l) (ucast len) = Some f"
    using flush_cache_some [of "ucast len" "curdatobjptr l" cfg] by (auto simp: unat_ucast_ULONG)
  have b: "bytes_at (l\<lparr>obj_rechead := x, obj_datahead := y, obj_nstd_cntr := z\<rparr>) p n = bytes_at l p n" for x y z n
    by (simp add: bytes_at_def)
  have u: "(word_of_nat (unat len) :: ULONG) = ucast len" by simp
  have "\<exists>t. log_record cfg l p len False = Some t \<and>
    obj_recs t (currobjrec l) = (obj_recs l (currobjrec l))\<lparr>rec_length := len, rec_offset := objdataoff l\<rparr> \<and>
    lg_mem t = (\<lambda>x. if unat (x - curdatobjptr l) < unat len then bytes_at l p (unat len) ! unat (x - curdatobjptr l) else lg_mem l x)"
    using r p f
    by (auto simp: obj_room_def log_record_def start_obj_trans_def add_obj_record_def add_data_log_def
        put_data_log_def lg_read_def lg_write_def lg_flush_def incr_rec_count_def Let_def mapped_def u b not_le bytes_at_0)
  then show thesis using that by blast
qed

lemma find_tx_chunk_hit:
  assumes "um_find p (tx_chunkmap st) = Some (Some a)" and "p \<noteq> 0"
  shows "find_tx_chunk st p = Some (st, a)"
proof -
  have "tx_chunkmap st \<noteq> []" using assms(1) by auto
  then show ?thesis using assms by (simp add: find_tx_chunk_def get_chunk_from_map_o1_def um_at_def)
qed

lemma add_to_cache_fields [simp]:
  "tx_log (add_to_cache st k v) = tx_log st" "tx_chunks (add_to_cache st k v) = tx_chunks st"
  "tx_chunkmap (add_to_cache st k v) = tx_chunkmap st"
  by (simp_all add: add_to_cache_def init_cache_def Let_def)

text \<open>
  C22: with the undo log, a transaction on an object that is recorded under its address and not locked
  begins by copying its bytes to the next position of the data log, which becomes the image described by a new
  record; the object itself and its lock are left as they were.
\<close>

theorem begintrans_obj_saves_image:
  assumes cfg: "\<not> redo_log cfg" "undo_log cfg"
    and p: "p \<noteq> 0" "um_find p (tx_chunkmap st) = Some (Some a)"
    and c: "a \<noteq> 0" "tx_chunks st a = Some c" "tc_length c \<noteq> 0" "locked (tc_lock c) = 0"
    and o: "tc_nv_ptr c \<noteq> 0" "mapped (tx_log st) (tc_nv_ptr c) (unat (tc_length c))"
    and r: "obj_room (tx_log st) (unat (tc_length c))"
    and d: "\<And>i. i < unat (tc_length c) \<Longrightarrow>
      \<not> in_range (curdatobjptr (tx_log st)) (unat (tc_length c)) (tc_nv_ptr c + of_nat i)"
  defines "n \<equiv> unat (tc_length c)"
  shows "\<exists>st'. nv_begintrans_obj cfg st p = Some st' \<and> tx_chunks st' = tx_chunks st \<and>
    bytes_at (tx_log st') (curdatobjptr (tx_log st)) n = bytes_at (tx_log st) (tc_nv_ptr c) n \<and>
    bytes_at (tx_log st') (tc_nv_ptr c) n = bytes_at (tx_log st) (tc_nv_ptr c) n \<and>
    rec_length (obj_recs (tx_log st') (currobjrec (tx_log st))) = tc_length c \<and>
    rec_offset (obj_recs (tx_log st') (currobjrec (tx_log st))) = objdataoff (tx_log st)"
proof -
  let ?l = "tx_log st" and ?o = "tc_nv_ptr c"
  obtain t where t: "log_record (tx_flush cfg) ?l ?o (tc_length c) False = Some t"
    "obj_recs t (currobjrec ?l) = (obj_recs ?l (currobjrec ?l))\<lparr>rec_length := tc_length c, rec_offset := objdataoff ?l\<rparr>"
    "lg_mem t = (\<lambda>x. if unat (x - curdatobjptr ?l) < n then bytes_at ?l ?o n ! unat (x - curdatobjptr ?l) else lg_mem ?l x)"
    unfolding n_def by (rule log_record_obj [OF r o])
  have n: "n < 2 ^ 64" unfolding n_def using unsigned_less [of "tc_length c", where 'a = nat] by simp
  have "bytes_at t (curdatobjptr ?l) n = bytes_at ?l ?o n"
    using n by (intro nth_equalityI) (simp_all add: t(3) bytes_at_def unat_of_nat)
  moreover have "bytes_at t ?o n = bytes_at ?l ?o n"
    using d by (auto simp: t(3) bytes_at_def in_range_def n_def)
  moreover have "(tx_chunks st)(a \<mapsto> c\<lparr>tc_lock := (tc_lock c)\<lparr>locked := 0\<rparr>\<rparr>) = tx_chunks st"
    using c(2) c(4) by (auto simp: fun_eq_iff)
  ultimately show ?thesis
    using cfg c o(1) t(1,2) find_tx_chunk_hit [OF p(2,1)]
    by (simp add: nv_begintrans_obj_def live_chunk_def tx_spin_lock_def tx_spin_unlock_def gt_spin_unlock_def)
qed

theorem begintrans_obj_saves_image_witness:
  "\<exists>l st'. initialize_logmgr demo_mmap True blank_log True = Some l \<and>
     nv_begintrans_obj \<lparr>redo_log = False, undo_log = True,
       tx_flush = \<lparr>libpmemintel = False, disablesfence = False, use_cacheflush = True\<rparr>\<rparr>
       (demo_tx\<lparr>tx_log := l\<rparr>) 4096 = Some st' \<and>
     bytes_at (tx_log st') (curdatobjptr l) 100 = bytes_at l 4096 100"
proof -
  let ?f = "\<lparr>libpmemintel = False, disablesfence = False, use_cacheflush = True\<rparr>"
  let ?cfg = "\<lparr>redo_log = False, undo_log = True, tx_flush = ?f\<rparr>"
  let ?c = "\<lparr>tc_length = 100, tc_nv_ptr = 4096, tc_log_ptr = 0, tc_lock = \<lparr>locked = 0, tid_holder = 0\<rparr>\<rparr>"
  obtain l where l: "initialize_logmgr demo_mmap True blank_log True = Some l"
    "objrecmap l = 2 ^ 41 + 384" "objdatmap l = 3 * 2 ^ 40" "currobjrec l = 2 ^ 41 + 384" "curdatobjptr l = 3 * 2 ^ 40"
    "obj_nstd_cntr l = 0"
    "lg_maps l = [(5 * 2 ^ 40, 524288000), (2 ^ 42, 524288000), (3 * 2 ^ 40, 524288000), (2 ^ 41, 524288000), (4096, 4096)]"
    using initialize_demo by blast
  let ?st = "demo_tx\<lparr>tx_log := l\<rparr>"
  have "\<not> in_range (curdatobjptr l) 100 (4096 + of_nat i)" if "i < 100" for i
    using that by (simp add: in_range_def l(5) unat_sub_if' unat_word_ariths unat_of_nat)
  moreover have "obj_room l 100"
    by (simp add: obj_room_def l mapped_def log_sizes MAX_NESTED_TRANS_def)
  moreover have "mapped l 4096 100" by (simp add: mapped_def l)
  ultimately show ?thesis
    using begintrans_obj_saves_image [of ?cfg 4096 ?st "0x500" ?c] l(1)
    by (auto simp: demo_tx_def um_find_def)
qed

end
