(* ===== verification/JeBitmap.thy ===== *)
theory JeBitmap
  imports Nv_Prelude
begin

unbundle bit_operations_syntax

text \<open>
  \<open>allocs/bitmap.c\<close> and \<open>jemalloc/internal/bitmap.h\<close>: the bitmap of the regions of a run, as levels of
  groups of 64 bits. A bit of level 0 that is 0 is a region in use; a bit of a higher level is 0 when
  its group of the level below is 0. Sizes and indices are at most \<open>2 ^ 11\<close> here and are natural numbers.
\<close>

section \<open>The functions\<close>

definition LG_RUN_MAXREGS :: nat where
  "LG_RUN_MAXREGS = 11"

definition LG_BITMAP_MAXBITS :: nat where
  "LG_BITMAP_MAXBITS = LG_RUN_MAXREGS"

definition LG_SIZEOF_BITMAP :: nat where
  "LG_SIZEOF_BITMAP = 3"

definition LG_BITMAP_GROUP_NBITS :: nat where
  "LG_BITMAP_GROUP_NBITS = LG_SIZEOF_BITMAP + 3"

definition BITMAP_GROUP_NBITS :: nat where
  "BITMAP_GROUP_NBITS = 2 ^ LG_BITMAP_GROUP_NBITS"

definition BITMAP_MAX_LEVELS :: nat where
  "BITMAP_MAX_LEVELS = LG_BITMAP_MAXBITS div LG_SIZEOF_BITMAP + (if LG_BITMAP_MAXBITS mod LG_SIZEOF_BITMAP \<noteq> 0 then 1 else 0)"

text \<open>\<open>bit >> LG_BITMAP_GROUP_NBITS\<close> and \<open>bit & BITMAP_GROUP_NBITS_MASK\<close> of natural numbers.\<close>

definition group_of :: "nat \<Rightarrow> nat" where
  "group_of k = k div BITMAP_GROUP_NBITS"

definition bit_in_group :: "nat \<Rightarrow> nat" where
  "bit_in_group k = k mod BITMAP_GROUP_NBITS"

record bitmap_info_t =
  bi_nbits :: nat
  bi_nlevels :: nat
  bi_levels :: "nat list"

definition bits2groups :: "nat \<Rightarrow> nat" where
  "bits2groups nbits = group_of nbits + (if bit_in_group nbits \<noteq> 0 then 1 else 0)"

definition set_level :: "nat list \<Rightarrow> nat \<Rightarrow> nat \<Rightarrow> nat list option" where
  "set_level ls i v = (if i < length ls then Some (ls[i := v]) else None)"

lemma group_nbits [simp]: "BITMAP_GROUP_NBITS = 64"
  by (simp add: BITMAP_GROUP_NBITS_def LG_BITMAP_GROUP_NBITS_def LG_SIZEOF_BITMAP_def)

lemma bits2groups_eq: "bits2groups n = (n + 63) div 64"
proof -
  have "n = 64 * (n div 64) + n mod 64" "n mod 64 < 64" by simp_all
  moreover have "(64 * q + r + 63) div 64 = q + (if r \<noteq> 0 then 1 else 0)" if "r < 64" for q r :: nat
    using that by (cases "r = 0") (simp_all add: add.assoc)
  ultimately show ?thesis unfolding bits2groups_def group_of_def bit_in_group_def group_nbits by metis
qed

lemma bits2groups_less: "1 < n \<Longrightarrow> bits2groups n < n"
  by (simp add: bits2groups_eq)

function bitmap_info_loop :: "nat list \<Rightarrow> nat \<Rightarrow> nat \<Rightarrow> (nat list \<times> nat) option" where
  "bitmap_info_loop ls i group_count =
     (if group_count > 1
      then do {
        c_assert (i < BITMAP_MAX_LEVELS);
        ls \<leftarrow> set_level ls i (ls ! (i - 1) + group_count);
        bitmap_info_loop ls (i + 1) (bits2groups group_count) }
      else do {
        ls \<leftarrow> set_level ls i (ls ! (i - 1) + group_count);
        Some (ls, i) })"
  by pat_completeness auto
termination
  by (relation "measure (\<lambda>(ls, i, g). g)") (simp_all add: bits2groups_less)

declare bitmap_info_loop.simps [simp del]

text \<open>The array of levels starts with whatever it held before, \<open>ls\<close>.\<close>

definition bitmap_info_init :: "nat list \<Rightarrow> nat \<Rightarrow> bitmap_info_t option" where
  "bitmap_info_init ls nbits = do {
     c_assert (nbits > 0);
     c_assert (nbits \<le> 2 ^ LG_BITMAP_MAXBITS);
     ls \<leftarrow> set_level ls 0 0;
     (ls, i) \<leftarrow> bitmap_info_loop ls 1 (bits2groups nbits);
     Some \<lparr>bi_nbits = nbits, bi_nlevels = i, bi_levels = ls\<rparr> }"

definition level :: "bitmap_info_t \<Rightarrow> nat \<Rightarrow> nat" where
  "level binfo i = bi_levels binfo ! i"

definition bitmap_info_ngroups :: "bitmap_info_t \<Rightarrow> nat" where
  "bitmap_info_ngroups binfo = level binfo (bi_nlevels binfo) * 2 ^ LG_SIZEOF_BITMAP"

definition bitmap_size :: "nat list \<Rightarrow> nat \<Rightarrow> nat option" where
  "bitmap_size ls nbits = do { binfo \<leftarrow> bitmap_info_init ls nbits; Some (bitmap_info_ngroups binfo) }"

type_synonym bitmap = "ULONG list"

definition shift_group :: "bitmap \<Rightarrow> nat \<Rightarrow> nat \<Rightarrow> bitmap" where
  "shift_group bm g extra = (if extra \<noteq> 0 then bm[g := drop_bit extra (bm ! g)] else bm)"

definition extra_bits :: "nat \<Rightarrow> nat" where
  "extra_bits n = bit_in_group (BITMAP_GROUP_NBITS - bit_in_group n)"

definition bitmap_init :: "bitmap_info_t \<Rightarrow> bitmap" where
  "bitmap_init binfo =
     (let bm = replicate (level binfo (bi_nlevels binfo)) (- 1);
          bm = shift_group bm (level binfo 1 - 1) (extra_bits (bi_nbits binfo))
      in fold (\<lambda>i bm. shift_group bm (level binfo (i + 1) - 1) (extra_bits (level binfo i - level binfo (i - 1))))
           [1..<bi_nlevels binfo] bm)"

definition bitmap_full :: "bitmap \<Rightarrow> bitmap_info_t \<Rightarrow> bool" where
  "bitmap_full bm binfo \<longleftrightarrow> bm ! (level binfo (bi_nlevels binfo) - 1) = 0"

definition bitmap_get :: "bitmap \<Rightarrow> bitmap_info_t \<Rightarrow> nat \<Rightarrow> bool option" where
  "bitmap_get bm binfo k = do {
     c_assert (k < bi_nbits binfo);
     Some (\<not> bit (bm ! group_of k) (bit_in_group k)) }"

text \<open>\<open>g ^= 1LU << n\<close>.\<close>

definition flip :: "bitmap \<Rightarrow> nat \<Rightarrow> nat \<Rightarrow> bitmap" where
  "flip bm gi n = bm[gi := bm ! gi XOR push_bit n 1]"

text \<open>The rest of the loop over the levels from \<open>i\<close>; \<open>goff\<close> is the group that changed below.\<close>

function set_up :: "bitmap \<Rightarrow> bitmap_info_t \<Rightarrow> nat \<Rightarrow> nat \<Rightarrow> bitmap option" where
  "set_up bm binfo i goff =
     (if i < bi_nlevels binfo
      then do {
        let k = goff;
        let goff = group_of k;
        let gi = level binfo i + goff;
        c_assert (bit (bm ! gi) (bit_in_group k));
        let bm = flip bm gi (bit_in_group k);
        if bm ! gi \<noteq> 0 then Some bm else set_up bm binfo (i + 1) goff }
      else Some bm)"
  by pat_completeness auto
termination
  by (relation "measure (\<lambda>(bm, binfo, i, goff). bi_nlevels binfo - i)") auto

function unset_up :: "bitmap \<Rightarrow> bitmap_info_t \<Rightarrow> nat \<Rightarrow> nat \<Rightarrow> bitmap option" where
  "unset_up bm binfo i goff =
     (if i < bi_nlevels binfo
      then do {
        let k = goff;
        let goff = group_of k;
        let gi = level binfo i + goff;
        let propagate = (bm ! gi = 0);
        c_assert (\<not> bit (bm ! gi) (bit_in_group k));
        let bm = flip bm gi (bit_in_group k);
        if \<not> propagate then Some bm else unset_up bm binfo (i + 1) goff }
      else Some bm)"
  by pat_completeness auto
termination
  by (relation "measure (\<lambda>(bm, binfo, i, goff). bi_nlevels binfo - i)") auto

declare set_up.simps [simp del] unset_up.simps [simp del]

definition bitmap_set :: "bitmap \<Rightarrow> bitmap_info_t \<Rightarrow> nat \<Rightarrow> bitmap option" where
  "bitmap_set bm binfo k = do {
     c_assert (k < bi_nbits binfo);
     b \<leftarrow> bitmap_get bm binfo k;
     c_assert (\<not> b);
     let goff = group_of k;
     c_assert (bit (bm ! goff) (bit_in_group k));
     let bm = flip bm goff (bit_in_group k);
     b \<leftarrow> bitmap_get bm binfo k;
     c_assert b;
     if bm ! goff = 0 then set_up bm binfo 1 goff else Some bm }"

text \<open>\<open>ffsl(g) - 1\<close> for a \<open>g\<close> that is not 0: the position of the lowest bit that is set.\<close>

definition ffsl1 :: "ULONG \<Rightarrow> nat" where
  "ffsl1 g = hd (filter (bit g) [0..<64])"

text \<open>The loop down to level 0; \<open>i\<close> levels are left.\<close>

fun sfu_down :: "bitmap \<Rightarrow> bitmap_info_t \<Rightarrow> nat \<Rightarrow> nat \<Rightarrow> nat" where
  "sfu_down bm binfo 0 k = k"
| "sfu_down bm binfo (Suc i) k =
     (let g = bm ! (level binfo i + k) in sfu_down bm binfo i (k * BITMAP_GROUP_NBITS + ffsl1 g))"

definition bitmap_sfu :: "bitmap \<Rightarrow> bitmap_info_t \<Rightarrow> (bitmap \<times> nat) option" where
  "bitmap_sfu bm binfo = do {
     c_assert (\<not> bitmap_full bm binfo);
     let i = bi_nlevels binfo - 1;
     let g = bm ! level binfo i;
     let k = sfu_down bm binfo i (ffsl1 g);
     bm \<leftarrow> bitmap_set bm binfo k;
     Some (bm, k) }"

definition bitmap_unset :: "bitmap \<Rightarrow> bitmap_info_t \<Rightarrow> nat \<Rightarrow> bitmap option" where
  "bitmap_unset bm binfo k = do {
     c_assert (k < bi_nbits binfo);
     b \<leftarrow> bitmap_get bm binfo k;
     c_assert b;
     let goff = group_of k;
     let propagate = (bm ! goff = 0);
     c_assert (\<not> bit (bm ! goff) (bit_in_group k));
     let bm = flip bm goff (bit_in_group k);
     b \<leftarrow> bitmap_get bm binfo k;
     c_assert (\<not> b);
     if propagate then unset_up bm binfo 1 goff else Some bm }"

section \<open>The shape of the levels\<close>

text \<open>Level \<open>i\<close> has \<open>cnt i\<close> bits in \<open>cnt (i + 1)\<close> groups.\<close>

definition cnt :: "bitmap_info_t \<Rightarrow> nat \<Rightarrow> nat" where
  "cnt binfo i = (bits2groups ^^ i) (bi_nbits binfo)"

definition binfo_ok :: "bitmap_info_t \<Rightarrow> bool" where
  "binfo_ok binfo \<longleftrightarrow> 0 < bi_nbits binfo \<and> 0 < bi_nlevels binfo \<and> level binfo 0 = 0 \<and>
     (\<forall>i < bi_nlevels binfo. level binfo (Suc i) = level binfo i + cnt binfo (Suc i)) \<and>
     cnt binfo (bi_nlevels binfo) = 1"

lemma cnt_Suc: "cnt binfo (Suc i) = bits2groups (cnt binfo i)"
  by (simp add: cnt_def)

lemma cnt_0 [simp]: "cnt binfo 0 = bi_nbits binfo"
  by (simp add: cnt_def)

lemma bits2groups_pos: "0 < n \<Longrightarrow> 0 < bits2groups n"
  by (simp add: bits2groups_eq)

lemma group_bound: "k < n \<Longrightarrow> group_of k < bits2groups n"
  by (simp add: bits2groups_eq group_of_def)

lemma bit_in_group_less [simp]: "bit_in_group k < 64"
  by (simp add: bit_in_group_def)

lemmas bitmap_consts = BITMAP_MAX_LEVELS_def LG_BITMAP_MAXBITS_def LG_RUN_MAXREGS_def LG_SIZEOF_BITMAP_def

lemma bitmap_info_loop_last:
  "i < length ls \<Longrightarrow> bitmap_info_loop ls i 1 = Some (ls[i := ls ! (i - 1) + 1], i)"
  by (subst bitmap_info_loop.simps) (simp add: set_level_def)

lemma bitmap_info_loop_next:
  "i < length ls \<Longrightarrow> 1 < g \<Longrightarrow> i < BITMAP_MAX_LEVELS \<Longrightarrow>
     bitmap_info_loop ls i g = bitmap_info_loop (ls[i := ls ! (i - 1) + g]) (i + 1) (bits2groups g)"
  by (subst bitmap_info_loop.simps) (simp add: set_level_def)

text \<open>The bytes of a bitmap.\<close>

definition bm_bytes :: "nat \<Rightarrow> nat" where
  "bm_bytes nbits = 8 * (if nbits \<le> 64 then 1 else bits2groups nbits + 1)"

lemma bitmap_info_init_ok:
  assumes n: "0 < nbits" "nbits \<le> 2 ^ 11" and l: "length ls = BITMAP_MAX_LEVELS + 1"
  obtains binfo where "bitmap_info_init ls nbits = Some binfo" "binfo_ok binfo" "bi_nbits binfo = nbits"
    "bitmap_info_ngroups binfo = bm_bytes nbits"
proof (cases "nbits \<le> 64")
  case True
  then have g: "bits2groups nbits = 1" using n by (simp add: bits2groups_eq)
  let ?b = "\<lparr>bi_nbits = nbits, bi_nlevels = 1, bi_levels = ls[0 := 0, 1 := 1]\<rparr>"
  have "bitmap_info_init ls nbits = Some ?b"
    using n l by (simp add: bitmap_info_init_def g bitmap_info_loop_last [simplified] set_level_def bitmap_consts)
  moreover have "binfo_ok ?b"
    using n l by (simp add: binfo_ok_def level_def cnt_def g bitmap_consts)
  moreover have "bitmap_info_ngroups ?b = bm_bytes nbits"
    using True l by (simp add: bitmap_info_ngroups_def level_def bm_bytes_def bitmap_consts)
  ultimately show thesis using that by simp
next
  case False
  let ?g = "bits2groups nbits"
  have g: "1 < ?g" "bits2groups ?g = 1" using False n by (auto simp: bits2groups_eq)
  let ?b = "\<lparr>bi_nbits = nbits, bi_nlevels = 2, bi_levels = ls[0 := 0, 1 := ?g, 2 := ?g + 1]\<rparr>"
  have "bitmap_info_loop (ls[0 := 0]) 1 ?g = Some (ls[0 := 0, 1 := ?g, 2 := ?g + 1], 2)"
    using l g bitmap_info_loop_last [of 2 "ls[0 := 0, 1 := ?g]"] bitmap_info_loop_next [of 1 "ls[0 := 0]" ?g]
    by (simp add: bitmap_consts numeral_2_eq_2)
  then have "bitmap_info_init ls nbits = Some ?b"
    using n l by (simp add: bitmap_info_init_def set_level_def bitmap_consts)
  moreover have "level ?b (Suc i) = level ?b i + cnt ?b (Suc i)" if "i < 2" for i
    using that l g by (auto simp: less_Suc_eq level_def cnt_def bitmap_consts numeral_2_eq_2)
  then have "binfo_ok ?b"
    using n l g by (simp add: binfo_ok_def level_def cnt_def bitmap_consts numeral_2_eq_2)
  moreover have "bitmap_info_ngroups ?b = bm_bytes nbits"
    using False l by (simp add: bitmap_info_ngroups_def level_def bm_bytes_def bitmap_consts)
  ultimately show thesis using that by simp
qed

section \<open>The invariant\<close>

definition grp :: "bitmap \<Rightarrow> bitmap_info_t \<Rightarrow> nat \<Rightarrow> nat \<Rightarrow> ULONG" where
  "grp bm binfo i g = bm ! (level binfo i + g)"

definition lv_bit :: "bitmap \<Rightarrow> bitmap_info_t \<Rightarrow> nat \<Rightarrow> nat \<Rightarrow> bool" where
  "lv_bit bm binfo i k = bit (grp bm binfo i (group_of k)) (bit_in_group k)"

text \<open>
  Bits beyond the end of a level are 0, and a bit tells whether its group of the level below is not
  0, except for the bits of \<open>X\<close>, which tell the opposite.
\<close>

definition bm_but :: "bitmap_info_t \<Rightarrow> (nat \<times> nat) set \<Rightarrow> bitmap \<Rightarrow> bool" where
  "bm_but binfo X bm \<longleftrightarrow> length bm = level binfo (bi_nlevels binfo) \<and>
     (\<forall>i < bi_nlevels binfo. \<forall>k < 64 * cnt binfo (Suc i). cnt binfo i \<le> k \<longrightarrow> \<not> lv_bit bm binfo i k) \<and>
     (\<forall>i k. Suc i < bi_nlevels binfo \<longrightarrow> k < cnt binfo (Suc i) \<longrightarrow>
        (lv_bit bm binfo (Suc i) k = (grp bm binfo i k \<noteq> 0)) = ((Suc i, k) \<notin> X))"

definition bm_ok :: "bitmap_info_t \<Rightarrow> bitmap \<Rightarrow> bool" where
  "bm_ok binfo bm = bm_but binfo {} bm"

definition bm_set :: "bitmap_info_t \<Rightarrow> bitmap \<Rightarrow> nat set" where
  "bm_set binfo bm = {k. k < bi_nbits binfo \<and> \<not> lv_bit bm binfo 0 k}"

lemma bit_split: "k = 64 * group_of k + bit_in_group k"
  by (simp add: group_of_def bit_in_group_def)

lemma bit_split_eq: "j < 64 \<Longrightarrow> group_of (64 * g + j) = g \<and> bit_in_group (64 * g + j) = j"
  by (simp add: group_of_def bit_in_group_def)

lemma level_Suc: "binfo_ok binfo \<Longrightarrow> i < bi_nlevels binfo \<Longrightarrow> level binfo (Suc i) = level binfo i + cnt binfo (Suc i)"
  by (simp add: binfo_ok_def)

lemma level_mono:
  assumes "binfo_ok binfo" and "i \<le> j" and "j \<le> bi_nlevels binfo"
  shows "level binfo i \<le> level binfo j"
  using assms(2,3) by (induction j rule: dec_induct) (auto simp: level_Suc [OF assms(1)])

lemma idx_bound:
  assumes "binfo_ok binfo" and "i < bi_nlevels binfo" and "g < cnt binfo (Suc i)"
  shows "level binfo i + g < level binfo (bi_nlevels binfo)"
  using level_mono [OF assms(1), of "Suc i" "bi_nlevels binfo"] level_Suc [OF assms(1,2)] assms(2,3) by simp

lemma idx_inj:
  assumes ok: "binfo_ok binfo" and i: "i < bi_nlevels binfo" "g < cnt binfo (Suc i)"
    and j: "j < bi_nlevels binfo" "h < cnt binfo (Suc j)"
  shows "level binfo i + g = level binfo j + h \<longleftrightarrow> i = j \<and> g = h"
proof (cases i j rule: linorder_cases)
  case less
  then show ?thesis using level_mono [OF ok, of "Suc i" j] level_Suc [OF ok i(1)] i j by simp
next
  case greater
  then show ?thesis using level_mono [OF ok, of "Suc j" i] level_Suc [OF ok j(1)] i j by simp
qed simp

lemma cnt_group: "k < cnt binfo i \<Longrightarrow> group_of k < cnt binfo (Suc i)"
  by (simp add: cnt_Suc group_bound)

lemma cnt_le: "cnt binfo i \<le> 64 * cnt binfo (Suc i)"
  by (simp add: cnt_Suc bits2groups_eq)

lemma group_of_less: "k < 64 * n \<Longrightarrow> group_of k < n"
  by (simp add: group_of_def)

section \<open>Flipping a bit\<close>

lemma grp_flip:
  assumes "binfo_ok binfo" and "length bm = level binfo (bi_nlevels binfo)"
    and "i < bi_nlevels binfo" "g < cnt binfo (Suc i)" and "j < bi_nlevels binfo" "h < cnt binfo (Suc j)"
  shows "grp (flip bm (level binfo i + g) n) binfo j h =
    (if j = i \<and> h = g then grp bm binfo i g XOR push_bit n 1 else grp bm binfo j h)"
  using idx_bound [OF assms(1,3,4)] idx_inj [OF assms(1,3,4,5,6)] assms(2)
  by (auto simp: grp_def flip_def nth_list_update)

lemma lv_bit_flip:
  assumes ok: "binfo_ok binfo" and l: "length bm = level binfo (bi_nlevels binfo)"
    and i: "i < bi_nlevels binfo" "k < cnt binfo i" and j: "j < bi_nlevels binfo" "m < 64 * cnt binfo (Suc j)"
  shows "lv_bit (flip bm (level binfo i + group_of k) (bit_in_group k)) binfo j m =
    (((j, m) = (i, k)) \<noteq> lv_bit bm binfo j m)"
proof -
  have "(group_of m = group_of k \<and> bit_in_group m = bit_in_group k) = (m = k)"
    by (metis bit_split)
  then show ?thesis
    using grp_flip [OF ok l i(1) cnt_group [OF i(2)] j(1) group_of_less [OF j(2)]]
    by (auto simp: lv_bit_def bit_xor_iff bit_exp_iff)
qed

lemma flip_step:
  assumes ok: "binfo_ok binfo" and bm: "bm_but binfo {(i, k)} bm" and i: "i < bi_nlevels binfo" "k < cnt binfo i"
  defines "bm' \<equiv> flip bm (level binfo i + group_of k) (bit_in_group k)"
  shows "bm_but binfo (if (grp bm' binfo i (group_of k) = 0) \<noteq> (grp bm binfo i (group_of k) = 0) \<and> Suc i < bi_nlevels binfo
      then {(Suc i, group_of k)} else {}) bm'"
proof -
  have l: "length bm = level binfo (bi_nlevels binfo)" using bm by (simp add: bm_but_def)
  note lv = lv_bit_flip [OF ok l i, folded bm'_def] and gr = grp_flip [OF ok l i(1) cnt_group [OF i(2)], of _ _ "bit_in_group k", folded bm'_def]
  have "\<not> lv_bit bm' binfo j m" if "j < bi_nlevels binfo" "m < 64 * cnt binfo (Suc j)" "cnt binfo j \<le> m" for j m
    using lv [OF that(1,2)] bm that i(2) by (auto simp: bm_but_def)
  moreover have "(lv_bit bm' binfo (Suc j) m = (grp bm' binfo j m \<noteq> 0)) =
      ((Suc j, m) \<notin> (if (grp bm' binfo i (group_of k) = 0) \<noteq> (grp bm binfo i (group_of k) = 0) \<and> Suc i < bi_nlevels binfo
        then {(Suc i, group_of k)} else {}))" if j: "Suc j < bi_nlevels binfo" "m < cnt binfo (Suc j)" for j m
  proof -
    have m: "m < 64 * cnt binfo (Suc (Suc j))" using j(2) cnt_le [of binfo "Suc j"] by simp
    have old: "(lv_bit bm binfo (Suc j) m = (grp bm binfo j m \<noteq> 0)) = ((Suc j, m) \<noteq> (i, k))"
      using bm j by (auto simp: bm_but_def)
    show ?thesis using lv [OF j(1) m] gr [of j m] old j by (cases "j = i \<and> m = group_of k") auto
  qed
  moreover have "length bm' = level binfo (bi_nlevels binfo)" using l by (simp add: bm'_def flip_def)
  ultimately show ?thesis unfolding bm_but_def by blast
qed

text \<open>Bit \<open>k\<close> of level \<open>i\<close>, whose value is \<open>b\<close>, tells the opposite of its group; at the top nothing is left to repair.\<close>

definition pending :: "bitmap_info_t \<Rightarrow> bool \<Rightarrow> nat \<Rightarrow> nat \<Rightarrow> bitmap \<Rightarrow> bool" where
  "pending binfo b i k bm \<longleftrightarrow>
     (if i < bi_nlevels binfo then bm_but binfo {(i, k)} bm \<and> k < cnt binfo i \<and> lv_bit bm binfo i k = b
      else bm_ok binfo bm)"

lemma pending_start:
  assumes "binfo_ok binfo" and "bm_ok binfo bm" and "k < bi_nbits binfo"
  shows "pending binfo (lv_bit bm binfo 0 k) 0 k bm"
  using assms by (auto simp: pending_def bm_ok_def bm_but_def binfo_ok_def)

lemma pending_step:
  assumes ok: "binfo_ok binfo" and p: "pending binfo b i k bm" and i: "i < bi_nlevels binfo"
  defines "bm' \<equiv> flip bm (level binfo i + group_of k) (bit_in_group k)"
  defines "changed \<equiv> (if b then grp bm' binfo i (group_of k) = 0 else grp bm binfo i (group_of k) = 0)"
  shows "if changed then pending binfo b (Suc i) (group_of k) bm' else bm_ok binfo bm'"
    and "lv_bit bm' binfo i k = (\<not> b)"
    and "\<And>h. h < cnt binfo 1 \<Longrightarrow> 0 < i \<Longrightarrow> grp bm' binfo 0 h = grp bm binfo 0 h"
proof -
  let ?g = "group_of k"
  have k: "k < cnt binfo i" and b: "lv_bit bm binfo i k = b" and bm: "bm_but binfo {(i, k)} bm"
    using p i by (simp_all add: pending_def)
  have l: "length bm = level binfo (bi_nlevels binfo)" using bm by (simp add: bm_but_def)
  note lv = lv_bit_flip [OF ok l i k, folded bm'_def]
  have k64: "k < 64 * cnt binfo (Suc i)" using k cnt_le [of binfo i] by simp
  show b': "lv_bit bm' binfo i k = (\<not> b)" using lv [OF i k64] b by simp
  show "grp bm' binfo 0 h = grp bm binfo 0 h" if "h < cnt binfo 1" "0 < i" for h
    using grp_flip [OF ok l i cnt_group [OF k], of 0 h "bit_in_group k"] that i by (simp add: bm'_def)
  have z: "b \<Longrightarrow> grp bm binfo i ?g \<noteq> 0" "\<not> b \<Longrightarrow> grp bm' binfo i ?g \<noteq> 0"
    using b b' by (auto simp: lv_bit_def)
  then have c: "((grp bm' binfo i ?g = 0) \<noteq> (grp bm binfo i ?g = 0)) = changed" by (auto simp: changed_def)
  note st = flip_step [OF ok bm i k, folded bm'_def, unfolded c]
  show "if changed then pending binfo b (Suc i) ?g bm' else bm_ok binfo bm'"
  proof (cases "changed \<and> Suc i < bi_nlevels binfo")
    case True
    have g: "?g < cnt binfo (Suc i)" "?g < 64 * cnt binfo (Suc (Suc i))"
      using cnt_group [OF k] cnt_le [of binfo "Suc i"] by simp_all
    have "lv_bit bm binfo (Suc i) ?g = (grp bm binfo i ?g \<noteq> 0)"
      using bm True g(1) unfolding bm_but_def by force
    then have "lv_bit bm' binfo (Suc i) ?g = b"
      using lv [of "Suc i" ?g] True g z by (auto simp: changed_def split: if_splits)
    then show ?thesis using True st g by (simp add: pending_def)
  next
    case False
    then show ?thesis using st by (auto simp: pending_def bm_ok_def)
  qed
qed

text \<open>The two loops over the levels repair what is pending.\<close>

lemma set_up_ok:
  assumes "binfo_ok binfo" and "pending binfo True i k bm" and "0 < i"
  shows "\<exists>bm'. set_up bm binfo i k = Some bm' \<and> bm_ok binfo bm' \<and> (\<forall>h < cnt binfo 1. grp bm' binfo 0 h = grp bm binfo 0 h)"
  using assms
proof (induction bm binfo i k rule: set_up.induct)
  case (1 bm binfo i k)
  let ?bm = "flip bm (level binfo i + group_of k) (bit_in_group k)"
  show ?case
  proof (cases "i < bi_nlevels binfo")
    case True
    note st = pending_step [OF "1.prems"(1,2) True]
    have a: "bit (bm ! (level binfo i + group_of k)) (bit_in_group k)"
      using "1.prems"(2) True by (simp add: pending_def lv_bit_def grp_def)
    show ?thesis
    proof (cases "grp ?bm binfo i (group_of k) = 0")
      case z: True
      have "\<exists>bm'. set_up ?bm binfo (i + 1) (group_of k) = Some bm' \<and> bm_ok binfo bm' \<and> (\<forall>h < cnt binfo 1. grp bm' binfo 0 h = grp ?bm binfo 0 h)"
        using "1.IH" [OF True refl refl refl, of "()" ?bm] a z "1.prems" st(1) by (simp add: grp_def)
      then show ?thesis using a z True st(3) "1.prems"(3) by (subst set_up.simps) (auto simp: Let_def grp_def)
    next
      case False
      then show ?thesis using a True st(1,3) "1.prems"(3) by (subst set_up.simps) (auto simp: Let_def grp_def)
    qed
  next
    case False
    then show ?thesis using "1.prems"(2) by (subst set_up.simps) (simp add: pending_def)
  qed
qed

lemma unset_up_ok:
  assumes "binfo_ok binfo" and "pending binfo False i k bm" and "0 < i"
  shows "\<exists>bm'. unset_up bm binfo i k = Some bm' \<and> bm_ok binfo bm' \<and> (\<forall>h < cnt binfo 1. grp bm' binfo 0 h = grp bm binfo 0 h)"
  using assms
proof (induction bm binfo i k rule: unset_up.induct)
  case (1 bm binfo i k)
  let ?bm = "flip bm (level binfo i + group_of k) (bit_in_group k)"
  show ?case
  proof (cases "i < bi_nlevels binfo")
    case True
    note st = pending_step [OF "1.prems"(1,2) True]
    have a: "\<not> bit (bm ! (level binfo i + group_of k)) (bit_in_group k)"
      using "1.prems"(2) True by (simp add: pending_def lv_bit_def grp_def)
    show ?thesis
    proof (cases "grp bm binfo i (group_of k) = 0")
      case z: True
      have "\<exists>bm'. unset_up ?bm binfo (i + 1) (group_of k) = Some bm' \<and> bm_ok binfo bm' \<and> (\<forall>h < cnt binfo 1. grp bm' binfo 0 h = grp ?bm binfo 0 h)"
        using "1.IH" [OF True refl refl refl refl, of "()" ?bm] a z "1.prems" st(1) by (simp add: grp_def)
      then show ?thesis using a z True st(3) "1.prems"(3) by (subst unset_up.simps) (auto simp: Let_def grp_def)
    next
      case False
      then show ?thesis using a True st(1,3) "1.prems"(3) by (subst unset_up.simps) (auto simp: Let_def grp_def)
    qed
  next
    case False
    then show ?thesis using "1.prems"(2) by (subst unset_up.simps) (simp add: pending_def)
  qed
qed

section \<open>The operations on the set of regions in use\<close>

lemma level_0: "binfo_ok binfo \<Longrightarrow> level binfo 0 = 0"
  by (simp add: binfo_ok_def)

lemma bitmap_get_lv: "binfo_ok binfo \<Longrightarrow> k < bi_nbits binfo \<Longrightarrow> bitmap_get bm binfo k = Some (\<not> lv_bit bm binfo 0 k)"
  by (simp add: bitmap_get_def lv_bit_def grp_def level_0)

lemma bitmap_get_ok: "binfo_ok binfo \<Longrightarrow> k < bi_nbits binfo \<Longrightarrow> bitmap_get bm binfo k = Some (k \<in> bm_set binfo bm)"
  by (simp add: bitmap_get_lv bm_set_def)

text \<open>One bit of level 0 has changed.\<close>

lemma bm_set_flip:
  assumes ok: "binfo_ok binfo" and bm: "bm_ok binfo bm" and k: "k < bi_nbits binfo"
    and g: "\<forall>h < cnt binfo 1. grp bm' binfo 0 h = grp (flip bm (group_of k) (bit_in_group k)) binfo 0 h"
  shows "bm_set binfo bm' = (if k \<in> bm_set binfo bm then bm_set binfo bm - {k} else insert k (bm_set binfo bm))"
proof -
  have l: "length bm = level binfo (bi_nlevels binfo)" using bm by (simp add: bm_ok_def bm_but_def)
  have "0 < bi_nlevels binfo" using ok by (simp add: binfo_ok_def)
  then have "lv_bit bm' binfo 0 m = ((m = k) \<noteq> lv_bit bm binfo 0 m)" if "m < bi_nbits binfo" for m
    using lv_bit_flip [OF ok l, of 0 k 0 m] k that g cnt_group [of m binfo 0] cnt_le [of binfo 0]
    by (simp add: lv_bit_def level_0 [OF ok])
  then show ?thesis using k by (auto simp: bm_set_def)
qed

lemma bitmap_set_ok:
  assumes ok: "binfo_ok binfo" and bm: "bm_ok binfo bm" and k: "k < bi_nbits binfo" "k \<notin> bm_set binfo bm"
  obtains bm' where "bitmap_set bm binfo k = Some bm'" "bm_ok binfo bm'" "bm_set binfo bm' = insert k (bm_set binfo bm)"
proof -
  let ?bm = "flip bm (group_of k) (bit_in_group k)"
  have b: "lv_bit bm binfo 0 k" using k by (simp add: bm_set_def)
  have n: "0 < bi_nlevels binfo" using ok by (simp add: binfo_ok_def)
  have p: "pending binfo True 0 k bm" using pending_start [OF ok bm k(1)] b by simp
  note st = pending_step [OF ok p n, unfolded level_0 [OF ok], simplified]
  have g: "grp x binfo 0 h = x ! h" for x h by (simp add: grp_def level_0 [OF ok])
  have ex: "\<exists>bm'. (if grp ?bm binfo 0 (group_of k) = 0 then set_up ?bm binfo 1 (group_of k) else Some ?bm) = Some bm' \<and>
    bm_ok binfo bm' \<and> (\<forall>h < cnt binfo 1. grp bm' binfo 0 h = grp ?bm binfo 0 h)"
    using st(1) set_up_ok [OF ok, of 1 "group_of k" ?bm] by auto
  then obtain bm' where bm': "(if grp ?bm binfo 0 (group_of k) = 0 then set_up ?bm binfo 1 (group_of k) else Some ?bm) = Some bm'"
    "bm_ok binfo bm'" "\<forall>h < cnt binfo 1. grp bm' binfo 0 h = grp ?bm binfo 0 h" by blast
  have "bitmap_set bm binfo k = Some bm'"
    using bm'(1) b st(2) k(1) by (simp add: bitmap_set_def bitmap_get_lv [OF ok] lv_bit_def g Let_def)
  then show thesis using that bm'(2) bm_set_flip [OF ok bm k(1) bm'(3)] k(2) by simp
qed

lemma bitmap_unset_ok:
  assumes ok: "binfo_ok binfo" and bm: "bm_ok binfo bm" and k: "k \<in> bm_set binfo bm"
  obtains bm' where "bitmap_unset bm binfo k = Some bm'" "bm_ok binfo bm'" "bm_set binfo bm' = bm_set binfo bm - {k}"
proof -
  let ?bm = "flip bm (group_of k) (bit_in_group k)"
  have b: "lv_bit bm binfo 0 k = False" and kn: "k < bi_nbits binfo" using k by (auto simp: bm_set_def)
  have n: "0 < bi_nlevels binfo" using ok by (simp add: binfo_ok_def)
  have p: "pending binfo False 0 k bm" using pending_start [OF ok bm kn] b by simp
  note st = pending_step [OF ok p n, unfolded level_0 [OF ok], simplified]
  have g: "grp x binfo 0 h = x ! h" for x h by (simp add: grp_def level_0 [OF ok])
  have ex: "\<exists>bm'. (if grp bm binfo 0 (group_of k) = 0 then unset_up ?bm binfo 1 (group_of k) else Some ?bm) = Some bm' \<and>
    bm_ok binfo bm' \<and> (\<forall>h < cnt binfo 1. grp bm' binfo 0 h = grp ?bm binfo 0 h)"
    using st(1) unset_up_ok [OF ok, of 1 "group_of k" ?bm] by auto
  then obtain bm' where bm': "(if grp bm binfo 0 (group_of k) = 0 then unset_up ?bm binfo 1 (group_of k) else Some ?bm) = Some bm'"
    "bm_ok binfo bm'" "\<forall>h < cnt binfo 1. grp bm' binfo 0 h = grp ?bm binfo 0 h" by blast
  have "bitmap_unset bm binfo k = Some bm'"
    using bm'(1) b st(2) kn by (simp add: bitmap_unset_def bitmap_get_lv [OF ok] lv_bit_def g Let_def)
  then show thesis using that bm'(2) bm_set_flip [OF ok bm kn bm'(3)] k by simp
qed

section \<open>The first region that is not in use\<close>

lemma ffsl1_least:
  assumes "g \<noteq> 0"
  shows "ffsl1 g < 64 \<and> bit g (ffsl1 g) \<and> (\<forall>j < ffsl1 g. \<not> bit g j)"
proof -
  obtain n where n: "bit g n" using assms by (auto simp: bit_eq_iff)
  then have "n < 64" using bit_imp_le_length [of g n] by simp
  then obtain x xs where x: "filter (bit g) [0..<64] = x # xs"
    using n by (cases "filter (bit g) [0..<64]") (auto simp: filter_empty_conv)
  then obtain us vs where u: "[0..<64] = us @ x # vs" "\<forall>u \<in> set us. \<not> bit g u" "bit g x"
    by (auto simp: filter_eq_Cons_iff)
  have "length us < 64" using arg_cong [OF u(1), of length] by simp
  moreover have "[0..<64] ! length us = x" using u(1) by simp
  moreover have "us = take (length us) [0..<64]" using u(1) by simp
  ultimately have "us = [0..<x]" "x < 64" by (auto simp: take_upt)
  then show ?thesis using x u by (auto simp: ffsl1_def)
qed

definition least_bit :: "bitmap \<Rightarrow> bitmap_info_t \<Rightarrow> nat \<Rightarrow> nat \<Rightarrow> bool" where
  "least_bit bm binfo i k \<longleftrightarrow> k < cnt binfo i \<and> lv_bit bm binfo i k \<and> (\<forall>m < k. \<not> lv_bit bm binfo i m)"

lemma bm_tail: "bm_ok binfo bm \<Longrightarrow> i < bi_nlevels binfo \<Longrightarrow> k < 64 * cnt binfo (Suc i) \<Longrightarrow> cnt binfo i \<le> k \<Longrightarrow> \<not> lv_bit bm binfo i k"
  by (simp add: bm_ok_def bm_but_def)

lemma least_bit_down:
  assumes ok: "binfo_ok binfo" and bm: "bm_ok binfo bm" and i: "Suc i < bi_nlevels binfo" and k: "least_bit bm binfo (Suc i) k"
  shows "least_bit bm binfo i (k * 64 + ffsl1 (grp bm binfo i k))"
proof -
  let ?f = "ffsl1 (grp bm binfo i k)"
  have up: "lv_bit bm binfo (Suc i) m = (grp bm binfo i m \<noteq> 0)" if "m < cnt binfo (Suc i)" for m
    using bm i that by (simp add: bm_ok_def bm_but_def)
  have kc: "k < cnt binfo (Suc i)" "lv_bit bm binfo (Suc i) k" "\<forall>m < k. \<not> lv_bit bm binfo (Suc i) m"
    using k by (simp_all add: least_bit_def)
  then have f: "?f < 64" "bit (grp bm binfo i k) ?f" "\<forall>j < ?f. \<not> bit (grp bm binfo i k) j"
    using ffsl1_least up by auto
  have s: "group_of (k * 64 + ?f) = k" "bit_in_group (k * 64 + ?f) = ?f"
    using bit_split_eq [OF f(1), of k] by (simp_all add: mult.commute)
  have b: "lv_bit bm binfo i (k * 64 + ?f)" using f(2) by (simp add: lv_bit_def s)
  have "k * 64 + ?f < 64 * cnt binfo (Suc i)" using kc(1) f(1) by simp
  then have "k * 64 + ?f < cnt binfo i" using bm_tail [OF bm, of i] b i by (meson Suc_lessD not_le)
  moreover have "\<not> lv_bit bm binfo i m" if "m < k * 64 + ?f" for m
  proof (cases "group_of m = k")
    case True
    then have "bit_in_group m < ?f" using that bit_split [of m] by simp
    then show ?thesis using f(3) True by (simp add: lv_bit_def)
  next
    case False
    then have "group_of m < k" using that f(1) by (auto simp: group_of_def)
    then have "grp bm binfo i (group_of m) = 0" using up [of "group_of m"] kc by simp
    then show ?thesis by (simp add: lv_bit_def)
  qed
  ultimately show ?thesis using b by (simp add: least_bit_def)
qed

lemma sfu_down_least:
  assumes ok: "binfo_ok binfo" and bm: "bm_ok binfo bm"
  shows "i < bi_nlevels binfo \<Longrightarrow> least_bit bm binfo i k \<Longrightarrow> least_bit bm binfo 0 (sfu_down bm binfo i k)"
proof (induction i arbitrary: k)
  case (Suc i)
  then show ?case using least_bit_down [OF ok bm Suc.prems] by (simp add: Let_def grp_def)
qed simp

text \<open>The root level has one group.\<close>

lemma root_level:
  assumes "binfo_ok binfo"
  shows "level binfo (bi_nlevels binfo) - 1 = level binfo (bi_nlevels binfo - 1)"
  using assms level_Suc [OF assms, of "bi_nlevels binfo - 1"] by (simp add: binfo_ok_def)

lemma root_least:
  assumes ok: "binfo_ok binfo" and bm: "bm_ok binfo bm" and f: "\<not> bitmap_full bm binfo"
  shows "least_bit bm binfo (bi_nlevels binfo - 1) (ffsl1 (bm ! level binfo (bi_nlevels binfo - 1)))"
proof -
  let ?i = "bi_nlevels binfo - 1" and ?g = "bm ! level binfo (bi_nlevels binfo - 1)"
  have n: "0 < bi_nlevels binfo" "cnt binfo (Suc ?i) = 1" using ok by (simp_all add: binfo_ok_def)
  have "?g \<noteq> 0" using f unfolding bitmap_full_def root_level [OF ok] .
  then have l: "ffsl1 ?g < 64" "bit ?g (ffsl1 ?g)" "\<forall>j < ffsl1 ?g. \<not> bit ?g j" using ffsl1_least by auto
  have s: "lv_bit bm binfo ?i m = bit ?g m" if "m < 64" for m
    using that by (simp add: lv_bit_def grp_def group_of_def bit_in_group_def)
  have "ffsl1 ?g < cnt binfo ?i"
    using bm_tail [OF bm, of ?i "ffsl1 ?g"] l s [of "ffsl1 ?g"] n by force
  then show ?thesis using l s by (simp add: least_bit_def)
qed

lemma bit_root:
  assumes ok: "binfo_ok binfo" and bm: "bm_ok binfo bm"
  shows "i \<le> bi_nlevels binfo - 1 \<Longrightarrow> k < cnt binfo i \<Longrightarrow> lv_bit bm binfo i k \<Longrightarrow> bm ! level binfo (bi_nlevels binfo - 1) \<noteq> 0"
proof (induction i arbitrary: k rule: inc_induct)
  case base
  have "cnt binfo (Suc (bi_nlevels binfo - 1)) = 1" using ok by (simp add: binfo_ok_def)
  then have "group_of k = 0" using cnt_group [OF base(1)] by simp
  then show ?case using base(2) by (auto simp: lv_bit_def grp_def)
next
  case (step i)
  have "lv_bit bm binfo (Suc i) (group_of k) = (grp bm binfo i (group_of k) \<noteq> 0)"
    using bm step(2) cnt_group [OF step(4)] by (simp add: bm_ok_def bm_but_def)
  moreover have "grp bm binfo i (group_of k) \<noteq> 0" using step(5) by (auto simp: lv_bit_def)
  ultimately show ?case using step(3) cnt_group [OF step(4)] by blast
qed

lemma bitmap_full_iff:
  assumes ok: "binfo_ok binfo" and bm: "bm_ok binfo bm"
  shows "bitmap_full bm binfo \<longleftrightarrow> bm_set binfo bm = {..<bi_nbits binfo}"
proof
  assume "bitmap_full bm binfo"
  then have "bm ! level binfo (bi_nlevels binfo - 1) = 0" unfolding bitmap_full_def root_level [OF ok] .
  then have "\<not> lv_bit bm binfo 0 k" if "k < bi_nbits binfo" for k
    using bit_root [OF ok bm, of 0 k] that by auto
  then show "bm_set binfo bm = {..<bi_nbits binfo}" by (auto simp: bm_set_def)
next
  assume s: "bm_set binfo bm = {..<bi_nbits binfo}"
  show "bitmap_full bm binfo"
  proof (rule ccontr)
    assume "\<not> bitmap_full bm binfo"
    then have "least_bit bm binfo 0 (sfu_down bm binfo (bi_nlevels binfo - 1) (ffsl1 (bm ! level binfo (bi_nlevels binfo - 1))))"
      using root_least [OF ok bm] ok by (intro sfu_down_least [OF ok bm]) (simp_all add: binfo_ok_def)
    then show False using s by (auto simp: least_bit_def bm_set_def set_eq_iff)
  qed
qed

lemma bitmap_sfu_ok:
  assumes ok: "binfo_ok binfo" and bm: "bm_ok binfo bm" and f: "bm_set binfo bm \<noteq> {..<bi_nbits binfo}"
  obtains bm' k where "bitmap_sfu bm binfo = Some (bm', k)" "bm_ok binfo bm'" "k < bi_nbits binfo" "k \<notin> bm_set binfo bm"
    "{..<k} \<subseteq> bm_set binfo bm" "bm_set binfo bm' = insert k (bm_set binfo bm)"
proof -
  have nf: "\<not> bitmap_full bm binfo" using f bitmap_full_iff [OF ok bm] by simp
  let ?k = "sfu_down bm binfo (bi_nlevels binfo - 1) (ffsl1 (bm ! level binfo (bi_nlevels binfo - 1)))"
  have "least_bit bm binfo 0 ?k"
    using root_least [OF ok bm nf] ok by (intro sfu_down_least [OF ok bm]) (simp_all add: binfo_ok_def)
  then have k: "?k < bi_nbits binfo" "?k \<notin> bm_set binfo bm" "{..<?k} \<subseteq> bm_set binfo bm"
    by (auto simp: least_bit_def bm_set_def)
  obtain bm' where "bitmap_set bm binfo ?k = Some bm'" "bm_ok binfo bm'" "bm_set binfo bm' = insert ?k (bm_set binfo bm)"
    using bitmap_set_ok [OF ok bm k(1,2)] by blast
  then show thesis using that k nf by (simp add: bitmap_sfu_def Let_def)
qed

section \<open>A new bitmap\<close>

text \<open>The groups of the levels below \<open>m\<close> have lost the bits beyond their ends; the others are all ones.\<close>

definition fresh_upto :: "bitmap_info_t \<Rightarrow> nat \<Rightarrow> bitmap \<Rightarrow> bool" where
  "fresh_upto binfo m bm \<longleftrightarrow> length bm = level binfo (bi_nlevels binfo) \<and>
     (\<forall>i < bi_nlevels binfo. \<forall>k < 64 * cnt binfo (Suc i). lv_bit bm binfo i k = (m \<le> i \<or> k < cnt binfo i))"

lemma last_group:
  assumes "0 < n" and "j < 64" and "g < bits2groups n"
  shows "64 * g + j < n \<longleftrightarrow> (g = bits2groups n - 1 \<longrightarrow> j + extra_bits n < 64)"
proof -
  obtain q r where n: "n = 64 * q + r" "r < 64" by (metis bit_split bit_in_group_less)
  have e: "extra_bits n = (64 - r) mod 64" using n by (simp add: extra_bits_def bit_in_group_def)
  have b: "bits2groups n = q + (if r = 0 then 0 else 1)" using n by (auto simp: bits2groups_def group_of_def bit_in_group_def)
  show ?thesis
  proof (cases "r = 0")
    case True
    then show ?thesis using assms n b e by auto
  next
    case False
    then have "(64 - r) mod 64 = 64 - r" using n(2) by simp
    then show ?thesis using assms n b e False by auto
  qed
qed

lemma cnt_pos: "binfo_ok binfo \<Longrightarrow> 0 < cnt binfo i"
  by (induction i) (simp_all add: cnt_Suc bits2groups_pos binfo_ok_def)

lemma grp_shift:
  assumes ok: "binfo_ok binfo" and l: "length bm = level binfo (bi_nlevels binfo)" and m: "m < bi_nlevels binfo"
    and i: "i < bi_nlevels binfo" "h < cnt binfo (Suc i)"
  shows "grp (shift_group bm (level binfo (Suc m) - 1) e) binfo i h =
    (if i = m \<and> h = cnt binfo (Suc m) - 1 then drop_bit e (grp bm binfo i h) else grp bm binfo i h)"
proof -
  let ?G = "cnt binfo (Suc m) - 1"
  have G: "?G < cnt binfo (Suc m)" "level binfo (Suc m) - 1 = level binfo m + ?G"
    using cnt_pos [OF ok, of "Suc m"] level_Suc [OF ok m] by auto
  show ?thesis
    using idx_bound [OF ok m G(1)] idx_inj [OF ok m G(1) i] l unfolding G(2)
    by (auto simp: shift_group_def grp_def nth_list_update)
qed

lemma fresh_step:
  assumes ok: "binfo_ok binfo" and m: "m < bi_nlevels binfo" and f: "fresh_upto binfo m bm"
  shows "fresh_upto binfo (Suc m) (shift_group bm (level binfo (Suc m) - 1) (extra_bits (cnt binfo m)))"
    (is "fresh_upto binfo (Suc m) ?bm")
proof -
  let ?e = "extra_bits (cnt binfo m)" and ?G = "cnt binfo (Suc m) - 1"
  have l: "length bm = level binfo (bi_nlevels binfo)" using f by (simp add: fresh_upto_def)
  have old: "lv_bit bm binfo i k = (m \<le> i \<or> k < cnt binfo i)" if "i < bi_nlevels binfo" "k < 64 * cnt binfo (Suc i)" for i k
    using f that by (simp add: fresh_upto_def)
  have "lv_bit ?bm binfo i k = (Suc m \<le> i \<or> k < cnt binfo i)" if i: "i < bi_nlevels binfo" "k < 64 * cnt binfo (Suc i)" for i k
  proof -
    have gr: "grp ?bm binfo i (group_of k) =
      (if i = m \<and> group_of k = ?G then drop_bit ?e (grp bm binfo i (group_of k)) else grp bm binfo i (group_of k))"
      using grp_shift [OF ok l m i(1) group_of_less [OF i(2)]] .
    have tl: "i = m \<Longrightarrow> (k < cnt binfo m) = (group_of k = ?G \<longrightarrow> bit_in_group k + ?e < 64)"
      using last_group [OF cnt_pos [OF ok] bit_in_group_less, of "group_of k" m k] bit_split [of k] group_of_less [OF i(2)]
      by (simp add: cnt_Suc)
    show ?thesis
    proof (cases "i = m \<and> group_of k = ?G")
      case True
      let ?j = "bit_in_group k + ?e"
      have "lv_bit ?bm binfo i k = bit (grp bm binfo m ?G) ?j"
        using True gr by (simp add: lv_bit_def bit_drop_bit_eq add.commute)
      also have "\<dots> = (?j < 64)"
      proof (cases "?j < 64")
        case lt: True
        have "lv_bit bm binfo m (64 * ?G + ?j)"
          using old [OF m, of "64 * ?G + ?j"] lt cnt_pos [OF ok, of "Suc m"] by simp
        then show ?thesis using lt by (simp add: lv_bit_def bit_split_eq)
      qed (use bit_imp_le_length [of "grp bm binfo m ?G" ?j] in auto)
      finally show ?thesis using True tl by simp
    next
      case False
      then have "lv_bit ?bm binfo i k = lv_bit bm binfo i k" unfolding lv_bit_def gr by auto
      then show ?thesis using old [OF i] False tl by (cases "i = m") auto
    qed
  qed
  moreover have "length ?bm = level binfo (bi_nlevels binfo)" using l by (simp add: shift_group_def)
  ultimately show ?thesis by (simp add: fresh_upto_def)
qed

lemma bitmap_init_fresh:
  assumes ok: "binfo_ok binfo"
  shows "fresh_upto binfo (bi_nlevels binfo) (bitmap_init binfo)"
proof -
  let ?bm = "replicate (level binfo (bi_nlevels binfo)) (- 1)"
  have n: "0 < bi_nlevels binfo" using ok by (simp add: binfo_ok_def)
  have "fresh_upto binfo 0 ?bm"
    using idx_bound [OF ok _ group_of_less]
    by (auto simp: fresh_upto_def lv_bit_def grp_def bit_minus_1_iff possible_bit_def)
  then have f1: "fresh_upto binfo 1 (shift_group ?bm (level binfo 1 - 1) (extra_bits (bi_nbits binfo)))"
    using fresh_step [OF ok n, of ?bm] by simp
  have "fresh_upto binfo m (fold (\<lambda>i bm. shift_group bm (level binfo (i + 1) - 1) (extra_bits (level binfo i - level binfo (i - 1))))
      [1..<m] bm)" if "1 \<le> m" "m \<le> bi_nlevels binfo" "fresh_upto binfo 1 bm" for m bm
    using that
  proof (induction m rule: dec_induct)
    case (step m)
    have "level binfo m - level binfo (m - 1) = cnt binfo m"
      using level_Suc [OF ok, of "m - 1"] step by simp
    then show ?case using fresh_step [OF ok, of m] step by (simp add: upt_Suc)
  qed simp
  then show ?thesis using f1 n by (simp add: bitmap_init_def Let_def)
qed

lemma bitmap_init_ok:
  assumes ok: "binfo_ok binfo"
  shows "bm_ok binfo (bitmap_init binfo)" and "bm_set binfo (bitmap_init binfo) = {}"
proof -
  let ?bm = "bitmap_init binfo"
  have f: "length ?bm = level binfo (bi_nlevels binfo)"
    "\<And>i k. i < bi_nlevels binfo \<Longrightarrow> k < 64 * cnt binfo (Suc i) \<Longrightarrow> lv_bit ?bm binfo i k = (k < cnt binfo i)"
    using bitmap_init_fresh [OF ok] by (auto simp: fresh_upto_def)
  have "grp ?bm binfo i g \<noteq> 0" if "i < bi_nlevels binfo" "g < cnt binfo (Suc i)" for i g
  proof -
    have "64 * g < cnt binfo i" using that(2) by (simp add: cnt_Suc bits2groups_eq)
    then have "lv_bit ?bm binfo i (64 * g)" using f(2) [OF that(1)] that(2) by simp
    then show ?thesis using bit_split_eq [of 0 g] by (auto simp: lv_bit_def)
  qed
  moreover have "lv_bit ?bm binfo (Suc i) k" if "Suc i < bi_nlevels binfo" "k < cnt binfo (Suc i)" for i k
    using f(2) [of "Suc i" k] that cnt_le [of binfo "Suc i"] by simp
  ultimately show "bm_ok binfo ?bm" using f by (auto simp: bm_ok_def bm_but_def)
  show "bm_set binfo ?bm = {}" using f(2) [of 0] ok cnt_le [of binfo 0] by (auto simp: bm_set_def binfo_ok_def)
qed

end
