(* ===== verification/JeSlots.thy ===== *)
theory JeSlots
  imports JeBitmap
begin

text \<open>The contract of an allocator of equal regions, and the bitmap as one.\<close>

section \<open>Slots\<close>

text \<open>
  What an allocator of equal regions promises: it hands out the first free slot, takes slots in use back, and
  stops at an assertion when no slot is free or a slot is not in use.
\<close>

datatype slot_op = Take | Give nat

fun slot_spec :: "nat \<Rightarrow> nat set \<Rightarrow> slot_op list \<Rightarrow> (nat set \<times> nat list) option" where
  "slot_spec n S [] = Some (S, [])"
| "slot_spec n S (Take # ops) =
     (if S = {..<n} then None
      else let k = LEAST k. k \<notin> S in map_option (\<lambda>(T, ks). (T, k # ks)) (slot_spec n (insert k S) ops))"
| "slot_spec n S (Give k # ops) = (if k \<in> S then slot_spec n (S - {k}) ops else None)"

fun slot_run :: "('b \<Rightarrow> ('b \<times> nat) option) \<Rightarrow> ('b \<Rightarrow> nat \<Rightarrow> 'b option) \<Rightarrow> 'b \<Rightarrow> slot_op list \<Rightarrow> ('b \<times> nat list) option" where
  "slot_run tk gv b [] = Some (b, [])"
| "slot_run tk gv b (Take # ops) = do { (b, k) \<leftarrow> tk b; (b, ks) \<leftarrow> slot_run tk gv b ops; Some (b, k # ks) }"
| "slot_run tk gv b (Give k # ops) = do { b \<leftarrow> gv b k; slot_run tk gv b ops }"

locale slots =
  fixes ok :: "'b \<Rightarrow> bool" and cap :: "'b \<Rightarrow> nat" and used :: "'b \<Rightarrow> nat set"
    and tk :: "'b \<Rightarrow> ('b \<times> nat) option" and gv :: "'b \<Rightarrow> nat \<Rightarrow> 'b option"
  assumes used_bound: "ok b \<Longrightarrow> used b \<subseteq> {..<cap b}"
    and take_full: "ok b \<Longrightarrow> used b = {..<cap b} \<Longrightarrow> tk b = None"
    and take_ok: "ok b \<Longrightarrow> used b \<noteq> {..<cap b} \<Longrightarrow>
      \<exists>b'. tk b = Some (b', LEAST k. k \<notin> used b) \<and> ok b' \<and> cap b' = cap b \<and> used b' = insert (LEAST k. k \<notin> used b) (used b)"
    and give_free: "ok b \<Longrightarrow> k \<notin> used b \<Longrightarrow> gv b k = None"
    and give_ok: "ok b \<Longrightarrow> k \<in> used b \<Longrightarrow> \<exists>b'. gv b k = Some b' \<and> ok b' \<and> cap b' = cap b \<and> used b' = used b - {k}"
begin

lemma run_refines:
  "ok b \<Longrightarrow> map_option (\<lambda>(b, ks). (used b, ks)) (slot_run tk gv b ops) = slot_spec (cap b) (used b) ops"
proof (induction ops arbitrary: b)
  case (Cons x ops)
  show ?case
  proof (cases x)
    case Take
    show ?thesis
    proof (cases "used b = {..<cap b}")
      case False
      let ?k = "LEAST k. k \<notin> used b"
      obtain b' where b': "tk b = Some (b', ?k)" "ok b'" "cap b' = cap b" "used b' = insert ?k (used b)"
        using take_ok [OF Cons.prems False] by blast
      have ih: "slot_spec (cap b) (insert ?k (used b)) ops = map_option (\<lambda>(b, ks). (used b, ks)) (slot_run tk gv b' ops)"
        using Cons.IH [OF b'(2)] b'(3,4) by simp
      have "slot_spec (cap b) (used b) (x # ops) = map_option (\<lambda>(T, ks). (T, ?k # ks)) (slot_spec (cap b) (insert ?k (used b)) ops)"
        using False by (simp add: Take Let_def)
      also have "\<dots> = map_option (\<lambda>(b, ks). (used b, ks)) (slot_run tk gv b (x # ops))"
        unfolding ih by (cases "slot_run tk gv b' ops") (simp_all add: Take b'(1) split: prod.splits)
      finally show ?thesis by simp
    qed (simp add: Take take_full [OF Cons.prems])
  next
    case (Give k)
    show ?thesis
    proof (cases "k \<in> used b")
      case True
      then obtain b' where "gv b k = Some b'" "ok b'" "cap b' = cap b" "used b' = used b - {k}"
        using give_ok [OF Cons.prems] by blast
      then show ?thesis using Cons.IH [of b'] True by (simp add: Give)
    qed (simp add: Give give_free [OF Cons.prems])
  qed
qed simp

end

definition bmi_take :: "bitmap_info_t \<times> bitmap \<Rightarrow> ((bitmap_info_t \<times> bitmap) \<times> nat) option" where
  "bmi_take = (\<lambda>(binfo, bm). map_option (\<lambda>(bm', k). ((binfo, bm'), k)) (bitmap_sfu bm binfo))"

definition bmi_give :: "bitmap_info_t \<times> bitmap \<Rightarrow> nat \<Rightarrow> (bitmap_info_t \<times> bitmap) option" where
  "bmi_give = (\<lambda>(binfo, bm) k. map_option (Pair binfo) (bitmap_unset bm binfo k))"

interpretation bms: slots "\<lambda>(binfo, bm). binfo_ok binfo \<and> bm_ok binfo bm" "\<lambda>(binfo, bm). bi_nbits binfo"
  "\<lambda>(binfo, bm). bm_set binfo bm" bmi_take bmi_give
proof (unfold_locales, goal_cases)
  case (1 b)
  then show ?case by (auto simp: bm_set_def)
next
  case (2 b)
  then show ?case by (cases b) (simp add: bmi_take_def bitmap_sfu_def bitmap_full_iff)
next
  case (3 b)
  obtain binfo bm where b: "b = (binfo, bm)" by fastforce
  obtain bm' k where k: "bitmap_sfu bm binfo = Some (bm', k)" "bm_ok binfo bm'" "k < bi_nbits binfo" "k \<notin> bm_set binfo bm"
    "{..<k} \<subseteq> bm_set binfo bm" "bm_set binfo bm' = insert k (bm_set binfo bm)"
    using bitmap_sfu_ok [of binfo bm] 3 by (auto simp: b)
  then have "(LEAST k. k \<notin> bm_set binfo bm) = k" by (intro Least_equality) (auto intro: leI)
  then show ?case using k 3 by (auto simp: b bmi_take_def)
next
  case (4 b k)
  then show ?case
    by (cases b; cases "k < bi_nbits (fst b)") (simp_all add: bmi_give_def bitmap_unset_def bitmap_get_ok)
next
  case (5 b k)
  obtain binfo bm where b: "b = (binfo, bm)" by fastforce
  obtain bm' where "bitmap_unset bm binfo k = Some bm'" "bm_ok binfo bm'" "bm_set binfo bm' = bm_set binfo bm - {k}"
    using bitmap_unset_ok [of binfo bm k] 5 by (auto simp: b)
  then show ?case using 5 by (auto simp: b bmi_give_def)
qed

text \<open>
  C13: a new bitmap behaves as the set of the bits that are set. In any sequence of \<open>bitmap_sfu\<close> and
  \<open>bitmap_unset\<close> the former returns and sets the first bit that is not set, the latter takes a
  bit out, and an assertion stops the sequence exactly when the bitmap is full or the bit was not set.
\<close>

theorem bitmap_refines_set:
  assumes "length ls = BITMAP_MAX_LEVELS + 1" and "bitmap_info_init ls nbits = Some binfo"
  shows "map_option (\<lambda>(b, ks). (bm_set (fst b) (snd b), ks)) (slot_run bmi_take bmi_give (binfo, bitmap_init binfo) ops) =
    slot_spec nbits {} ops"
proof -
  have n: "0 < nbits" "nbits \<le> 2 ^ 11"
    using assms(2) by (auto simp: bitmap_info_init_def c_assert_bind_eq_Some bitmap_consts)
  obtain b where b: "bitmap_info_init ls nbits = Some b" "binfo_ok b" "bi_nbits b = nbits"
    using bitmap_info_init_ok [OF n assms(1)] by blast
  then have "binfo_ok binfo" "bi_nbits binfo = nbits" using assms(2) by simp_all
  then show ?thesis
    using bms.run_refines [of "(binfo, bitmap_init binfo)" ops] bitmap_init_ok [of binfo]
    by (simp add: case_prod_beta)
qed

theorem bitmap_refines_set_witness:
  "\<exists>binfo. bitmap_info_init [7, 7, 7, 7, 7] 70 = Some binfo \<and>
     map_option snd (slot_run bmi_take bmi_give (binfo, bitmap_init binfo) [Take, Take, Give 0, Take]) = Some [0, 1, 0]"
proof -
  have l: "length [7, 7, 7, 7, 7 :: nat] = BITMAP_MAX_LEVELS + 1" by (simp add: bitmap_consts)
  obtain binfo where b: "bitmap_info_init [7, 7, 7, 7, 7] 70 = Some binfo"
    by (rule bitmap_info_init_ok [OF _ _ l, of 70]) simp_all
  have k: "(LEAST k. k \<notin> {0 :: nat}) = 1" "(LEAST k. k \<notin> {1 :: nat}) = 0" "(LEAST k. k \<notin> ({} :: nat set)) = 0"
    by (rule Least_equality; simp)+
  have f: "{} \<noteq> {..<70 :: nat}" "{0} \<noteq> {..<70 :: nat}" "{1} \<noteq> {..<70 :: nat}"
    unfolding set_eq_iff not_all by (rule exI [of _ 5], simp)+
  have d: "{1, 0} - {0} = {1 :: nat}" by auto
  have s: "slot_spec 70 {} [Take, Take, Give 0, Take] = Some ({0, 1}, [0, 1, 0])"
    unfolding slot_spec.simps Let_def k f [THEN if_not_P] d by simp
  have "map_option snd (slot_run bmi_take bmi_give (binfo, bitmap_init binfo) [Take, Take, Give 0, Take]) =
      map_option snd (map_option (\<lambda>(b, ks). (bm_set (fst b) (snd b), ks)) (slot_run bmi_take bmi_give (binfo, bitmap_init binfo) [Take, Take, Give 0, Take]))"
    by (simp add: option.map_comp case_prod_beta comp_def)
  also have "\<dots> = Some [0, 1, 0]" unfolding bitmap_refines_set [OF l b] s by simp
  finally show ?thesis using b by blast
qed

end
