(* ===== verification/JeRegion.thy ===== *)
theory JeRegion
  imports JeSlots
begin

unbundle bit_operations_syntax

text \<open>
  The regions of a run, from \<open>allocs/arena.c\<close>, \<open>jemalloc/internal/arena.h\<close> and
  \<open>jemalloc/internal/size_classes.h\<close>: size classes, the layout of the runs of a bin, and allocating and
  freeing regions. The constants are those of a 64-bit build with pages of 4 KiB and \<open>_USENVRAM\<close>.
\<close>

section \<open>Size classes\<close>

text \<open>Triples of bin, distance to the class before, and size.\<close>

definition SIZE_CLASSES :: "(nat \<times> nat \<times> nat) list" where
  "SIZE_CLASSES =
     [(0, 8, 8), (1, 8, 16), (2, 16, 32), (3, 16, 48), (4, 16, 64), (5, 16, 80), (6, 16, 96), (7, 16, 112),
      (8, 16, 128), (9, 32, 160), (10, 32, 192), (11, 32, 224), (12, 32, 256), (13, 64, 320), (14, 64, 384),
      (15, 64, 448), (16, 64, 512), (17, 128, 640), (18, 128, 768), (19, 128, 896), (20, 128, 1024),
      (21, 256, 1280), (22, 256, 1536), (23, 256, 1792), (24, 256, 2048), (25, 512, 2560), (26, 512, 3072),
      (27, 512, 3584)]"

definition NBINS :: nat where
  "NBINS = 28"

definition SMALL_MAXCLASS :: nat where
  "SMALL_MAXCLASS = 3584"

definition LG_TINY_MIN :: nat where
  "LG_TINY_MIN = 3"

text \<open>The macros \<open>S2B_8\<close> to \<open>S2B_8192\<close> repeat the bin once for every 8 bytes of the distance.\<close>

definition small_size2bin :: "nat list" where
  "small_size2bin = concat (map (\<lambda>(bin, delta, sz). replicate (delta div 8) bin) SIZE_CLASSES)"

definition SMALL_SIZE2BIN :: "nat \<Rightarrow> nat" where
  "SMALL_SIZE2BIN s = small_size2bin ! ((s - 1) div 2 ^ LG_TINY_MIN)"

definition class_size :: "nat \<Rightarrow> nat" where
  "class_size bin = snd (snd (SIZE_CLASSES ! bin))"

section \<open>Runs\<close>

record arena_bin_info_t =
  reg_size :: nat
  redzone_size :: nat
  reg_interval :: nat
  run_size :: nat
  nregs :: nat
  bitmap_offset :: nat
  bitmap_info :: bitmap_info_t
  ctx0_offset :: nat
  reg0_offset :: nat

text \<open>\<open>bin\<close> is the index of the bin in the arena; the bitmap of a run follows its header.\<close>

record arena_run_t =
  run_bin :: nat
  run_nextind :: nat
  run_nfree :: nat
  run_bitmap :: bitmap

text \<open>A new run, as \<open>arena_bin_nonfull_run_get\<close> sets it up.\<close>

definition arena_run_init :: "nat \<Rightarrow> arena_bin_info_t \<Rightarrow> arena_run_t" where
  "arena_run_init bin bin_info =
     \<lparr>run_bin = bin, run_nextind = 0, run_nfree = nregs bin_info, run_bitmap = bitmap_init (bitmap_info bin_info)\<rparr>"

definition arena_run_reg_alloc :: "ULONG \<Rightarrow> arena_run_t \<Rightarrow> arena_bin_info_t \<Rightarrow> (arena_run_t \<times> ULONG) option" where
  "arena_run_reg_alloc a run bin_info = do {
     c_assert (run_nfree run > 0);
     c_assert (\<not> bitmap_full (run_bitmap run) (bitmap_info bin_info));
     (bm, regind) \<leftarrow> bitmap_sfu (run_bitmap run) (bitmap_info bin_info);
     let ret = a + of_nat (reg0_offset bin_info) + of_nat (reg_interval bin_info * regind);
     let run = run\<lparr>run_bitmap := bm, run_nfree := run_nfree run - 1\<rparr>;
     let run = (if regind = run_nextind run then run\<lparr>run_nextind := run_nextind run + 1\<rparr> else run);
     c_assert (regind < run_nextind run);
     Some (run, ret) }"

text \<open>
  The index of a region. \<open>diff\<close> is an \<open>unsigned int\<close>; after powers of 2 have been taken out of the interval,
  the division is a multiplication with a scaled inverse when the interval is at most 31.
\<close>

definition SIZE_INV_SHIFT :: nat where
  "SIZE_INV_SHIFT = 32 - LG_RUN_MAXREGS"

definition SIZE_INV :: "nat \<Rightarrow> UINT" where
  "SIZE_INV s = of_nat (2 ^ SIZE_INV_SHIFT div s + 1)"

definition interval_invs :: "UINT list" where
  "interval_invs = map SIZE_INV [3..<32]"

definition arena_run_regind :: "ULONG \<Rightarrow> arena_bin_info_t \<Rightarrow> ULONG \<Rightarrow> nat option" where
  "arena_run_regind a bin_info p = do {
     c_assert (p \<ge> a + of_nat (reg0_offset bin_info));
     let diff = (ucast (p - a - of_nat (reg0_offset bin_info)) :: UINT);
     let interval = reg_interval bin_info;
     let shift = ffsl1 (of_nat interval);
     let diff = drop_bit shift diff;
     let interval = interval div 2 ^ shift;
     let regind = (if interval = 1 then diff
                   else if interval \<le> length interval_invs + 2
                   then drop_bit SIZE_INV_SHIFT (diff * interval_invs ! (interval - 3))
                   else of_nat (unat diff div interval));
     c_assert (diff = regind * of_nat interval);
     c_assert (unat regind < nregs bin_info);
     Some (unat regind) }"

text \<open>The bin of the page that holds the pointer is looked up in the page map before.\<close>

definition arena_run_reg_dalloc :: "ULONG \<Rightarrow> arena_run_t \<Rightarrow> arena_bin_info_t \<Rightarrow> ULONG \<Rightarrow> arena_run_t option" where
  "arena_run_reg_dalloc a run bin_info p = do {
     regind \<leftarrow> arena_run_regind a bin_info p;
     c_assert (run_nfree run < nregs bin_info);
     c_assert (unat (p - (a + of_nat (reg0_offset bin_info))) mod reg_interval bin_info = 0);
     c_assert (p \<ge> a + of_nat (reg0_offset bin_info));
     b \<leftarrow> bitmap_get (run_bitmap run) (bitmap_info bin_info) regind;
     c_assert b;
     bm \<leftarrow> bitmap_unset (run_bitmap run) (bitmap_info bin_info) regind;
     Some (run\<lparr>run_bitmap := bm, run_nfree := run_nfree run + 1\<rparr>) }"

section \<open>The layout of runs\<close>

definition PAGE :: nat where
  "PAGE = 4096"

definition RUN_BFP :: nat where
  "RUN_BFP = 12"

definition RUN_MAX_OVRHD :: nat where
  "RUN_MAX_OVRHD = 0x3d"

definition RUN_MAX_OVRHD_RELAX :: nat where
  "RUN_MAX_OVRHD_RELAX = 0x1800"

definition RUN_MAXREGS :: nat where
  "RUN_MAXREGS = 2 ^ LG_RUN_MAXREGS"

definition REDZONE_MINSIZE :: nat where
  "REDZONE_MINSIZE = 16"

definition sizeof_arena_run_t :: nat where
  "sizeof_arena_run_t = 32"

definition LONG_CEILING :: "nat \<Rightarrow> nat" where
  "LONG_CEILING s = (s + 7) div 8 * 8"

text \<open>Values of \<open>uint32_t\<close> and differences of \<open>size_t\<close>.\<close>

definition u32 :: "nat \<Rightarrow> nat" where
  "u32 x = x mod 2 ^ 32"

definition usub :: "nat \<Rightarrow> nat \<Rightarrow> nat" where
  "usub x y = (x + (2 ^ 64 - y mod 2 ^ 64)) mod 2 ^ 64"

record try_layout =
  try_nregs :: nat
  try_hdr_size :: nat
  try_bitmap_offset :: nat
  try_redzone0_offset :: nat

text \<open>
  The inner loop takes regions away until the header fits in front of them. \<open>bitmap_size\<close> works on a
  structure on the stack, whose contents before are \<open>ls\<close>. Heap profiling is off, so there is no space for
  contexts.
\<close>

fun try_fit :: "nat list \<Rightarrow> nat \<Rightarrow> nat \<Rightarrow> nat \<Rightarrow> nat \<Rightarrow> try_layout option" where
  "try_fit ls run_sz interval pad_size 0 = None"
| "try_fit ls run_sz interval pad_size (Suc n) = do {
     let hdr = LONG_CEILING sizeof_arena_run_t;
     let bmo = hdr;
     bsz \<leftarrow> bitmap_size ls n;
     let hdr = u32 (hdr + bsz);
     let rz0 = u32 (usub (usub run_sz (n * interval)) pad_size);
     if hdr > rz0 then try_fit ls run_sz interval pad_size n
     else Some \<lparr>try_nregs = n, try_hdr_size = hdr, try_bitmap_offset = bmo, try_redzone0_offset = rz0\<rparr> }"

declare try_fit.simps [simp del]

definition start_nregs :: "nat \<Rightarrow> nat" where
  "start_nregs n = (if n > RUN_MAXREGS then RUN_MAXREGS + 1 else n)"

text \<open>The expansion loop; \<open>try_run_size\<close> grows by a page in every round.\<close>

function expand :: "nat list \<Rightarrow> nat \<Rightarrow> nat \<Rightarrow> nat \<Rightarrow> nat \<Rightarrow> try_layout \<Rightarrow> (nat \<times> try_layout) option" where
  "expand ls arena_maxclass interval pad_size try_run_size try = do {
     let good = (try_run_size, try);
     let try_run_size' = try_run_size + PAGE;
     let n = start_nregs (u32 (usub (usub try_run_size' sizeof_arena_run_t) pad_size div interval + 1));
     try' \<leftarrow> try_fit ls try_run_size' interval pad_size n;
     if try_run_size' \<le> arena_maxclass \<and> RUN_MAX_OVRHD * (interval * 8) > RUN_MAX_OVRHD_RELAX
        \<and> u32 (try_redzone0_offset try' * 2 ^ RUN_BFP) > RUN_MAX_OVRHD * try_run_size'
        \<and> try_nregs try' < RUN_MAXREGS
     then expand ls arena_maxclass interval pad_size try_run_size' try'
     else Some good }"
  by pat_completeness auto
termination
  by (relation "measure (\<lambda>(ls, m, i, p, r, t). m + 1 - r)") (auto simp: PAGE_def)

declare expand.simps [simp del]

text \<open>\<open>opt_redzone\<close> stands for \<open>config_fill && opt_redzone\<close>.\<close>

definition bin_info_run_size_calc :: "nat list \<Rightarrow> bool \<Rightarrow> nat \<Rightarrow> arena_bin_info_t \<Rightarrow> nat \<Rightarrow> (arena_bin_info_t \<times> nat) option" where
  "bin_info_run_size_calc ls opt_redzone arena_maxclass bin_info min_run_size = do {
     c_assert (min_run_size \<ge> PAGE);
     c_assert (min_run_size \<le> arena_maxclass);
     let (rz, pad_size) = (if opt_redzone
        then (let align_min = 2 ^ ffsl1 (of_nat (reg_size bin_info))
              in if align_min \<le> REDZONE_MINSIZE then (REDZONE_MINSIZE, 0) else (align_min div 2, align_min div 2))
        else (0, 0));
     let bin_info = bin_info\<lparr>redzone_size := rz, reg_interval := reg_size bin_info + rz * 2\<rparr>;
     let n = start_nregs (u32 (usub min_run_size sizeof_arena_run_t div reg_interval bin_info + 1));
     try \<leftarrow> try_fit ls min_run_size (reg_interval bin_info) pad_size n;
     (good_run_size, good) \<leftarrow> expand ls arena_maxclass (reg_interval bin_info) pad_size min_run_size try;
     c_assert (try_hdr_size good \<le> try_redzone0_offset good);
     let bin_info = bin_info\<lparr>run_size := good_run_size, nregs := try_nregs good,
       bitmap_offset := try_bitmap_offset good, ctx0_offset := 0,
       reg0_offset := u32 (try_redzone0_offset good + redzone_size bin_info)\<rparr>;
     c_assert (reg0_offset bin_info - redzone_size bin_info + nregs bin_info * reg_interval bin_info + pad_size = run_size bin_info);
     Some (bin_info, good_run_size) }"

definition blank_bin_info :: arena_bin_info_t where
  "blank_bin_info = \<lparr>reg_size = 0, redzone_size = 0, reg_interval = 0, run_size = 0, nregs = 0, bitmap_offset = 0,
     bitmap_info = \<lparr>bi_nbits = 0, bi_nlevels = 0, bi_levels = replicate (BITMAP_MAX_LEVELS + 1) 0\<rparr>,
     ctx0_offset = 0, reg0_offset = 0\<rparr>"

text \<open>The bins of the size classes in their order; a run is at least as large as those of the bin before.\<close>

fun bin_info_loop :: "nat list \<Rightarrow> bool \<Rightarrow> nat \<Rightarrow> nat \<Rightarrow> (nat \<times> nat \<times> nat) list \<Rightarrow> arena_bin_info_t list option" where
  "bin_info_loop ls opt_redzone arena_maxclass prev_run_size [] = Some []"
| "bin_info_loop ls opt_redzone arena_maxclass prev_run_size ((bin, delta, sz) # cs) = do {
     let bi = blank_bin_info\<lparr>reg_size := sz\<rparr>;
     (bi, prev_run_size) \<leftarrow> bin_info_run_size_calc ls opt_redzone arena_maxclass bi prev_run_size;
     bmi \<leftarrow> bitmap_info_init (bi_levels (bitmap_info bi)) (nregs bi);
     bis \<leftarrow> bin_info_loop ls opt_redzone arena_maxclass prev_run_size cs;
     Some (bi\<lparr>bitmap_info := bmi\<rparr> # bis) }"

definition bin_info_init :: "nat list \<Rightarrow> bool \<Rightarrow> nat \<Rightarrow> arena_bin_info_t list option" where
  "bin_info_init ls opt_redzone arena_maxclass = bin_info_loop ls opt_redzone arena_maxclass PAGE SIZE_CLASSES"

end
