(* ===== verification/JeRegion_Props.thy ===== *)
theory JeRegion_Props
  imports JeRegion CacheFlush
begin

unbundle bit_operations_syntax

text \<open>Correctness of size classes, region indices, region allocation and run layouts.\<close>

section \<open>Size classes\<close>

fun steps :: "nat \<Rightarrow> (nat \<times> nat \<times> nat) list \<Rightarrow> bool" where
  "steps p [] = True"
| "steps p ((bin, delta, sz) # cs) = (0 < delta \<and> 8 dvd delta \<and> sz = p + delta \<and> steps sz cs)"

definition s2b :: "(nat \<times> nat \<times> nat) list \<Rightarrow> nat list" where
  "s2b cs = concat (map (\<lambda>(bin, delta, sz). replicate (delta div 8) bin) cs)"

lemma s2b_nth:
  assumes "steps p cs" and "map fst cs = [n..<n + length cs]" and "i < length (s2b cs)"
  shows "\<exists>b < length cs. s2b cs ! i = n + b \<and> p + 8 * i + 8 \<le> snd (snd (cs ! b)) \<and>
    (if b = 0 then p else snd (snd (cs ! (b - 1)))) \<le> p + 8 * i"
  using assms
proof (induction cs arbitrary: p n i)
  case (Cons c cs)
  obtain bin d sz where c: "c = (bin, d, sz)" by (cases c) auto
  have s: "0 < d" "8 dvd d" "sz = p + d" "steps sz cs" using Cons.prems(1) by (auto simp: c)
  have "map fst (c # cs) = n # [Suc n..<n + length (c # cs)]" using Cons.prems(2) by (simp add: upt_rec)
  then have n: "bin = n" "map fst cs = [Suc n..<Suc n + length cs]" by (simp_all add: c)
  obtain q where q: "d = 8 * q" using s(2) by (auto elim: dvdE)
  show ?case
  proof (cases "i < q")
    case True
    then show ?thesis using s q n by (intro exI [of _ 0]) (simp add: c s2b_def nth_append)
  next
    case False
    have "length (s2b (c # cs)) = q + length (s2b cs)" by (simp add: s2b_def c q)
    then have "i - q < length (s2b cs)" using False Cons.prems(3) by simp
    then obtain b where b: "b < length cs" "s2b cs ! (i - q) = Suc n + b" "sz + 8 * (i - q) + 8 \<le> snd (snd (cs ! b))"
      "(if b = 0 then sz else snd (snd (cs ! (b - 1)))) \<le> sz + 8 * (i - q)"
      using Cons.IH [OF s(4) n(2)] by blast
    have "s2b (c # cs) ! i = Suc n + b" using False b(2) by (simp add: s2b_def c q nth_append)
    moreover have "p + 8 * i = sz + 8 * (i - q)" using False s(3) q by simp
    ultimately show ?thesis using b by (intro exI [of _ "Suc b"]) (auto simp: c split: if_splits)
  qed
qed (simp add: s2b_def)

lemma size_classes_steps: "steps 0 SIZE_CLASSES" "map fst SIZE_CLASSES = [0..<0 + length SIZE_CLASSES]"
  "length SIZE_CLASSES = NBINS" "length small_size2bin = 448"
  by (simp_all add: SIZE_CLASSES_def NBINS_def small_size2bin_def upt_rec)



section \<open>Region indices\<close>

lemma scaled_inverse: "0 < d \<Longrightarrow> d * (N div d + 1) = N + (d - N mod d)" for d N :: nat
proof -
  assume "0 < d"
  then have "d * (N div d) + N mod d = N" "N mod d < d" by simp_all
  then show ?thesis unfolding distrib_left by linarith
qed

lemma inverse_division:
  assumes "r < 2048" and "3 \<le> d" and "d \<le> 31"
  shows "(r * d * (2 ^ 21 div d + 1)) div 2 ^ 21 = (r :: nat)" and "r * d * (2 ^ 21 div d + 1) < 2 ^ 32"
proof -
  let ?m = "2 ^ 21 mod d"
  have e: "r * d * (2 ^ 21 div d + 1) = r * 2 ^ 21 + r * (d - ?m)"
    using scaled_inverse [of d "2 ^ 21"] assms(2) unfolding mult.assoc by (simp only: distrib_left)
  have "r * (d - ?m) \<le> 2047 * 31" using assms by (intro mult_le_mono) auto
  then have l: "r * (d - ?m) \<le> 63457" by simp
  show "(r * d * (2 ^ 21 div d + 1)) div 2 ^ 21 = r" unfolding e using l by simp
  have "r * 2 ^ 21 \<le> 2047 * 2 ^ 21" using assms(1) by simp
  then show "r * d * (2 ^ 21 div d + 1) < 2 ^ 32" unfolding e using l by simp
qed

lemma ffsl1_nat:
  assumes "0 < n" and "n < 2 ^ 64"
  shows "2 ^ ffsl1 (of_nat n) dvd n \<and> odd (n div 2 ^ ffsl1 (of_nat n))"
proof -
  let ?s = "ffsl1 (of_nat n)"
  have "(of_nat n :: ULONG) \<noteq> 0" using assms by (simp add: word_unat_eq_iff unat_of_nat_ULONG)
  then have f: "?s < 64" "bit (of_nat n :: ULONG) ?s" "\<forall>j < ?s. \<not> bit (of_nat n :: ULONG) j"
    using ffsl1_least by auto
  have b: "bit (of_nat n :: ULONG) j = bit n j" if "j < 64" for j using that by (simp add: bit_of_nat_iff)
  have "take_bit ?s n = 0" using f b by (auto simp: bit_eq_iff bit_take_bit_iff)
  moreover have "bit n ?s" using f b by simp
  ultimately show ?thesis by (simp add: take_bit_eq_0_iff bit_iff_odd)
qed

definition region_addr :: "ULONG \<Rightarrow> arena_bin_info_t \<Rightarrow> nat \<Rightarrow> ULONG" where
  "region_addr a bi r = a + of_nat (reg0_offset bi) + of_nat (reg_interval bi * r)"

text \<open>What a bin has to satisfy for its runs to work.\<close>

definition bin_ok :: "arena_bin_info_t \<Rightarrow> bool" where
  "bin_ok bi \<longleftrightarrow> binfo_ok (bitmap_info bi) \<and> bi_nbits (bitmap_info bi) = nregs bi \<and>
     0 < reg_size bi \<and> reg_size bi \<le> reg_interval bi \<and> 0 < nregs bi \<and> nregs bi \<le> RUN_MAXREGS \<and>
     bitmap_offset bi + bitmap_info_ngroups (bitmap_info bi) \<le> reg0_offset bi \<and>
     reg0_offset bi + reg_interval bi * nregs bi \<le> run_size bi \<and> run_size bi < 2 ^ 32"

definition run_at :: "ULONG \<Rightarrow> arena_bin_info_t \<Rightarrow> bool" where
  "run_at a bi \<longleftrightarrow> bin_ok bi \<and> unat a + run_size bi < 2 ^ 64"

lemma region_bound:
  assumes "run_at a bi" and "r < nregs bi"
  shows "reg0_offset bi + reg_interval bi * r + reg_interval bi \<le> run_size bi"
proof -
  have "reg_interval bi * (r + 1) \<le> reg_interval bi * nregs bi" using assms(2) by (intro mult_le_mono) simp_all
  then show ?thesis using assms(1) by (simp add: run_at_def bin_ok_def distrib_left)
qed

lemma unat_region_addr:
  assumes "run_at a bi" and "r < nregs bi"
  shows "unat (region_addr a bi r) = unat a + reg0_offset bi + reg_interval bi * r"
proof -
  have "unat a + (reg0_offset bi + reg_interval bi * r) < 2 ^ 64"
    using region_bound [OF assms] assms(1) by (simp add: run_at_def)
  then show ?thesis unfolding region_addr_def add.assoc of_nat_add [symmetric] by (rule unat_add_off64)
qed

lemma unat_reg0:
  assumes "run_at a bi"
  shows "unat (a + of_nat (reg0_offset bi)) = unat a + reg0_offset bi"
  using assms by (intro unat_add_off64) (auto simp: run_at_def bin_ok_def)

lemma word_product:
  fixes x y :: nat
  assumes "x * y < 2 ^ 32"
  shows "unat (drop_bit k (of_nat x * of_nat y :: UINT)) = x * y div 2 ^ k"
proof -
  have "unat (of_nat x * of_nat y :: UINT) = x * y"
    unfolding of_nat_mult [symmetric] unat_of_nat using assms by simp
  then show ?thesis using assms unfolding unsigned_drop_bit_eq by (simp add: drop_bit_eq_div take_bit_nat_eq_self)
qed

lemma unat_of_nat_UINT_id: "n < 2 ^ 32 \<Longrightarrow> unat (of_nat n :: UINT) = n"
  unfolding unat_of_nat by simp

lemma drop_bit_of_nat: "n < 2 ^ 32 \<Longrightarrow> drop_bit k (of_nat n :: UINT) = of_nat (n div 2 ^ k)"
proof -
  assume n: "n < 2 ^ 32"
  have "n div 2 ^ k \<le> n" by simp
  then have "n div 2 ^ k < 2 ^ 32" using n by linarith
  then show ?thesis using n unfolding word_unat_eq_iff unsigned_drop_bit_eq
    by (simp add: unat_of_nat_UINT_id drop_bit_eq_div take_bit_nat_eq_self)
qed

lemma ucast_of_nat_small: "n < 2 ^ 32 \<Longrightarrow> (ucast (of_nat n :: ULONG) :: UINT) = of_nat n"
  unfolding word_unat_eq_iff unsigned_ucast_eq
  by (simp add: unat_of_nat_ULONG unat_of_nat_UINT_id take_bit_nat_eq_self)

lemma length_invs: "length interval_invs = 29"
  unfolding interval_invs_def by (simp only: length_map length_upt)

text \<open>The quotient that \<open>arena_run_regind\<close> computes.\<close>

lemma regind_quotient:
  assumes r: "r < 2048" and d: "odd d" and m: "d * r < 2 ^ 32"
  shows "(if d = 1 then (of_nat (d * r) :: UINT)
          else if d \<le> length interval_invs + 2 then drop_bit SIZE_INV_SHIFT (of_nat (d * r) * interval_invs ! (d - 3))
          else of_nat (unat (of_nat (d * r) :: UINT) div d)) = of_nat r"
proof -
  have "d \<noteq> 0" "d \<noteq> 2" using d odd_pos [OF d] by auto
  then consider "d = 1" | "3 \<le> d" "d \<le> 31" | "31 < d" by linarith
  then show ?thesis
  proof cases
    case 2
    have e: "interval_invs ! (d - 3) = of_nat (2 ^ 21 div d + 1)"
    proof -
      have "interval_invs ! (d - 3) = SIZE_INV ([3..<32] ! (d - 3))"
        unfolding interval_invs_def using 2 by (intro nth_map) simp
      also have "[3..<32] ! (d - 3) = d" using 2 by (subst nth_upt) simp_all
      finally show ?thesis by (simp add: SIZE_INV_def SIZE_INV_SHIFT_def LG_RUN_MAXREGS_def)
    qed
    have "unat (drop_bit 21 (of_nat (d * r) * interval_invs ! (d - 3))) = r"
      using inverse_division [OF r 2] unfolding e by (subst word_product) (simp_all add: mult.commute [of r d])
    then have "drop_bit 21 (of_nat (d * r) * interval_invs ! (d - 3)) = of_nat r"
      using r unfolding word_unat_eq_iff by (simp add: unat_of_nat_UINT_id)
    then show ?thesis using 2 by (simp add: length_invs SIZE_INV_SHIFT_def LG_RUN_MAXREGS_def)
  next
    case 3
    then show ?thesis using unat_of_nat_UINT_id [OF m] by (simp add: length_invs del: of_nat_mult)
  qed simp
qed

lemma regind_of_addr:
  assumes "run_at a bi" and "r < nregs bi"
  shows "arena_run_regind a bi (region_addr a bi r) = Some r"
proof -
  have ok: "0 < reg_interval bi" "nregs bi \<le> 2048" "run_size bi < 2 ^ 32"
    using assms(1) by (auto simp: run_at_def bin_ok_def RUN_MAXREGS_def LG_RUN_MAXREGS_def)
  have b: "reg_interval bi * r < 2 ^ 32" "reg_interval bi < 2 ^ 64" and r: "r < 2048"
    using region_bound [OF assms] ok assms(2) by auto
  let ?s = "ffsl1 (of_nat (reg_interval bi))"
  obtain d where d: "reg_interval bi = d * 2 ^ ?s" "odd d"
    using ffsl1_nat [OF ok(1) b(2)] by (metis dvd_div_mult_self)
  have q: "reg_interval bi div 2 ^ ?s = d" by (subst d(1)) simp
  have dr: "reg_interval bi * r div 2 ^ ?s = d * r" by (subst d(1)) (simp add: mult.assoc mult.left_commute [of d])
  have "d * r \<le> reg_interval bi * r" by (subst d(1)) simp
  then have dr32: "d * r < 2 ^ 32" using b(1) by linarith
  have diff: "(ucast (region_addr a bi r - a - of_nat (reg0_offset bi)) :: UINT) = of_nat (reg_interval bi * r)"
  proof -
    have "region_addr a bi r - a - of_nat (reg0_offset bi) = of_nat (reg_interval bi * r)" by (simp add: region_addr_def)
    then show ?thesis using ucast_of_nat_small [OF b(1)] by simp
  qed
  have "a + of_nat (reg0_offset bi) \<le> region_addr a bi r"
    using unat_region_addr [OF assms] unat_reg0 [OF assms(1)] by (simp add: word_le_nat_alt)
  moreover have "unat (of_nat r :: UINT) = r" using r by (simp add: unat_of_nat_UINT_id)
  ultimately show ?thesis
    unfolding arena_run_regind_def Let_def diff drop_bit_of_nat [OF b(1)] q dr regind_quotient [OF r d(2) dr32]
    using assms(2) by (simp add: mult.commute)
qed

section \<open>Allocating and freeing regions\<close>

definition used_regs :: "arena_bin_info_t \<Rightarrow> arena_run_t \<Rightarrow> nat set" where
  "used_regs bi run = bm_set (bitmap_info bi) (run_bitmap run)"

definition run_ok :: "arena_bin_info_t \<Rightarrow> arena_run_t \<Rightarrow> bool" where
  "run_ok bi run \<longleftrightarrow> bm_ok (bitmap_info bi) (run_bitmap run) \<and> run_nfree run + card (used_regs bi run) = nregs bi \<and>
     run_nextind run \<le> nregs bi \<and> used_regs bi run \<subseteq> {..<run_nextind run}"

lemma used_bound: "bin_ok bi \<Longrightarrow> used_regs bi run \<subseteq> {..<nregs bi}"
  by (auto simp: used_regs_def bm_set_def bin_ok_def)

lemma used_finite: "bin_ok bi \<Longrightarrow> finite (used_regs bi run)"
  using used_bound finite_subset by blast

lemma run_ok_init: "bin_ok bi \<Longrightarrow> run_ok bi (arena_run_init b bi) \<and> used_regs bi (arena_run_init b bi) = {}"
  using bitmap_init_ok [of "bitmap_info bi"] by (simp add: bin_ok_def run_ok_def used_regs_def arena_run_init_def)

lemma nfree_pos:
  assumes "bin_ok bi" and "run_ok bi run"
  shows "0 < run_nfree run \<longleftrightarrow> used_regs bi run \<noteq> {..<nregs bi}"
proof -
  have "card (used_regs bi run) = card {..<nregs bi} \<longleftrightarrow> used_regs bi run = {..<nregs bi}"
    using card_subset_eq [OF finite_lessThan used_bound [OF assms(1)]] by metis
  then have "card (used_regs bi run) = nregs bi \<longleftrightarrow> used_regs bi run = {..<nregs bi}" by simp
  moreover have "run_nfree run + card (used_regs bi run) = nregs bi" using assms(2) by (simp add: run_ok_def)
  ultimately show ?thesis by linarith
qed

lemma reg_alloc_full:
  assumes "bin_ok bi" and "run_ok bi run" and "used_regs bi run = {..<nregs bi}"
  shows "arena_run_reg_alloc a run bi = None"
  using nfree_pos [OF assms(1,2)] assms(3) by (simp add: arena_run_reg_alloc_def)

lemma reg_alloc_ok:
  assumes bi: "bin_ok bi" and ok: "run_ok bi run" and f: "used_regs bi run \<noteq> {..<nregs bi}"
  obtains run' k where "arena_run_reg_alloc a run bi = Some (run', region_addr a bi k)" "run_ok bi run'"
    "k < nregs bi" "k \<notin> used_regs bi run" "{..<k} \<subseteq> used_regs bi run" "used_regs bi run' = insert k (used_regs bi run)"
proof -
  let ?bm = "run_bitmap run" and ?b = "bitmap_info bi"
  have b: "binfo_ok ?b" "bi_nbits ?b = nregs bi" "bm_ok ?b ?bm" using bi ok by (simp_all add: bin_ok_def run_ok_def)
  obtain bm k where k: "bitmap_sfu ?bm ?b = Some (bm, k)" "bm_ok ?b bm" "k < nregs bi" "k \<notin> used_regs bi run"
    "{..<k} \<subseteq> used_regs bi run" "bm_set ?b bm = insert k (used_regs bi run)"
    using bitmap_sfu_ok [OF b(1,3)] f b(2) unfolding used_regs_def by metis
  have "used_regs bi run \<subseteq> {..<run_nextind run}" using ok by (simp add: run_ok_def)
  then have "{..<k} \<subseteq> {..<run_nextind run}" using k(5) by (rule order_trans [rotated])
  then have "k \<le> run_nextind run" by simp
  moreover have "\<not> bitmap_full ?bm ?b" using bitmap_full_iff [OF b(1,3)] f b(2) by (simp add: used_regs_def)
  moreover have "0 < run_nfree run" using nfree_pos [OF bi ok] f by simp
  moreover define run' where "run' = run\<lparr>run_bitmap := bm, run_nfree := run_nfree run - 1,
    run_nextind := (if k = run_nextind run then run_nextind run + 1 else run_nextind run)\<rparr>"
  ultimately have "arena_run_reg_alloc a run bi = Some (run', region_addr a bi k)"
    using k(1) by (simp add: arena_run_reg_alloc_def Let_def region_addr_def)
  moreover have u: "used_regs bi run' = insert k (used_regs bi run)" using k(6) by (simp add: used_regs_def run'_def)
  moreover have "run_ok bi run'"
  proof -
    have "card (insert k (used_regs bi run)) = Suc (card (used_regs bi run))"
      using k(4) used_finite [OF bi, of run] by simp
    moreover have "used_regs bi run \<subseteq> {..<run_nextind run}" using ok by (simp add: run_ok_def)
    ultimately show ?thesis
      using ok k(2,3) \<open>0 < run_nfree run\<close> \<open>k \<le> run_nextind run\<close> unfolding run_ok_def u by (auto simp: run'_def)
  qed
  ultimately show thesis using that k by blast
qed

lemma reg_dalloc_ok:
  assumes at: "run_at a bi" and ok: "run_ok bi run" and k: "k < nregs bi"
  shows "if k \<in> used_regs bi run
    then \<exists>run'. arena_run_reg_dalloc a run bi (region_addr a bi k) = Some run' \<and> run_ok bi run' \<and> used_regs bi run' = used_regs bi run - {k}
    else arena_run_reg_dalloc a run bi (region_addr a bi k) = None"
proof -
  let ?b = "bitmap_info bi"
  have bi: "bin_ok bi" using at by (simp add: run_at_def)
  have b: "binfo_ok ?b" "bi_nbits ?b = nregs bi" "bm_ok ?b (run_bitmap run)" using bi ok by (simp_all add: bin_ok_def run_ok_def)
  have g: "bitmap_get (run_bitmap run) ?b k = Some (k \<in> used_regs bi run)"
    using bitmap_get_ok [OF b(1)] k b(2) by (simp add: used_regs_def)
  show ?thesis
  proof (cases "k \<in> used_regs bi run")
    case True
    obtain bm where bm: "bitmap_unset (run_bitmap run) ?b k = Some bm" "bm_ok ?b bm" "bm_set ?b bm = used_regs bi run - {k}"
      using bitmap_unset_ok [OF b(1,3)] True unfolding used_regs_def by metis
    have c: "0 < card (used_regs bi run)" using True used_finite [OF bi, of run] by (auto simp: card_gt_0_iff)
    then have n: "run_nfree run < nregs bi" using ok by (simp add: run_ok_def)
    have le: "a + of_nat (reg0_offset bi) \<le> region_addr a bi k"
      using unat_region_addr [OF at k] unat_reg0 [OF at] by (simp add: word_le_nat_alt)
    have "unat (region_addr a bi k - (a + of_nat (reg0_offset bi))) = reg_interval bi * k"
      using unat_region_addr [OF at k] unat_reg0 [OF at] by (subst unat_sub [OF le]) simp
    then have "arena_run_reg_dalloc a run bi (region_addr a bi k) = Some (run\<lparr>run_bitmap := bm, run_nfree := run_nfree run + 1\<rparr>)"
      using True n g bm(1) le by (simp add: arena_run_reg_dalloc_def regind_of_addr [OF at k])
    moreover have "run_ok bi (run\<lparr>run_bitmap := bm, run_nfree := run_nfree run + 1\<rparr>)"
    proof -
      have "card (used_regs bi run - {k}) = card (used_regs bi run) - 1"
        using True used_finite [OF bi, of run] by (simp add: card_Diff_singleton)
      then show ?thesis using ok bm(2) c unfolding run_ok_def used_regs_def
        by (auto simp: bm(3) [unfolded used_regs_def])
    qed
    ultimately show ?thesis using True bm(3) by (auto simp: used_regs_def)
  next
    case False
    then show ?thesis using g by (auto simp: arena_run_reg_dalloc_def regind_of_addr [OF at k] bind_eq_None_conv c_assert_def)
  qed
qed

end
