(* ===== verification/JeLayout.thy ===== *)
theory JeLayout
  imports JeRegion_Props
begin

text \<open>The runs of every size class have a layout that works, and regions of a run as slots.\<close>

section \<open>The regions as slots\<close>

definition reg_take :: "ULONG \<times> arena_bin_info_t \<times> arena_run_t \<Rightarrow> ((ULONG \<times> arena_bin_info_t \<times> arena_run_t) \<times> nat) option" where
  "reg_take = (\<lambda>(a, bi, run). do {
     (run', p) \<leftarrow> arena_run_reg_alloc a run bi;
     k \<leftarrow> arena_run_regind a bi p;
     Some ((a, bi, run'), k) })"

definition reg_give :: "ULONG \<times> arena_bin_info_t \<times> arena_run_t \<Rightarrow> nat \<Rightarrow> (ULONG \<times> arena_bin_info_t \<times> arena_run_t) option" where
  "reg_give = (\<lambda>(a, bi, run) k. do {
     c_assert (k < nregs bi);
     run' \<leftarrow> arena_run_reg_dalloc a run bi (region_addr a bi k);
     Some (a, bi, run') })"

interpretation regs: slots "\<lambda>(a, bi, run). run_at a bi \<and> run_ok bi run" "\<lambda>(a, bi, run). nregs bi"
  "\<lambda>(a, bi, run). used_regs bi run" reg_take reg_give
proof (unfold_locales, goal_cases)
  case (1 b)
  then show ?case using used_bound by (cases b) (simp add: run_at_def)
next
  case (2 b)
  then show ?case by (cases b) (simp add: reg_take_def reg_alloc_full run_at_def)
next
  case (3 b)
  obtain a bi run where b: "b = (a, bi, run)" by (cases b)
  have bi: "run_at a bi" "bin_ok bi" "run_ok bi run" "used_regs bi run \<noteq> {..<nregs bi}" using 3 by (simp_all add: b run_at_def)
  obtain run' k where k: "arena_run_reg_alloc a run bi = Some (run', region_addr a bi k)" "run_ok bi run'"
    "k < nregs bi" "k \<notin> used_regs bi run" "{..<k} \<subseteq> used_regs bi run" "used_regs bi run' = insert k (used_regs bi run)"
    using reg_alloc_ok [OF bi(2-4)] by blast
  have "(LEAST k. k \<notin> used_regs bi run) = k" using k(4,5) by (intro Least_equality) (auto intro: leI)
  then show ?case using k bi(1) by (simp add: b reg_take_def regind_of_addr)
next
  case (4 b k)
  obtain a bi run where b: "b = (a, bi, run)" by (cases b)
  show ?case
  proof (cases "k < nregs bi")
    case True
    then show ?thesis using reg_dalloc_ok [of a bi run k] 4 by (simp add: b reg_give_def)
  qed (simp add: b reg_give_def)
next
  case (5 b k)
  obtain a bi run where b: "b = (a, bi, run)" by (cases b)
  have "k < nregs bi" using 5 used_bound [of bi run] by (auto simp: b run_at_def)
  then show ?case using reg_dalloc_ok [of a bi run k] 5 by (auto simp: b reg_give_def)
qed

section \<open>The layout of runs\<close>

lemma bitmap_size_eq:
  assumes "0 < n" and "n \<le> 2048" and "length ls = BITMAP_MAX_LEVELS + 1"
  shows "bitmap_size ls n = Some (bm_bytes n)"
proof -
  have n: "n \<le> 2 ^ 11" using assms(2) by simp
  obtain b where "bitmap_info_init ls n = Some b" "bitmap_info_ngroups b = bm_bytes n"
    using bitmap_info_init_ok [OF assms(1) n assms(3)] by blast
  then show ?thesis by (simp add: bitmap_size_def)
qed

lemma bm_bytes_bounds: "0 < n \<Longrightarrow> n \<le> 2048 \<Longrightarrow> bm_bytes n \<le> 264" "bm_bytes 1 = 8"
proof -
  assume "n \<le> 2048"
  then have "(n + 63) div 64 \<le> (2048 + 63) div 64" by (intro div_le_mono) simp
  then have "(n + 63) div 64 \<le> 32" by simp
  then show "bm_bytes n \<le> 264" unfolding bm_bytes_def bits2groups_eq by (cases "n \<le> 64") simp_all
qed (simp add: bm_bytes_def)

definition fits :: "nat \<Rightarrow> nat \<Rightarrow> try_layout \<Rightarrow> bool" where
  "fits R I t \<longleftrightarrow> 0 < try_nregs t \<and> try_nregs t \<le> RUN_MAXREGS \<and> try_nregs t * I \<le> R \<and>
     try_bitmap_offset t = 32 \<and> try_hdr_size t = 32 + bm_bytes (try_nregs t) \<and>
     try_redzone0_offset t = R - try_nregs t * I \<and> try_hdr_size t \<le> try_redzone0_offset t"

lemma usub_eq: "y \<le> x \<Longrightarrow> x < 2 ^ 64 \<Longrightarrow> usub x y = x - y"
proof -
  assume "y \<le> x" "x < 2 ^ 64"
  then have "x + (2 ^ 64 - y mod 2 ^ 64) = (x - y) + 2 ^ 64" by simp
  then show ?thesis unfolding usub_def using \<open>x < 2 ^ 64\<close> by simp
qed

lemma u32_eq [simp]: "x < 2 ^ 32 \<Longrightarrow> u32 x = x"
  by (simp add: u32_def)

lemma LONG_CEILING_hdr: "LONG_CEILING sizeof_arena_run_t = 32"
  by (simp add: LONG_CEILING_def sizeof_arena_run_t_def)

lemma try_fit_ok:
  assumes ls: "length ls = BITMAP_MAX_LEVELS + 1" and R: "R < 2 ^ 32" and I: "I + 40 \<le> R"
  shows "0 < n \<Longrightarrow> n \<le> 2048 \<Longrightarrow> n * I \<le> R \<Longrightarrow> \<exists>t. try_fit ls R I 0 (Suc n) = Some t \<and> fits R I t"
proof (induction n)
  case (Suc n)
  let ?m = "Suc n"
  have b: "bitmap_size ls ?m = Some (bm_bytes ?m)" using bitmap_size_eq [OF _ _ ls] Suc.prems by simp
  have h: "u32 (32 + bm_bytes ?m) = 32 + bm_bytes ?m" using bm_bytes_bounds(1) [of ?m] Suc.prems by (intro u32_eq) simp
  have z: "u32 (usub (usub R (?m * I)) 0) = R - ?m * I"
  proof -
    have "usub R (?m * I) = R - ?m * I" using Suc.prems(3) R by (intro usub_eq) simp_all
    then show ?thesis using R by (simp add: usub_eq)
  qed
  show ?case
  proof (cases "32 + bm_bytes ?m > R - ?m * I")
    case True
    have "0 < n"
    proof (rule ccontr)
      assume "\<not> 0 < n"
      then show False using True I bm_bytes_bounds(2) by simp
    qed
    moreover have "n * I \<le> R" using Suc.prems(3) by simp
    ultimately have "\<exists>t. try_fit ls R I 0 (Suc n) = Some t \<and> fits R I t" using Suc.IH Suc.prems(2) by simp
    moreover have "try_fit ls R I 0 (Suc ?m) = try_fit ls R I 0 ?m"
      by (subst try_fit.simps(2)) (simp only: LONG_CEILING_hdr Let_def b h z True if_True bind.bind_lunit)
    ultimately show ?thesis by simp
  next
    case False
    have "try_fit ls R I 0 (Suc ?m) = Some \<lparr>try_nregs = ?m, try_hdr_size = 32 + bm_bytes ?m, try_bitmap_offset = 32,
        try_redzone0_offset = R - ?m * I\<rparr>"
      by (subst try_fit.simps(2)) (simp only: LONG_CEILING_hdr Let_def b h z False if_False bind.bind_lunit)
    then show ?thesis using Suc.prems False by (auto simp: fits_def RUN_MAXREGS_def LG_RUN_MAXREGS_def simp del: try_fit.simps mult_Suc)
  qed
qed simp

lemma start_fit:
  assumes ls: "length ls = BITMAP_MAX_LEVELS + 1" and R: "4096 \<le> R" "R < 2 ^ 32" and I: "0 < I" "I \<le> 3584"
  shows "\<exists>t. try_fit ls R I 0 (start_nregs (u32 (usub (usub R sizeof_arena_run_t) 0 div I + 1))) = Some t \<and> fits R I t"
proof -
  let ?q = "(R - 32) div I"
  have u: "usub (usub R sizeof_arena_run_t) 0 = R - 32"
    using R by (simp add: usub_eq sizeof_arena_run_t_def)
  have q: "?q * I \<le> R" "?q \<le> R" using div_times_less_eq_dividend [of "R - 32" I] div_le_dividend [of "R - 32" I] by linarith+
  have "I \<le> R - 32" using R I by simp
  then have "1 \<le> ?q" using I(1) by (simp add: div_greater_zero_iff Suc_le_eq)
  define n where "n = (if ?q < 2048 then ?q else 2048)"
  have "start_nregs (u32 (?q + 1)) = Suc n"
  proof -
    have "u32 (?q + 1) = ?q + 1" using div_le_dividend [of "R - 32" I] R by (intro u32_eq) linarith
    then show ?thesis by (auto simp: start_nregs_def n_def RUN_MAXREGS_def LG_RUN_MAXREGS_def)
  qed
  moreover have "n \<le> ?q" by (simp add: n_def)
  then have "n * I \<le> R" using q(1) mult_le_mono1 [of n ?q I] by linarith
  ultimately show ?thesis
    using try_fit_ok [OF ls R(2), of I n] \<open>1 \<le> ?q\<close> I R unfolding u by (auto simp: n_def)
qed

lemma expand_ok:
  assumes ls: "length ls = BITMAP_MAX_LEVELS + 1" and m: "m < 2 ^ 32 - PAGE" and I: "0 < I" "I \<le> 3584"
  shows "4096 \<le> R \<Longrightarrow> R \<le> m \<Longrightarrow> fits R I t \<Longrightarrow>
    \<exists>R' t'. expand ls m I 0 R t = Some (R', t') \<and> fits R' I t' \<and> R \<le> R' \<and> R' \<le> m \<and> (PAGE dvd R \<longrightarrow> PAGE dvd R')"
proof (induction "m + 1 - R" arbitrary: R t rule: less_induct)
  case less
  let ?R = "R + PAGE"
  have R: "4096 \<le> ?R" "?R < 2 ^ 32" using less.prems(1,2) m by simp_all
  obtain t' where t': "try_fit ls ?R I 0 (start_nregs (u32 (usub (usub ?R sizeof_arena_run_t) 0 div I + 1))) = Some t'" "fits ?R I t'"
    using start_fit [OF ls R I] by blast
  let ?c = "?R \<le> m \<and> RUN_MAX_OVRHD * (I * 8) > RUN_MAX_OVRHD_RELAX \<and>
    u32 (try_redzone0_offset t' * 2 ^ RUN_BFP) > RUN_MAX_OVRHD * ?R \<and> try_nregs t' < RUN_MAXREGS"
  have e: "expand ls m I 0 R t = (if ?c then expand ls m I 0 ?R t' else Some (R, t))"
    by (subst expand.simps) (simp add: Let_def t'(1) [simplified])
  show ?case
  proof (cases ?c)
    case True
    then have "m + 1 - ?R < m + 1 - R" using less.prems(2) by (auto simp: PAGE_def)
    then obtain R' u where "expand ls m I 0 ?R t' = Some (R', u)" "fits R' I u" "?R \<le> R'" "R' \<le> m" "PAGE dvd ?R \<longrightarrow> PAGE dvd R'"
      using less.hyps [of ?R t'] R(1) True t'(2) by blast
    then show ?thesis using e True by auto
  next
    case False
    then show ?thesis using e less.prems by auto
  qed
qed

lemma run_size_calc_ok:
  assumes ls: "length ls = BITMAP_MAX_LEVELS + 1" and m: "m < 2 ^ 32 - PAGE" and s: "0 < reg_size bi" "reg_size bi \<le> 3584"
    and R: "4096 \<le> R" "R \<le> m" "PAGE dvd R"
  shows "\<exists>bi' R'. bin_info_run_size_calc ls False m bi R = Some (bi', R') \<and> R \<le> R' \<and> R' \<le> m \<and> PAGE dvd R' \<and>
    run_size bi' = R' \<and> reg_size bi' = reg_size bi \<and> reg_interval bi' = reg_size bi \<and> 0 < nregs bi' \<and> nregs bi' \<le> RUN_MAXREGS \<and>
    bitmap_info bi' = bitmap_info bi \<and> bitmap_offset bi' + bm_bytes (nregs bi') \<le> reg0_offset bi' \<and>
    reg0_offset bi' + reg_interval bi' * nregs bi' = R'"
proof -
  let ?I = "reg_size bi"
  have R32: "R < 2 ^ 32" using R(2) m by simp
  have u: "usub R sizeof_arena_run_t = usub (usub R sizeof_arena_run_t) 0"
  proof -
    have "R < 2 ^ 64" using R32 by simp
    then show ?thesis using R by (simp add: usub_eq sizeof_arena_run_t_def)
  qed
  obtain t where t: "try_fit ls R ?I 0 (start_nregs (u32 (usub R sizeof_arena_run_t div ?I + 1))) = Some t" "fits R ?I t"
    using start_fit [OF ls R(1) R32 s] unfolding u [symmetric] by blast
  obtain R' g where g: "expand ls m ?I 0 R t = Some (R', g)" "fits R' ?I g" "R \<le> R'" "R' \<le> m" "PAGE dvd R'"
    using expand_ok [OF ls m s R(1,2) t(2)] R(3) by blast
  have f: "0 < try_nregs g" "try_nregs g \<le> RUN_MAXREGS" "try_nregs g * ?I \<le> R'" "try_bitmap_offset g = 32"
    "try_hdr_size g = 32 + bm_bytes (try_nregs g)" "try_redzone0_offset g = R' - try_nregs g * ?I"
    "try_hdr_size g \<le> try_redzone0_offset g"
    using g(2) by (simp_all add: fits_def)
  have r: "u32 (try_redzone0_offset g) = R' - try_nregs g * ?I"
    unfolding f(6) using g(4) m by (intro u32_eq) linarith
  let ?b = "bi\<lparr>redzone_size := 0, reg_interval := ?I, run_size := R', nregs := try_nregs g, bitmap_offset := 32,
    ctx0_offset := 0, reg0_offset := R' - try_nregs g * ?I\<rparr>"
  have "bin_info_run_size_calc ls False m bi R = Some (?b, R')"
    using t(1) g(1) f r R by (simp add: bin_info_run_size_calc_def Let_def PAGE_def)
  then show ?thesis using f g(3-5) by (intro exI [of _ ?b] exI [of _ R']) (simp add: mult.commute [of ?I])
qed

lemma bin_info_loop_ok:
  assumes ls: "length ls = BITMAP_MAX_LEVELS + 1" and m: "m < 2 ^ 32 - PAGE"
  shows "4096 \<le> R \<Longrightarrow> R \<le> m \<Longrightarrow> PAGE dvd R \<Longrightarrow> (\<And>bin d sz. (bin, d, sz) \<in> set cs \<Longrightarrow> 0 < sz \<and> sz \<le> 3584) \<Longrightarrow>
    \<exists>bis. bin_info_loop ls False m R cs = Some bis \<and> map reg_size bis = map (snd \<circ> snd) cs \<and>
      (\<forall>bi \<in> set bis. bin_ok bi \<and> PAGE dvd run_size bi \<and> R \<le> run_size bi \<and> run_size bi \<le> m \<and>
         reg0_offset bi + reg_interval bi * nregs bi = run_size bi)"
proof (induction cs arbitrary: R)
  case (Cons c cs)
  obtain bin d sz where c: "c = (bin, d, sz)" by (cases c) auto
  have sz: "0 < sz" "sz \<le> 3584" using Cons.prems(4) [of bin d sz] by (simp_all add: c)
  let ?b = "blank_bin_info\<lparr>reg_size := sz\<rparr>"
  obtain b R' where b: "bin_info_run_size_calc ls False m ?b R = Some (b, R')" "R \<le> R'" "R' \<le> m" "PAGE dvd R'"
    "run_size b = R'" "reg_size b = sz" "reg_interval b = sz" "0 < nregs b" "nregs b \<le> RUN_MAXREGS"
    "bitmap_info b = bitmap_info ?b" "bitmap_offset b + bm_bytes (nregs b) \<le> reg0_offset b"
    "reg0_offset b + reg_interval b * nregs b = R'"
    using run_size_calc_ok [OF ls m, of ?b R] sz Cons.prems(1-3) by auto
  have l: "length (bi_levels (bitmap_info b)) = BITMAP_MAX_LEVELS + 1" by (simp add: b(10) blank_bin_info_def)
  have n: "nregs b \<le> 2 ^ 11" using b(9) by (simp add: RUN_MAXREGS_def LG_RUN_MAXREGS_def)
  obtain bmi where bmi: "bitmap_info_init (bi_levels (bitmap_info b)) (nregs b) = Some bmi" "binfo_ok bmi"
    "bi_nbits bmi = nregs b" "bitmap_info_ngroups bmi = bm_bytes (nregs b)"
    using bitmap_info_init_ok [OF b(8) n l] by blast
  have p: "0 < sz \<and> sz \<le> 3584" if "(bin, d, sz) \<in> set cs" for bin d sz
    using Cons.prems(4) [of bin d sz] that by simp
  obtain bis where bis: "bin_info_loop ls False m R' cs = Some bis" "map reg_size bis = map (snd \<circ> snd) cs"
    "\<forall>bi \<in> set bis. bin_ok bi \<and> PAGE dvd run_size bi \<and> R' \<le> run_size bi \<and> run_size bi \<le> m \<and>
         reg0_offset bi + reg_interval bi * nregs bi = run_size bi"
    using Cons.IH [OF order_trans [OF Cons.prems(1) b(2)] b(3,4)] p by blast
  have "run_size b < 2 ^ 32" using b(3,5) m by simp
  then have "bin_ok (b\<lparr>bitmap_info := bmi\<rparr>)" using b bmi sz unfolding bin_ok_def by simp
  moreover have "bin_info_loop ls False m R (c # cs) = Some (b\<lparr>bitmap_info := bmi\<rparr> # bis)"
    using b(1) bmi(1) bis(1) by (simp add: c Let_def)
  moreover have "R \<le> run_size bi" if "bi \<in> set bis" for bi using bis(3) b(2) that by fastforce
  ultimately show ?case using b(2-5,6,7,12) bis(2,3) by (intro exI [of _ "b\<lparr>bitmap_info := bmi\<rparr> # bis"]) (simp add: c)
qed simp

section \<open>Properties\<close>



text \<open>The bin of 48 bytes: 84 regions of a run of one page.\<close>

definition demo_bin :: arena_bin_info_t where
  "demo_bin = blank_bin_info\<lparr>reg_size := 48, reg_interval := 48, run_size := 4096, nregs := 84, bitmap_offset := 32,
     bitmap_info := \<lparr>bi_nbits = 84, bi_nlevels = 2, bi_levels = [0, 2, 3, 0, 0]\<rparr>, reg0_offset := 64\<rparr>"

lemma demo_run: "run_at 0x10000 demo_bin"
proof -
  have e: "bitmap_info_init [0, 0, 0, 0, 0] 84 = Some \<lparr>bi_nbits = 84, bi_nlevels = 2, bi_levels = [0, 2, 3, 0, 0]\<rparr>"
    by code_simp
  have "length [0, 0, 0, 0, 0 :: nat] = BITMAP_MAX_LEVELS + 1" "(0 :: nat) < 84" "84 \<le> (2 :: nat) ^ 11"
    by (simp_all add: bitmap_consts)
  then obtain b where "bitmap_info_init [0, 0, 0, 0, 0] 84 = Some b" "binfo_ok b" "bitmap_info_ngroups b = bm_bytes 84"
    using bitmap_info_init_ok by metis
  then have "binfo_ok (bitmap_info demo_bin)" "bitmap_info_ngroups (bitmap_info demo_bin) \<le> 32"
    using e by (simp_all add: demo_bin_def bm_bytes_def bits2groups_eq)
  then show ?thesis
    by (simp add: run_at_def bin_ok_def demo_bin_def RUN_MAXREGS_def LG_RUN_MAXREGS_def)
qed



text \<open>
  C15: \<open>arena_run_regind\<close> inverts the address computation of \<open>arena_run_reg_alloc\<close>: for every layout, the index of
  the \<open>r\<close>-th region is \<open>r\<close>, whether the division is a shift, a multiplication with the scaled
  inverse in 32 bits, or a division.
\<close>

theorem regind_exact:
  assumes "run_at a bi" and "r < nregs bi"
  shows "arena_run_regind a bi (region_addr a bi r) = Some r"
  using regind_of_addr [OF assms] .

theorem regind_exact_witness: "arena_run_regind 0x10000 demo_bin (region_addr 0x10000 demo_bin 83) = Some 83"
  using regind_exact [OF demo_run, of 83] by (simp add: demo_bin_def)

text \<open>
  C14: a new run hands out its regions as slots. In any sequence of \<open>arena_run_reg_alloc\<close> and
  \<open>arena_run_reg_dalloc\<close> the former returns the first region that is not in use and never one that is, the
  latter takes a region back, and an assertion stops the sequence exactly when all regions are in use or the
  region was free.
\<close>

theorem run_regions_refine_slots:
  assumes "run_at a bi"
  shows "map_option (\<lambda>((a, bi, run), ks). (used_regs bi run, ks)) (slot_run reg_take reg_give (a, bi, arena_run_init b bi) ops) =
    slot_spec (nregs bi) {} ops"
proof -
  have i: "run_ok bi (arena_run_init b bi)" "used_regs bi (arena_run_init b bi) = {}"
    using run_ok_init assms by (simp_all add: run_at_def)
  have e: "(\<lambda>((a, bi, run), ks). (used_regs bi run, ks)) = (\<lambda>(s, ks). (case s of (a, bi, run) \<Rightarrow> used_regs bi run, ks))"
    by (simp add: fun_eq_iff)
  show ?thesis using regs.run_refines [of "(a, bi, arena_run_init b bi)" ops] assms i by (simp add: e)
qed

theorem run_regions_refine_slots_witness:
  "map_option snd (slot_run reg_take reg_give (0x10000, demo_bin, arena_run_init 3 demo_bin) [Take, Give 0, Take]) = Some [0, 0]"
proof -
  have k: "(LEAST k. k \<notin> ({} :: nat set)) = 0" by (rule Least_equality) simp_all
  have f: "{} \<noteq> {..<84 :: nat}" unfolding set_eq_iff not_all by (rule exI [of _ 5]) simp
  have n: "nregs demo_bin = 84" by (simp add: demo_bin_def)
  have s: "slot_spec 84 {} [Take, Give 0, Take] = Some ({0}, [0, 0])"
    unfolding slot_spec.simps Let_def k f [THEN if_not_P] by (simp add: k f)
  let ?r = "slot_run reg_take reg_give (0x10000, demo_bin, arena_run_init 3 demo_bin) [Take, Give 0, Take]"
  have "map_option snd ?r = map_option snd (map_option (\<lambda>((a, bi, run), ks). (used_regs bi run, ks)) ?r)"
    by (simp add: option.map_comp case_prod_beta comp_def)
  then show ?thesis unfolding run_regions_refine_slots [OF demo_run] n s by simp
qed

end
