(* ===== verification/Spec2Isabelle.thy ===== *)
theory Spec2Isabelle
  imports Rbtree_Props UtilFunc NvMap_Props NvTransact JeLayout
begin

text \<open>
  A verification library for nvmalloc, an allocator for objects in non-volatile memory.
\<close>

end
